(* ===== verification/Ish_Prelude.thy ===== *)
theory Ish_Prelude
  imports Main "HOL-Library.Word"
begin

text \<open>
  Shared vocabulary of the development: the machine integer types of \<^verbatim>\<open>misc.h\<close>, the
  kernel's error numbers (\<^verbatim>\<open>kernel/errno.h\<close>) and the result type of a fallible call,
  little-endian reads of guest structures, and the list, association-list and word
  lemmas the component theories use.
\<close>

unbundle bit_operations_syntax

type_synonym u8 = "8 word"
type_synonym u16 = "16 word"
type_synonym u32 = "32 word"
type_synonym u64 = "64 word"

text \<open>Signed 64-bit arithmetic (\<^verbatim>\<open>off_t_\<close>) on integers: \<open>s64\<close> is the wrap-around of a result.\<close>

definition s64 :: "int \<Rightarrow> int" where
  "s64 x = (x + 2 ^ 63) mod 2 ^ 64 - 2 ^ 63"

abbreviation OFF_T_MAX :: int where "OFF_T_MAX \<equiv> 0x7fffffffffffffff"

definition in_s64 :: "int \<Rightarrow> bool" where
  "in_s64 x \<longleftrightarrow> - (2 ^ 63) \<le> x \<and> x < 2 ^ 63"

lemma s64_id: "in_s64 x \<Longrightarrow> s64 x = x"
  by (simp add: s64_def in_s64_def)

definition s32 :: "int \<Rightarrow> int" where
  "s32 x = (x + 2 ^ 31) mod 2 ^ 32 - 2 ^ 31"

section \<open>Error numbers and results\<close>

text \<open>
  The error numbers the modelled code returns. In the source each is a negative
  \<^verbatim>\<open>int\<close> and success is a value that is not negative; here a call returns
  \<open>Inl e\<close> or \<open>Inr v\<close>, and \<open>errno_value\<close> gives the number the guest sees.
\<close>

datatype errno =
    EPERM | ENOENT | ESRCH | EINTR | E2BIG | EBADF | EAGAIN | ENOMEM | EACCES | EFAULT
  | EEXIST | EINVAL | EMFILE | EFBIG | ESPIPE | ERANGE | EDEADLK | ENOSYS | ENOMSG | EIDRM
  | EOVERFLOW | EOPNOTSUPP | ETIMEDOUT | ERESTART | ERESTART_NOINTR

fun errno_value :: "errno \<Rightarrow> int" where
  "errno_value EPERM = - 1"
| "errno_value ENOENT = - 2"
| "errno_value ESRCH = - 3"
| "errno_value EINTR = - 4"
| "errno_value E2BIG = - 7"
| "errno_value EBADF = - 9"
| "errno_value EAGAIN = - 11"
| "errno_value ENOMEM = - 12"
| "errno_value EACCES = - 13"
| "errno_value EFAULT = - 14"
| "errno_value EEXIST = - 17"
| "errno_value EINVAL = - 22"
| "errno_value EMFILE = - 24"
| "errno_value EFBIG = - 27"
| "errno_value ESPIPE = - 29"
| "errno_value ERANGE = - 34"
| "errno_value EDEADLK = - 35"
| "errno_value ENOSYS = - 38"
| "errno_value ENOMSG = - 42"
| "errno_value EIDRM = - 43"
| "errno_value EOVERFLOW = - 75"
| "errno_value EOPNOTSUPP = - 95"
| "errno_value ETIMEDOUT = - 110"
| "errno_value ERESTART = - 85"
| "errno_value ERESTART_NOINTR = - 513"

type_synonym 'a res = "errno + 'a"

section \<open>Little-endian reads\<close>

text \<open>
  A guest structure is read as the bytes at an address; every supported guest and host is
  little-endian. \<open>le_word bs\<close> is the integer whose least significant byte comes first.
\<close>

fun le_word :: "u8 list \<Rightarrow> 'a::len word" where
  "le_word [] = 0"
| "le_word (b # bs) = ucast b + 256 * le_word bs"

definition le_at :: "nat \<Rightarrow> nat \<Rightarrow> u8 list \<Rightarrow> 'a::len word" where
  "le_at off n bs = le_word (take n (drop off bs))"

text \<open>The bytes of a word, least significant first: what a write of an integer stores.\<close>

definition le_bytes :: "nat \<Rightarrow> 'a::len word \<Rightarrow> u8 list" where
  "le_bytes n w = map (\<lambda>i. ucast (drop_bit (8 * i) w)) [0..<n]"

lemma length_le_bytes [simp]: "length (le_bytes n w) = n"
  by (simp add: le_bytes_def)

definition le_nat :: "u8 list \<Rightarrow> nat" where
  "le_nat bs = foldr (\<lambda>b acc. unat b + 256 * acc) bs 0"

definition le_field :: "nat \<Rightarrow> nat \<Rightarrow> u8 list \<Rightarrow> nat" where
  "le_field off n bs = le_nat (take n (drop off bs))"

lemma le_bytes_Suc: "le_bytes (Suc n) w = ucast w # le_bytes n (drop_bit 8 w)"
  by (simp add: le_bytes_def upt_conv_Cons drop_bit_drop_bit add.commute del: upt_Suc flip: map_Suc_upt)

lemma le_nat_Cons: "le_nat (b # bs) = unat b + 256 * le_nat bs"
  by (simp add: le_nat_def)

lemma le_nat_le_bytes: "le_nat (le_bytes n w) = unat w mod 2 ^ (8 * n)"
proof (induction n arbitrary: w)
  case (Suc n)
  have "unat (ucast w :: u8) = unat w mod 256" by (simp add: unsigned_ucast_eq take_bit_eq_mod)
  moreover have "unat (drop_bit 8 w) = unat w div 256" by (subst unsigned_drop_bit_eq) (simp add: drop_bit_eq_div take_bit_nat_eq_self)
  ultimately show ?case
    using mod_mult2_eq [of "unat w" 256 "2 ^ (8 * n)"] by (simp add: le_bytes_Suc le_nat_Cons Suc power_add mult.commute)
qed (simp add: le_nat_def le_bytes_def)

lemma le_field_append:
  "le_field 0 n (le_bytes n w @ ys) = unat w mod 2 ^ (8 * n)"
  "length xs \<le> off \<Longrightarrow> le_field off n (xs @ ys) = le_field (off - length xs) n ys"
  by (simp_all add: le_field_def le_nat_le_bytes)

lemma le_field_last: "le_field 0 n (le_bytes n w) = unat w mod 2 ^ (8 * n)"
  using le_field_append(1) [of n w "[]"] by simp

lemmas le_field_simps = le_field_append le_field_last

lemma unat_mod_self:
  "unat (v :: u16) mod 65536 = unat v" "unat (w :: u32) mod 4294967296 = unat w" "unat (u :: u64) mod 18446744073709551616 = unat u"
  using unsigned_less [of v, where 'a = nat] unsigned_less [of w, where 'a = nat] unsigned_less [of u, where 'a = nat] by simp_all

section \<open>Guest memory\<close>

text \<open>
  What a system call can read through a guest pointer: \<open>mem a n\<close> is the \<open>n\<close> bytes at
  address \<open>a\<close>, or \<open>None\<close> when the range is not readable (\<^verbatim>\<open>user_read\<close> failing).
\<close>

type_synonym guest_mem = "u64 \<Rightarrow> nat \<Rightarrow> u8 list option"

section \<open>Guest ABIs\<close>

datatype guest_abi = GUEST_ABI_I386 | GUEST_ABI_AMD64 | GUEST_ABI_ARM64 | GUEST_ABI_RISCV64
  | GUEST_ABI_PPC64

definition guest_abi_is_64bit :: "guest_abi \<Rightarrow> bool" where
  "guest_abi_is_64bit abi \<longleftrightarrow> abi \<noteq> GUEST_ABI_I386"

section \<open>Lemmas on lists\<close>

text \<open>How many elements of a list satisfy a predicate: reference counts are such numbers.\<close>

definition count_where :: "('a \<Rightarrow> bool) \<Rightarrow> 'a list \<Rightarrow> nat" where
  "count_where P xs = length (filter P xs)"

lemma count_where_Nil [simp]: "count_where P [] = 0"
  by (simp add: count_where_def)

lemma count_where_Cons [simp]:
  "count_where P (x # xs) = (if P x then Suc (count_where P xs) else count_where P xs)"
  by (simp add: count_where_def)

lemma count_where_append [simp]:
  "count_where P (xs @ ys) = count_where P xs + count_where P ys"
  by (simp add: count_where_def)

lemma count_where_update:
  "i < length xs \<Longrightarrow>
     count_where P (xs[i := v]) + (if P (xs ! i) then 1 else 0)
       = count_where P xs + (if P v then 1 else 0)"
proof (induction xs arbitrary: i)
  case Nil
  then show ?case by simp
next
  case (Cons x xs)
  then show ?case by (cases i) auto
qed

lemma count_where_pos: "i < length xs \<Longrightarrow> P (xs ! i) \<Longrightarrow> 0 < count_where P xs"
  by (auto simp: count_where_def filter_empty_conv)

lemma count_where_posD: "0 < count_where P xs \<Longrightarrow> \<exists>i < length xs. P (xs ! i)"
  by (auto simp: count_where_def filter_empty_conv in_set_conv_nth)

lemma count_where_0_iff: "count_where P xs = 0 \<longleftrightarrow> (\<forall>x \<in> set xs. \<not> P x)"
  by (simp add: count_where_def filter_empty_conv)

lemma sum_list_update_nat:
  fixes f :: "'a \<Rightarrow> nat"
  shows "i < length xs \<Longrightarrow> sum_list (map f (xs[i := v])) + f (xs ! i) = sum_list (map f xs) + f v"
proof (induction xs arbitrary: i)
  case (Cons x xs)
  then show ?case by (cases i) auto
qed simp

lemma drop_eq_ConsD: "drop n xs = y # ys \<Longrightarrow> n < length xs \<and> xs ! n = y \<and> drop (Suc n) xs = ys"
  by (metis Cons_nth_drop_Suc drop_eq_Nil leI list.distinct(1) list.inject)

section \<open>Object heaps\<close>

text \<open>
  Heap-allocated objects of one type (\<^verbatim>\<open>malloc\<close> and \<^verbatim>\<open>free\<close> of a struct): the object at
  address \<open>a\<close> is \<open>h ! a\<close>, \<open>None\<close> once freed. Addresses are handed out in order and not
  reused, so two live objects never share one.
\<close>

type_synonym 'a heap = "'a option list"

definition heap_get :: "'a heap \<Rightarrow> nat \<Rightarrow> 'a option" where
  "heap_get h a = (if a < length h then h ! a else None)"

definition heap_put :: "'a heap \<Rightarrow> nat \<Rightarrow> 'a \<Rightarrow> 'a heap" where
  "heap_put h a x = h[a := Some x]"

definition heap_free :: "'a heap \<Rightarrow> nat \<Rightarrow> 'a heap" where
  "heap_free h a = h[a := None]"

definition heap_alloc :: "'a heap \<Rightarrow> 'a \<Rightarrow> 'a heap \<times> nat" where
  "heap_alloc h x = (h @ [Some x], length h)"

definition heap_live :: "'a heap \<Rightarrow> nat" where
  "heap_live h = count_where (\<lambda>x. x \<noteq> None) h"

lemma heap_get_put [simp]:
  "heap_get h a = Some y \<Longrightarrow> heap_get (heap_put h a x) b = (if b = a then Some x else heap_get h b)"
  by (auto simp: heap_get_def heap_put_def nth_list_update split: if_splits)

lemma heap_get_free [simp]:
  "heap_get (heap_free h a) b = (if b = a then None else heap_get h b)"
  by (auto simp: heap_get_def heap_free_def nth_list_update)

lemma heap_get_alloc:
  "heap_get (fst (heap_alloc h x)) b = (if b = length h then Some x else heap_get h b)"
  by (auto simp: heap_get_def heap_alloc_def nth_append)

lemma heap_get_less: "heap_get h a = Some x \<Longrightarrow> a < length h"
  by (auto simp: heap_get_def split: if_splits)

lemma heap_get_length [simp]: "heap_get h (length h) = None"
  by (simp add: heap_get_def)

lemma heap_length [simp]: "length (heap_put h a x) = length h" "length (heap_free h a) = length h"
  by (simp_all add: heap_put_def heap_free_def)

lemma heap_live_free: "heap_get h a = Some x \<Longrightarrow> heap_live (heap_free h a) < heap_live h"
  using count_where_update [of a h "\<lambda>x. x \<noteq> None" None]
  by (auto simp: heap_live_def heap_free_def heap_get_def split: if_splits)

section \<open>Counted objects\<close>

text \<open>
  \<open>counted rc h R\<close>: the count \<open>rc\<close> of every live object is the number \<open>R\<close> of references to it,
  which is never zero, and every reference is to a live object. Any type of object with a
  retain and a release that obey the two laws below keeps it.
\<close>

definition counted :: "('a \<Rightarrow> nat) \<Rightarrow> 'a heap \<Rightarrow> (nat \<Rightarrow> nat) \<Rightarrow> bool" where
  "counted rc h R \<longleftrightarrow>
     (\<forall>a x. heap_get h a = Some x \<longrightarrow> rc x = R a \<and> 0 < R a) \<and> (\<forall>a. 0 < R a \<longrightarrow> heap_get h a \<noteq> None)"

lemma countedD:
  assumes "counted rc h R"
  shows "heap_get h a = Some x \<Longrightarrow> rc x = R a" and "heap_get h a = Some x \<Longrightarrow> 0 < R a"
    and "0 < R a \<Longrightarrow> \<exists>x. heap_get h a = Some x"
  using assms by (auto simp: counted_def)

lemma counted_cong: "counted rc h R \<Longrightarrow> (\<And>a. R a = R' a) \<Longrightarrow> counted rc h R'"
  by (simp add: counted_def)

lemma counted_put:
  "counted rc h R \<Longrightarrow> heap_get h a = Some x \<Longrightarrow> rc y = rc x \<Longrightarrow> counted rc (heap_put h a y) R"
  by (auto simp: counted_def split: if_splits)

definition ref1 :: "nat option \<Rightarrow> nat \<Rightarrow> nat" where
  "ref1 r a = (if r = Some a then 1 else 0)"

lemma ref1_simps [simp]: "ref1 None a = 0" "ref1 (Some b) a = (if a = b then 1 else 0)"
  by (auto simp: ref1_def)

lemma counted_alloc:
  assumes "counted rc h R" and "rc x = 1"
  shows "counted rc (fst (heap_alloc h x)) (\<lambda>a. R a + ref1 (Some (length h)) a)"
proof -
  have "R (length h) = 0" using countedD(3) [OF assms(1), of "length h"] by auto
  then show ?thesis using assms by (auto simp: counted_def heap_get_alloc split: if_splits)
qed

locale refcounted =
  fixes rc :: "'a \<Rightarrow> nat" and retain :: "'a heap \<Rightarrow> nat \<Rightarrow> 'a heap" and release :: "'a heap \<Rightarrow> nat \<Rightarrow> 'a heap"
  assumes retain_law: "heap_get h a = Some x \<Longrightarrow>
      \<exists>y. rc y = rc x + 1 \<and> (\<forall>b. heap_get (retain h a) b = (if b = a then Some y else heap_get h b))"
    and release_law: "heap_get h a = Some x \<Longrightarrow>
      \<exists>y. rc y = rc x - 1 \<and> (\<forall>b. heap_get (release h a) b =
        (if b = a then if rc x = 1 then None else Some y else heap_get h b))"
begin

lemma counted_retain:
  assumes "counted rc h R" and "heap_get h a = Some x"
  shows "counted rc (retain h a) (\<lambda>b. R b + ref1 (Some a) b)"
proof -
  from retain_law [OF assms(2)] obtain y where
    "rc y = rc x + 1" "\<forall>b. heap_get (retain h a) b = (if b = a then Some y else heap_get h b)" by blast
  then show ?thesis using assms by (auto simp: counted_def split: if_splits)
qed

lemma counted_release:
  assumes "counted rc h (\<lambda>b. R b + ref1 (Some a) b)"
  shows "counted rc (release h a) R"
proof -
  obtain x where x: "heap_get h a = Some x" using countedD(3) [OF assms, of a] by auto
  from release_law [OF this] obtain y where y: "rc y = rc x - 1"
    "\<forall>b. heap_get (release h a) b = (if b = a then if rc x = 1 then None else Some y else heap_get h b)" by blast
  have "rc x = R a + 1" using countedD(1) [OF assms x] by simp
  then show ?thesis using assms y x by (auto simp: counted_def split: if_splits)
qed

lemma release_keeps:
  assumes "counted rc h (\<lambda>b. R b + ref1 (Some a) b)" and "0 < R b"
  shows "heap_get (release h a) b \<noteq> None"
  using countedD(3) [OF counted_release [OF assms(1)] assms(2)] by auto

end

end
