(* ===== verification/Bpf.thy ===== *)
theory Bpf
  imports Ish_Prelude
begin

text \<open>
  The classic BPF machine of \<^verbatim>\<open>kernel/seccomp.c\<close>: the instruction, the program checker
  (\<^verbatim>\<open>bpf_check\<close>) and the interpreter (\<^verbatim>\<open>bpf_run\<close>). The interpreter is a step
  function in which everything the C leaves undefined (a program counter or an array index
  out of range, a division by a zero constant, a shift by 32 or more) is the outcome
  \<open>BFault\<close>, run with fuel. The theorems show what the checker is for: a program that
  passes it returns, without a fault, within as many steps as it has instructions, and its
  answer does not depend on scratch words it has not written.
\<close>

section \<open>Instructions\<close>

record sock_filter =
  sf_code :: u16
  sf_jt :: u8
  sf_jf :: u8
  sf_k :: u32

abbreviation LD_W_ABS :: u16 where "LD_W_ABS \<equiv> 0x20"
abbreviation LD_W_LEN :: u16 where "LD_W_LEN \<equiv> 0x80"
abbreviation LDX_W_LEN :: u16 where "LDX_W_LEN \<equiv> 0x81"
abbreviation LD_IMM :: u16 where "LD_IMM \<equiv> 0x00"
abbreviation LDX_IMM :: u16 where "LDX_IMM \<equiv> 0x01"
abbreviation LD_MEM :: u16 where "LD_MEM \<equiv> 0x60"
abbreviation LDX_MEM :: u16 where "LDX_MEM \<equiv> 0x61"
abbreviation ST :: u16 where "ST \<equiv> 0x02"
abbreviation STX :: u16 where "STX \<equiv> 0x03"
abbreviation TAX :: u16 where "TAX \<equiv> 0x07"
abbreviation TXA :: u16 where "TXA \<equiv> 0x87"
abbreviation ADD_K :: u16 where "ADD_K \<equiv> 0x04"
abbreviation ADD_X :: u16 where "ADD_X \<equiv> 0x0c"
abbreviation SUB_K :: u16 where "SUB_K \<equiv> 0x14"
abbreviation SUB_X :: u16 where "SUB_X \<equiv> 0x1c"
abbreviation MUL_K :: u16 where "MUL_K \<equiv> 0x24"
abbreviation MUL_X :: u16 where "MUL_X \<equiv> 0x2c"
abbreviation DIV_K :: u16 where "DIV_K \<equiv> 0x34"
abbreviation DIV_X :: u16 where "DIV_X \<equiv> 0x3c"
abbreviation OR_K :: u16 where "OR_K \<equiv> 0x44"
abbreviation OR_X :: u16 where "OR_X \<equiv> 0x4c"
abbreviation AND_K :: u16 where "AND_K \<equiv> 0x54"
abbreviation AND_X :: u16 where "AND_X \<equiv> 0x5c"
abbreviation LSH_K :: u16 where "LSH_K \<equiv> 0x64"
abbreviation LSH_X :: u16 where "LSH_X \<equiv> 0x6c"
abbreviation RSH_K :: u16 where "RSH_K \<equiv> 0x74"
abbreviation RSH_X :: u16 where "RSH_X \<equiv> 0x7c"
abbreviation NEG :: u16 where "NEG \<equiv> 0x84"
abbreviation XOR_K :: u16 where "XOR_K \<equiv> 0xa4"
abbreviation XOR_X :: u16 where "XOR_X \<equiv> 0xac"
abbreviation JA :: u16 where "JA \<equiv> 0x05"
abbreviation JEQ_K :: u16 where "JEQ_K \<equiv> 0x15"
abbreviation JEQ_X :: u16 where "JEQ_X \<equiv> 0x1d"
abbreviation JGT_K :: u16 where "JGT_K \<equiv> 0x25"
abbreviation JGT_X :: u16 where "JGT_X \<equiv> 0x2d"
abbreviation JGE_K :: u16 where "JGE_K \<equiv> 0x35"
abbreviation JGE_X :: u16 where "JGE_X \<equiv> 0x3d"
abbreviation JSET_K :: u16 where "JSET_K \<equiv> 0x45"
abbreviation JSET_X :: u16 where "JSET_X \<equiv> 0x4d"
abbreviation RET_K :: u16 where "RET_K \<equiv> 0x06"
abbreviation RET_A :: u16 where "RET_A \<equiv> 0x16"

abbreviation BPF_MAXINSNS :: nat where "BPF_MAXINSNS \<equiv> 4096"
abbreviation BPF_MEMWORDS :: nat where "BPF_MEMWORDS \<equiv> 16"
abbreviation SECCOMP_DATA_SIZE :: nat where "SECCOMP_DATA_SIZE \<equiv> 64"

definition bpf_code_allowed :: "u16 \<Rightarrow> bool" where
  "bpf_code_allowed c \<longleftrightarrow> c \<in> set
     [LD_W_ABS, LD_W_LEN, LDX_W_LEN, LD_IMM, LDX_IMM, LD_MEM, LDX_MEM, ST, STX, TAX, TXA,
      ADD_K, ADD_X, SUB_K, SUB_X, MUL_K, MUL_X, DIV_K, DIV_X, OR_K, OR_X, AND_K, AND_X,
      LSH_K, LSH_X, RSH_K, RSH_X, NEG, XOR_K, XOR_X, JA, JEQ_K, JEQ_X, JGT_K, JGT_X,
      JGE_K, JGE_X, JSET_K, JSET_X, RET_K, RET_A]"

definition bpf_is_cond_jump :: "u16 \<Rightarrow> bool" where
  "bpf_is_cond_jump c \<longleftrightarrow>
     c \<in> set [JEQ_K, JEQ_X, JGT_K, JGT_X, JGE_K, JGE_X, JSET_K, JSET_X]"

section \<open>The checker\<close>

text \<open>The body of the checker's first loop: may this instruction stand at \<open>pc\<close>?\<close>

definition bpf_insn_ok :: "nat \<Rightarrow> nat \<Rightarrow> sock_filter \<Rightarrow> bool" where
  "bpf_insn_ok len pc ins =
     (let c = sf_code ins; k = unat (sf_k ins) in
      bpf_code_allowed c \<and>
      (if c = DIV_K then k \<noteq> 0
       else if c = LSH_K \<or> c = RSH_K then k < 32
       else if c = LD_MEM \<or> c = LDX_MEM \<or> c = ST \<or> c = STX then k < BPF_MEMWORDS
       else if c = JA then k < len - pc - 1
       else if c = LD_W_ABS then k < SECCOMP_DATA_SIZE \<and> sf_k ins AND 3 = 0
       else \<not> (bpf_is_cond_jump c \<and>
              (pc + unat (sf_jt ins) + 1 \<ge> len \<or> pc + unat (sf_jf ins) + 1 \<ge> len))))"

fun bpf_insns_ok :: "nat \<Rightarrow> nat \<Rightarrow> sock_filter list \<Rightarrow> bool" where
  "bpf_insns_ok len pc [] = True"
| "bpf_insns_ok len pc (ins # rest) =
     (if bpf_insn_ok len pc ins then bpf_insns_ok len (Suc pc) rest else False)"

text \<open>
  The second loop: \<open>valid\<close> holds the scratch words written on every path into the current
  instruction, \<open>valid_in ! q\<close> those written on every jump into instruction \<open>q\<close> so far.
\<close>

fun bpf_check_mem :: "nat \<Rightarrow> sock_filter list \<Rightarrow> u16 list \<Rightarrow> u16 \<Rightarrow> bool" where
  "bpf_check_mem pc [] valid_in valid = True"
| "bpf_check_mem pc (ins # rest) valid_in valid =
     (let v = valid AND valid_in ! pc; c = sf_code ins; k = unat (sf_k ins) in
      if c = ST \<or> c = STX then
        bpf_check_mem (Suc pc) rest valid_in (v OR push_bit k 1)
      else if c = LD_MEM \<or> c = LDX_MEM then
        (if v AND push_bit k 1 = 0 then False
         else bpf_check_mem (Suc pc) rest valid_in v)
      else if c = JA then
        (let t = pc + 1 + k in
         bpf_check_mem (Suc pc) rest (valid_in[t := valid_in ! t AND v]) 0xffff)
      else if bpf_is_cond_jump c then
        (let t = pc + 1 + unat (sf_jt ins); vi1 = valid_in[t := valid_in ! t AND v];
             u = pc + 1 + unat (sf_jf ins); vi2 = vi1[u := vi1 ! u AND v] in
         bpf_check_mem (Suc pc) rest vi2 0xffff)
      else bpf_check_mem (Suc pc) rest valid_in v)"

text \<open>
  \<open>alloc\<close> says whether the \<^verbatim>\<open>malloc\<close> of \<open>valid_in\<close> succeeds. Both callers refuse an
  empty program first, so \<open>f[len - 1]\<close> is the last instruction.
\<close>

definition bpf_check :: "bool \<Rightarrow> sock_filter list \<Rightarrow> unit res" where
  "bpf_check alloc f =
     (if \<not> bpf_insns_ok (length f) 0 f then Inl EINVAL
      else if sf_code (f ! (length f - 1)) \<noteq> RET_K \<and> sf_code (f ! (length f - 1)) \<noteq> RET_A
        then Inl EINVAL
      else if \<not> alloc then Inl ENOMEM
      else if bpf_check_mem 0 f (replicate (length f) 0xffff) 0 then Inr ()
      else Inl EINVAL)"

section \<open>The interpreter\<close>

record bpf_machine =
  bm_pc :: u32
  bm_A :: u32
  bm_X :: u32
  bm_M :: "u32 list"

datatype bpf_out = BNext bpf_machine | BRet u32 | BFault

text \<open>One iteration of the loop. \<open>pc\<close> is a 32-bit unsigned and wraps.\<close>

definition bpf_step :: "sock_filter list \<Rightarrow> u32 list \<Rightarrow> bpf_machine \<Rightarrow> bpf_out" where
  "bpf_step f data m =
     (if length f \<le> unat (bm_pc m) then BFault else
      let ins = f ! unat (bm_pc m); pc = bm_pc m + 1; k = sf_k ins; c = sf_code ins;
          A = bm_A m; X = bm_X m; M = bm_M m;
          setA = (\<lambda>a. BNext (m\<lparr>bm_pc := pc, bm_A := a\<rparr>));
          setX = (\<lambda>x. BNext (m\<lparr>bm_pc := pc, bm_X := x\<rparr>));
          jump = (\<lambda>b. BNext (m\<lparr>bm_pc := pc + ucast (if b then sf_jt ins else sf_jf ins)\<rparr>)) in
      if c = LD_W_ABS then
        (if unat (k div 4) < length data then setA (data ! unat (k div 4)) else BFault)
      else if c = LD_W_LEN then setA 64
      else if c = LDX_W_LEN then setX 64
      else if c = LD_IMM then setA k
      else if c = LDX_IMM then setX k
      else if c = LD_MEM then
        (if unat k < BPF_MEMWORDS then setA (M ! unat k) else BFault)
      else if c = LDX_MEM then
        (if unat k < BPF_MEMWORDS then setX (M ! unat k) else BFault)
      else if c = ST then
        (if unat k < BPF_MEMWORDS then BNext (m\<lparr>bm_pc := pc, bm_M := M[unat k := A]\<rparr>)
         else BFault)
      else if c = STX then
        (if unat k < BPF_MEMWORDS then BNext (m\<lparr>bm_pc := pc, bm_M := M[unat k := X]\<rparr>)
         else BFault)
      else if c = TAX then setX A
      else if c = TXA then setA X
      else if c = ADD_K then setA (A + k)
      else if c = ADD_X then setA (A + X)
      else if c = SUB_K then setA (A - k)
      else if c = SUB_X then setA (A - X)
      else if c = MUL_K then setA (A * k)
      else if c = MUL_X then setA (A * X)
      else if c = DIV_K then (if k = 0 then BFault else setA (A div k))
      else if c = DIV_X then (if X = 0 then BRet 0 else setA (A div X))
      else if c = OR_K then setA (A OR k)
      else if c = OR_X then setA (A OR X)
      else if c = AND_K then setA (A AND k)
      else if c = AND_X then setA (A AND X)
      else if c = LSH_K then (if unat k < 32 then setA (push_bit (unat k) A) else BFault)
      else if c = LSH_X then setA (push_bit (unat (X AND 31)) A)
      else if c = RSH_K then (if unat k < 32 then setA (drop_bit (unat k) A) else BFault)
      else if c = RSH_X then setA (drop_bit (unat (X AND 31)) A)
      else if c = NEG then setA (0 - A)
      else if c = XOR_K then setA (A XOR k)
      else if c = XOR_X then setA (A XOR X)
      else if c = JA then BNext (m\<lparr>bm_pc := pc + k\<rparr>)
      else if c = JEQ_K then jump (A = k)
      else if c = JEQ_X then jump (A = X)
      else if c = JGT_K then jump (A > k)
      else if c = JGT_X then jump (A > X)
      else if c = JGE_K then jump (A \<ge> k)
      else if c = JGE_X then jump (A \<ge> X)
      else if c = JSET_K then jump (A AND k \<noteq> 0)
      else if c = JSET_X then jump (A AND X \<noteq> 0)
      else if c = RET_K then BRet k
      else if c = RET_A then BRet A
      else BRet 0x80000000)"

fun bpf_loop :: "nat \<Rightarrow> sock_filter list \<Rightarrow> u32 list \<Rightarrow> bpf_machine \<Rightarrow> bpf_out option" where
  "bpf_loop 0 f data m = None"
| "bpf_loop (Suc n) f data m =
     (case bpf_step f data m of BNext m' \<Rightarrow> bpf_loop n f data m' | r \<Rightarrow> Some r)"

text \<open>\<open>scratch\<close> is the initial content of the scratch words; the code zeroes them.\<close>

definition bpf_start :: "u32 list \<Rightarrow> bpf_machine" where
  "bpf_start scratch = \<lparr>bm_pc = 0, bm_A = 0, bm_X = 0, bm_M = scratch\<rparr>"

definition bpf_run :: "nat \<Rightarrow> sock_filter list \<Rightarrow> u32 list \<Rightarrow> bpf_out option" where
  "bpf_run fuel f data = bpf_loop fuel f data (bpf_start (replicate BPF_MEMWORDS 0))"

section \<open>What the checker is meant to establish\<close>

text \<open>
  The facts the checker's first loop leaves behind, the successors of an instruction, and
  agreement of two machines on the scratch words of a mask.
\<close>

definition bpf_safe :: "sock_filter list \<Rightarrow> bool" where
  "bpf_safe f \<longleftrightarrow> f \<noteq> [] \<and> length f \<le> BPF_MAXINSNS \<and> bpf_insns_ok (length f) 0 f \<and>
     (sf_code (f ! (length f - 1)) = RET_K \<or> sf_code (f ! (length f - 1)) = RET_A)"

definition bpf_succs :: "nat \<Rightarrow> sock_filter \<Rightarrow> nat list" where
  "bpf_succs p ins =
     (if sf_code ins = RET_K \<or> sf_code ins = RET_A then []
      else if sf_code ins = JA then [p + 1 + unat (sf_k ins)]
      else if bpf_is_cond_jump (sf_code ins)
        then [p + 1 + unat (sf_jt ins), p + 1 + unat (sf_jf ins)]
      else [p + 1])"

definition stores :: "sock_filter \<Rightarrow> bool" where
  "stores ins \<longleftrightarrow> sf_code ins = ST \<or> sf_code ins = STX"

definition loads :: "sock_filter \<Rightarrow> bool" where
  "loads ins \<longleftrightarrow> sf_code ins = LD_MEM \<or> sf_code ins = LDX_MEM"

definition scratch_agree :: "u16 \<Rightarrow> bpf_machine \<Rightarrow> bpf_machine \<Rightarrow> bool" where
  "scratch_agree w m m' \<longleftrightarrow> m' = m\<lparr>bm_M := bm_M m'\<rparr> \<and> length (bm_M m) = 16 \<and> length (bm_M m') = 16 \<and>
     (\<forall>i < 16. bit w i \<longrightarrow> bm_M m ! i = bm_M m' ! i)"

fun map_out :: "(bpf_machine \<Rightarrow> bpf_machine) \<Rightarrow> bpf_out \<Rightarrow> bpf_out" where
  "map_out g (BNext m) = BNext (g m)"
| "map_out g r = r"

definition bpf_example :: "sock_filter list" where
  "bpf_example =
     [\<lparr>sf_code = LD_W_ABS, sf_jt = 0, sf_jf = 0, sf_k = 0\<rparr>,
      \<lparr>sf_code = JEQ_K, sf_jt = 1, sf_jf = 0, sf_k = 59\<rparr>,
      \<lparr>sf_code = RET_K, sf_jt = 0, sf_jf = 0, sf_k = 0x7fff0000\<rparr>,
      \<lparr>sf_code = ST, sf_jt = 0, sf_jf = 0, sf_k = 3\<rparr>,
      \<lparr>sf_code = LD_MEM, sf_jt = 0, sf_jf = 0, sf_k = 3\<rparr>,
      \<lparr>sf_code = RET_A, sf_jt = 0, sf_jf = 0, sf_k = 0\<rparr>]"

section \<open>One step of a checked program\<close>

lemma bpf_insns_ok_nth:
  "bpf_insns_ok len pc rest \<Longrightarrow> i < length rest \<Longrightarrow> bpf_insn_ok len (pc + i) (rest ! i)"
proof (induction rest arbitrary: pc i)
  case Nil
  then show ?case by simp
next
  case (Cons ins rest)
  show ?case
  proof (cases i)
    case 0
    then show ?thesis using Cons.prems by (auto split: if_splits)
  next
    case (Suc j)
    then show ?thesis using Cons.IH [of "Suc pc" j] Cons.prems by (auto split: if_splits)
  qed
qed

lemma unat_pc_add:
  fixes pc k :: u32
  assumes "unat pc + 1 + unat k < 4096 + 4096"
  shows "unat (pc + 1 + k) = unat pc + 1 + unat k"
  using assms by (simp add: unat_word_ariths)

lemma unat_jump:
  fixes pc :: u32 and j :: u8
  assumes "unat pc < 4096"
  shows "unat (pc + 1 + ucast j) = unat pc + 1 + unat j"
proof -
  have "unat j < 2 ^ LENGTH(8)" by (rule unsigned_less)
  then show ?thesis using assms
    by (simp add: unat_word_ariths unsigned_ucast_eq take_bit_nat_eq_self)
qed

lemma unat_next: "unat (pc :: u32) < 4096 \<Longrightarrow> unat (pc + 1) = unat pc + 1"
  by (simp add: unat_word_ariths)

lemma bpf_code_cases:
  assumes "bpf_code_allowed c"
  obtains "c = LD_W_ABS" | "c = LD_MEM \<or> c = LDX_MEM" | "c = ST \<or> c = STX" | "c = DIV_K"
    | "c = LSH_K \<or> c = RSH_K" | "c = JA" | "bpf_is_cond_jump c" | "c = RET_K \<or> c = RET_A"
    | "c = DIV_X"
    | "c \<in> set [LD_W_LEN, LDX_W_LEN, LD_IMM, LDX_IMM, TAX, TXA, ADD_K, ADD_X, SUB_K, SUB_X,
        MUL_K, MUL_X, OR_K, OR_X, AND_K, AND_X, LSH_X, RSH_X, NEG, XOR_K, XOR_X]"
  using assms unfolding bpf_code_allowed_def bpf_is_cond_jump_def
  by auto

lemma bpf_safe_nth:
  assumes "bpf_safe f" and "p < length f"
  shows "bpf_insn_ok (length f) p (f ! p)" and "bpf_code_allowed (sf_code (f ! p))"
  using assms bpf_insns_ok_nth [of "length f" 0 f p] by (auto simp: bpf_safe_def bpf_insn_ok_def Let_def)

lemma bpf_succs_range:
  assumes safe: "bpf_safe f" and p: "p < length f" and s: "s \<in> set (bpf_succs p (f ! p))"
  shows "p < s \<and> s < length f"
proof -
  note ok = bpf_safe_nth [OF safe p]
  have "p = length f - 1 \<Longrightarrow> bpf_succs p (f ! p) = []"
    using safe by (auto simp: bpf_safe_def bpf_succs_def)
  with s have "p + 1 < length f" using p by (cases "p = length f - 1") auto
  then show ?thesis using s ok
    by (auto simp: bpf_succs_def bpf_insn_ok_def Let_def bpf_is_cond_jump_def split: if_splits)
qed

lemma bpf_step_succ:
  assumes safe: "bpf_safe f" and pc: "unat (bm_pc m) < length f" and data: "length data = 16"
  shows "(\<exists>v. bpf_step f data m = BRet v) \<or>
    (\<exists>m'. bpf_step f data m = BNext m' \<and>
       unat (bm_pc m') \<in> set (bpf_succs (unat (bm_pc m)) (f ! unat (bm_pc m))))"
proof -
  let ?p = "unat (bm_pc m)"
  let ?ins = "f ! ?p"
  note ok = bpf_safe_nth(1) [OF safe pc, unfolded bpf_insn_ok_def Let_def]
  have len: "length f \<le> 4096" and p: "?p < 4096" using safe pc by (auto simp: bpf_safe_def)
  note step = bpf_step_def Let_def bpf_succs_def unat_next unat_jump bpf_is_cond_jump_def
  from bpf_safe_nth(2) [OF safe pc] show ?thesis
  proof (cases rule: bpf_code_cases)
    case 1
    then have "unat (sf_k ?ins) < 64" using ok by simp
    then have "unat (sf_k ?ins div 4) < 16" by (simp add: unat_div)
    then show ?thesis using 1 pc data p by (simp add: step)
  next
    case 2
    then have "unat (sf_k ?ins) < 16" using ok by auto
    with 2 show ?thesis using pc p by (elim disjE) (simp_all add: step)
  next
    case 3
    then have "unat (sf_k ?ins) < 16" using ok by auto
    with 3 show ?thesis using pc p by (elim disjE) (simp_all add: step)
  next
    case 4
    then have "sf_k ?ins \<noteq> 0" using ok by auto
    with 4 show ?thesis using pc p by (simp add: step)
  next
    case 5
    then have "unat (sf_k ?ins) < 32" using ok by auto
    with 5 show ?thesis using pc p by (elim disjE) (simp_all add: step)
  next
    case 6
    then have "unat (sf_k ?ins) < length f - ?p - 1" using ok by simp
    then have "unat (bm_pc m + 1 + sf_k ?ins) = ?p + 1 + unat (sf_k ?ins)"
      using len by (intro unat_pc_add) linarith
    then show ?thesis using 6 pc by (simp add: step)
  next
    case 7
    then show ?thesis using pc p
      by (simp only: bpf_is_cond_jump_def list.set insert_iff empty_iff, elim disjE)
        (simp_all add: step)
  next
    case 8
    then show ?thesis using pc by (elim disjE) (simp_all add: step)
  next
    case 9
    then show ?thesis using pc p by (simp add: step)
  next
    case 10
    then show ?thesis using pc p
      by (simp only: list.set insert_iff empty_iff, elim disjE) (simp_all add: step)
  qed
qed

lemma bpf_step_store:
  assumes "unat (bm_pc m) < length f" 
    and "sf_code (f ! unat (bm_pc m)) = ST \<or> sf_code (f ! unat (bm_pc m)) = STX"
    and "unat (sf_k (f ! unat (bm_pc m))) < BPF_MEMWORDS"
  shows "bpf_step f data m = BNext (m\<lparr>bm_pc := bm_pc m + 1, bm_M :=
    (bm_M m)[unat (sf_k (f ! unat (bm_pc m))) :=
       (if sf_code (f ! unat (bm_pc m)) = ST then bm_A m else bm_X m)]\<rparr>)"
  using assms(2) assms(1,3) by (elim disjE) (simp_all add: bpf_step_def Let_def)

lemma if_out: "map_out g (if b then x else y) = (if b then map_out g x else map_out g y)" by simp

lemma bpf_step_scratch:
  assumes "sf_code (f ! unat (bm_pc m)) \<noteq> ST" "sf_code (f ! unat (bm_pc m)) \<noteq> STX"
    and "sf_code (f ! unat (bm_pc m)) = LD_MEM \<or> sf_code (f ! unat (bm_pc m)) = LDX_MEM \<Longrightarrow>
      M ! unat (sf_k (f ! unat (bm_pc m))) = bm_M m ! unat (sf_k (f ! unat (bm_pc m)))"
  shows "bpf_step f data (m\<lparr>bm_M := M\<rparr>) = map_out (\<lambda>m'. m'\<lparr>bm_M := M\<rparr>) (bpf_step f data m)"
proof -
  obtain p a x ms where m: "m = \<lparr>bm_pc = p, bm_A = a, bm_X = x, bm_M = ms\<rparr>" by (cases m)
  define ins where "ins = f ! unat p"
  define c where "c = sf_code ins"
  have A: "c \<noteq> ST" "c \<noteq> STX" "c = LD_MEM \<Longrightarrow> M ! unat (sf_k ins) = ms ! unat (sf_k ins)"
     "c = LDX_MEM \<Longrightarrow> M ! unat (sf_k ins) = ms ! unat (sf_k ins)"
    using assms by (auto simp: m c_def ins_def)
  show ?thesis
    unfolding bpf_step_def Let_def m bpf_machine.simps if_out map_out.simps ins_def [symmetric] c_def [symmetric]
    using A
    by (simp cong: if_cong split del: if_split)
qed

section \<open>Termination\<close>

lemma bpf_loop_returns:
  assumes safe: "bpf_safe f" and data: "length data = 16"
  shows "unat (bm_pc m) < length f \<Longrightarrow> length f - unat (bm_pc m) \<le> n \<Longrightarrow>
    \<exists>v. bpf_loop n f data m = Some (BRet v)"
proof (induction n arbitrary: m)
  case 0
  then show ?case by simp
next
  case (Suc n)
  show ?case
    using bpf_step_succ [OF safe Suc.prems(1) data] bpf_succs_range [OF safe Suc.prems(1)] Suc
    by fastforce
qed

lemma bpf_loop_mono: "bpf_loop n f data m = Some r \<Longrightarrow> n \<le> n' \<Longrightarrow> bpf_loop n' f data m = Some r"
proof (induction n arbitrary: n' m)
  case 0
  then show ?case by simp
next
  case (Suc n)
  then obtain l where "n' = Suc l" "n \<le> l" by (cases n') auto
  then show ?case using Suc by (auto split: bpf_out.splits)
qed

lemma bpf_check_safe:
  "bpf_check alloc f = Inr () \<Longrightarrow> f \<noteq> [] \<Longrightarrow> length f \<le> BPF_MAXINSNS \<Longrightarrow> bpf_safe f"
  by (auto simp: bpf_check_def bpf_safe_def split: if_splits)

lemma bpf_safe_returns:
  "bpf_safe f \<Longrightarrow> length data = 16 \<Longrightarrow> length f \<le> fuel \<Longrightarrow> f \<noteq> [] \<Longrightarrow> \<exists>v. bpf_run fuel f data = Some (BRet v)"
  unfolding bpf_run_def using bpf_loop_returns [of f data] by (simp add: bpf_start_def)

section \<open>Scratch words\<close>

lemma bpf_step_agree:
  assumes safe: "bpf_safe f" and pc: "unat (bm_pc m) < length f" and data: "length data = 16"
    and agree: "scratch_agree w m m'"
    and ld: "loads (f ! unat (bm_pc m)) \<Longrightarrow> bit w (unat (sf_k (f ! unat (bm_pc m))))"
  shows "(\<exists>v. bpf_step f data m = BRet v \<and> bpf_step f data m' = BRet v) \<or>
    (\<exists>n n'. bpf_step f data m = BNext n \<and> bpf_step f data m' = BNext n' \<and>
       scratch_agree (if stores (f ! unat (bm_pc m))
         then w OR push_bit (unat (sf_k (f ! unat (bm_pc m)))) 1 else w) n n' \<and>
       unat (bm_pc n) \<in> set (bpf_succs (unat (bm_pc m)) (f ! unat (bm_pc m))))"
proof -
  let ?ins = "f ! unat (bm_pc m)"
  let ?k = "unat (sf_k ?ins)"
  note ok = bpf_safe_nth(1) [OF safe pc, unfolded bpf_insn_ok_def Let_def]
  have m': "m' = m\<lparr>bm_M := bm_M m'\<rparr>" using agree by (simp add: scratch_agree_def)
  then have fields: "bm_pc m' = bm_pc m" "bm_A m' = bm_A m" "bm_X m' = bm_X m"
    by (metis bpf_machine.select_convs(1-3) bpf_machine.surjective bpf_machine.update_convs(4))+
  show ?thesis
  proof (cases "stores ?ins")
    case True
    then have k: "?k < 16" using ok by (auto simp: stores_def)
    have st: "sf_code ?ins = ST \<or> sf_code ?ins = STX" using True by (simp add: stores_def)
    have succ: "bm_pc m + 1 = bm_pc n \<Longrightarrow> unat (bm_pc n) \<in> set (bpf_succs (unat (bm_pc m)) ?ins)" for n
      using bpf_step_succ [OF safe pc data] bpf_step_store [OF pc st k, of data] by auto
    show ?thesis
      using bpf_step_store [OF pc st k, of data] bpf_step_store [of m' f data] pc st k agree True fields
        succ [of "m\<lparr>bm_pc := bm_pc m + 1\<rparr>"]
      by (cases m; cases m') (auto simp: scratch_agree_def bit_simps nth_list_update)
  next
    case False
    have "loads ?ins \<Longrightarrow> bm_M m' ! ?k = bm_M m ! ?k"
      using ld agree ok by (auto simp: scratch_agree_def loads_def)
    then have eq: "bpf_step f data m' = map_out (\<lambda>n. n\<lparr>bm_M := bm_M m'\<rparr>) (bpf_step f data m)"
      using bpf_step_scratch [of f m "bm_M m'" data] False m' by (auto simp: stores_def loads_def)
    have keep: "bpf_step f data m = map_out (\<lambda>n. n\<lparr>bm_M := bm_M m\<rparr>) (bpf_step f data m)"
      using bpf_step_scratch [of f m "bm_M m" data] False by (simp add: stores_def)
    from bpf_step_succ [OF safe pc data] show ?thesis
    proof (elim disjE exE conjE)
      fix n
      assume n: "bpf_step f data m = BNext n"
        and s: "unat (bm_pc n) \<in> set (bpf_succs (unat (bm_pc m)) ?ins)"
      have "bm_M n = bm_M m" using keep n
        by (metis bpf_machine.select_convs(4) bpf_machine.surjective bpf_machine.update_convs(4)
            bpf_out.inject(1) map_out.simps(1))
      then have "scratch_agree w n (n\<lparr>bm_M := bm_M m'\<rparr>)"
        using agree by (auto simp: scratch_agree_def)
      then show ?thesis using eq n s False by auto
    qed (use eq in auto)
  qed
qed


lemma bit_nth_update_and:
  fixes vs :: "u16 list"
  shows "q < length vs \<Longrightarrow>
    bit (vs[t := vs ! t AND v] ! q) i \<longleftrightarrow> bit (vs ! q) i \<and> (q = t \<longrightarrow> bit v i)"
  by (cases "q = t") (auto simp: bit_and_iff)

lemma bpf_check_mem_step:
  assumes "bpf_check_mem pc (ins # rest) valid_in valid" and "pc < length valid_in"
  shows "\<exists>vi v. bpf_check_mem (Suc pc) rest vi v \<and> length vi = length valid_in \<and>
    (loads ins \<longrightarrow> bit (valid AND valid_in ! pc) (unat (sf_k ins))) \<and>
    (\<forall>q < length valid_in. \<forall>i. bit (vi ! q) i \<longrightarrow> bit (valid_in ! q) i) \<and>
    (\<forall>s \<in> set (bpf_succs pc ins). s < length valid_in \<longrightarrow> (\<forall>i < 16.
       (s = Suc pc \<longrightarrow> bit v i) \<longrightarrow> bit (vi ! s) i \<longrightarrow>
       bit (if stores ins then (valid AND valid_in ! pc) OR push_bit (unat (sf_k ins)) 1
            else valid AND valid_in ! pc) i))"
proof -
  let ?v = "valid AND valid_in ! pc" and ?k = "unat (sf_k ins)"
  have not_jump: "stores ins \<or> loads ins \<Longrightarrow> bpf_succs pc ins = [pc + 1]"
    by (auto simp: stores_def loads_def bpf_succs_def bpf_is_cond_jump_def)
  have disj: "loads ins \<Longrightarrow> \<not> stores ins" "sf_code ins = JA \<Longrightarrow> \<not> stores ins \<and> \<not> loads ins"
    "bpf_is_cond_jump (sf_code ins) \<Longrightarrow> \<not> stores ins \<and> \<not> loads ins \<and> sf_code ins \<noteq> JA"
    by (auto simp: stores_def loads_def bpf_is_cond_jump_def)
  consider "stores ins" | "loads ins" | "sf_code ins = JA" | "bpf_is_cond_jump (sf_code ins)"
    | (other) "\<not> stores ins" "\<not> loads ins" "sf_code ins \<noteq> JA" "\<not> bpf_is_cond_jump (sf_code ins)"
    by blast
  then show ?thesis
  proof cases
    case 1
    then have "bpf_check_mem (Suc pc) rest valid_in (?v OR push_bit ?k 1)"
      using assms(1) by (simp add: stores_def Let_def)
    with 1 not_jump disj show ?thesis by fastforce
  next
    case 2
    then have "bpf_check_mem (Suc pc) rest valid_in ?v \<and> bit ?v ?k"
      using assms(1) by (auto simp: loads_def Let_def and_exp_eq_0_iff_not_bit split: if_splits)
    with 2 not_jump disj show ?thesis by fastforce
  next
    case 3
    let ?t = "pc + 1 + ?k"
    have "bpf_check_mem (Suc pc) rest (valid_in[?t := valid_in ! ?t AND ?v]) 0xffff"
      using 3 assms(1) by (simp add: Let_def)
    with 3 disj show ?thesis
      by (intro exI [of _ "valid_in[?t := valid_in ! ?t AND ?v]"] exI [of _ "0xffff"])
        (auto simp: bpf_succs_def bit_nth_update_and bit_and_iff)
  next
    case 4
    let ?t = "pc + 1 + unat (sf_jt ins)" and ?u = "pc + 1 + unat (sf_jf ins)"
    let ?vi = "valid_in[?t := valid_in ! ?t AND ?v]"
    have "bpf_check_mem (Suc pc) rest (?vi[?u := ?vi ! ?u AND ?v]) 0xffff"
      using 4 assms(1) disj by (simp add: Let_def stores_def loads_def)
    with 4 disj show ?thesis
      by (intro exI [of _ "?vi[?u := ?vi ! ?u AND ?v]"] exI [of _ "0xffff"])
        (auto simp: bpf_succs_def bit_nth_update_and bit_and_iff)
  next
    case other
    then have "bpf_check_mem (Suc pc) rest valid_in ?v"
      using assms(1) by (simp add: stores_def loads_def Let_def)
    with other show ?thesis
      by (intro exI [of _ valid_in] exI [of _ ?v]) (auto simp: bpf_succs_def split: if_splits)
  qed
qed

lemma bpf_check_mem_sound:
  assumes safe: "bpf_safe f" and data: "length data = 16"
  shows "bpf_check_mem pc (drop pc f) valid_in valid \<Longrightarrow> length valid_in = length f \<Longrightarrow>
    pc \<le> unat (bm_pc m) \<Longrightarrow> unat (bm_pc m) < length f \<Longrightarrow> scratch_agree w m m' \<Longrightarrow>
    (\<And>i. i < 16 \<Longrightarrow> (unat (bm_pc m) = pc \<longrightarrow> bit valid i) \<Longrightarrow>
       bit (valid_in ! unat (bm_pc m)) i \<Longrightarrow> bit w i) \<Longrightarrow>
    bpf_loop n f data m = bpf_loop n f data m'"
proof (induction "length f - pc" arbitrary: pc valid_in valid m m' w n)
  case 0
  then show ?case by simp
next
  case (Suc d)
  then have pc: "pc < length f" by simp
  then have drop: "drop pc f = f ! pc # drop (Suc pc) f" by (simp add: Cons_nth_drop_Suc)
  obtain vi v where scan: "bpf_check_mem (Suc pc) (drop (Suc pc) f) vi v" "length vi = length f"
    and ld: "loads (f ! pc) \<Longrightarrow> bit (valid AND valid_in ! pc) (unat (sf_k (f ! pc)))"
    and le: "\<And>q i. q < length f \<Longrightarrow> bit (vi ! q) i \<Longrightarrow> bit (valid_in ! q) i"
    and succ: "\<And>s i. s \<in> set (bpf_succs pc (f ! pc)) \<Longrightarrow> s < length f \<Longrightarrow> i < 16 \<Longrightarrow>
      (s = Suc pc \<longrightarrow> bit v i) \<Longrightarrow> bit (vi ! s) i \<Longrightarrow>
      bit (if stores (f ! pc) then (valid AND valid_in ! pc) OR push_bit (unat (sf_k (f ! pc))) 1
            else valid AND valid_in ! pc) i"
    using bpf_check_mem_step [OF Suc.prems(1) [unfolded drop]] Suc.prems(2) pc by metis
  note IH = Suc.hyps(1) [OF _ scan]
  show ?case
  proof (cases "unat (bm_pc m) = pc")
    case False
    then show ?thesis using IH [of m w m' n] Suc.prems Suc.hyps(2) le by (auto simp: Suc_le_eq)
  next
    case True
    have "loads (f ! pc) \<Longrightarrow> unat (sf_k (f ! pc)) < 16"
      using bpf_safe_nth(1) [OF safe pc] by (auto simp: bpf_insn_ok_def Let_def loads_def)
    then have ldw: "loads (f ! pc) \<Longrightarrow> bit w (unat (sf_k (f ! pc)))"
      using ld Suc.prems(6) True by (auto simp: bit_simps)
    show ?thesis
    proof (cases n)
      case (Suc l)
      let ?w = "if stores (f ! pc) then w OR push_bit (unat (sf_k (f ! pc))) 1 else w"
      from bpf_step_agree [OF safe Suc.prems(4) data Suc.prems(5)] ldw True
      consider (ret) r where "bpf_step f data m = BRet r" "bpf_step f data m' = BRet r"
        | (nxt) a b where "bpf_step f data m = BNext a" "bpf_step f data m' = BNext b"
            "scratch_agree ?w a b" "unat (bm_pc a) \<in> set (bpf_succs pc (f ! pc))"
        by fastforce
      then show ?thesis
      proof cases
        case ret
        then show ?thesis using Suc by simp
      next
        case nxt
        note range = bpf_succs_range [OF safe pc nxt(4)]
        have "bpf_loop l f data a = bpf_loop l f data b"
        proof (rule IH [OF _ _ _ nxt(3)])
          fix i :: nat
          assume i: "i < 16" "unat (bm_pc a) = Suc pc \<longrightarrow> bit v i" "bit (vi ! unat (bm_pc a)) i"
          have "i < 16 \<Longrightarrow> bit (valid AND valid_in ! pc) i \<Longrightarrow> bit w i"
            using Suc.prems(6) True by (simp add: bit_and_iff)
          then show "bit ?w i"
            using succ [OF nxt(4) conjunct2 [OF range] i] i(1)
            by (auto simp: bit_or_iff split: if_splits)
        qed (use Suc.hyps(2) range in auto)
        then show ?thesis using nxt(1,2) \<open>n = Suc l\<close> by simp
      qed
    qed simp
  qed
qed

lemma bpf_example_ok: "bpf_check True bpf_example = Inr ()"
  by (simp add: bpf_check_def bpf_example_def bpf_insn_ok_def bpf_code_allowed_def
      bpf_is_cond_jump_def Let_def)

section \<open>Properties\<close>

text \<open>
  C4 (termination, safety). A program of 1 to 4096 instructions that passes
  \<open>bpf_check\<close> always returns a value, whatever the call's data: the interpreter never
  leaves the program, never indexes out of range and never divides by a zero constant,
  and fuel equal to the program's length is enough.
\<close>

theorem bpf_check_returns:
  assumes "bpf_check alloc f = Inr ()" and "f \<noteq> []" and "length f \<le> BPF_MAXINSNS"
    and "length data = 16" and "length f \<le> fuel"
  shows "\<exists>v. bpf_run fuel f data = Some (BRet v)"
  using bpf_safe_returns [OF bpf_check_safe [OF assms(1-3)] assms(4,5,2)] .

theorem bpf_check_returns_witness:
  "bpf_check True bpf_example = Inr () \<and>
   (\<exists>v. bpf_run 6 bpf_example (replicate 16 59) = Some (BRet v))"
  using bpf_example_ok bpf_check_returns [OF bpf_example_ok, of "replicate 16 59" 6] by (simp add: bpf_example_def)

text \<open>
  C5 (invariant). The checker's second pass is sound: in a program that passes, no scratch
  word is read before it is written on the path taken, so the whole execution is the same
  whatever the scratch memory holds at the start.
\<close>

theorem bpf_check_scratch:
  assumes "bpf_check alloc f = Inr ()" and "f \<noteq> []" and "length f \<le> BPF_MAXINSNS"
    and "length data = 16" and "length M = BPF_MEMWORDS"
  shows "bpf_loop fuel f data (bpf_start M) = bpf_run fuel f data"
proof -
  have "bpf_check_mem 0 (drop 0 f) (replicate (length f) 0xffff) 0"
    using assms(1) by (simp add: bpf_check_def split: if_splits)
  then show ?thesis unfolding bpf_run_def
    by (rule bpf_check_mem_sound [OF bpf_check_safe [OF assms(1-3)] assms(4), where w = 0])
      (use assms in \<open>auto simp: bpf_start_def scratch_agree_def\<close>)
qed

theorem bpf_check_scratch_witness:
  "bpf_check True bpf_example = Inr () \<and>
   bpf_loop 6 bpf_example (replicate 16 59) (bpf_start (replicate 16 7))
     = bpf_run 6 bpf_example (replicate 16 59)"
  using bpf_example_ok bpf_check_scratch [OF bpf_example_ok, of "replicate 16 59" "replicate 16 7" 6]
  by (simp add: bpf_example_def)

end
