(* ===== verification/Seccomp.thy ===== *)
theory Seccomp
  imports Bpf
begin

text \<open>
  \<^verbatim>\<open>kernel/seccomp.c\<close> above the BPF machine: counted filter chains, the check at system
  call entry, strict and filter mode, TSYNC, and the checkpoint's export and import of a
  chain. The state is the heap of filters and the list of all tasks; the task a call runs
  on is an index into that list. \<^verbatim>\<open>pids_lock\<close> makes each operation one step.
\<close>

section \<open>State\<close>

record seccomp_filter =
  flt_refcount :: nat
  flt_prev :: "nat option"
  flt_log :: bool
  flt_insns :: "sock_filter list"

datatype seccomp_mode = SECCOMP_MODE_DISABLED | SECCOMP_MODE_STRICT | SECCOMP_MODE_FILTER
  | SECCOMP_MODE_DEAD

record sec_task =
  st_pid :: int
  st_group :: nat
  st_exiting :: bool
  st_mode :: seccomp_mode
  st_filter :: "nat option"
  st_nnp :: bool

record sec_state =
  ss_heap :: "seccomp_filter heap"
  ss_tasks :: "sec_task list"

abbreviation SECCOMP_RET_KILL_PROCESS :: u32 where "SECCOMP_RET_KILL_PROCESS \<equiv> 0x80000000"
abbreviation SECCOMP_RET_KILL_THREAD :: u32 where "SECCOMP_RET_KILL_THREAD \<equiv> 0x00000000"
abbreviation SECCOMP_RET_TRAP :: u32 where "SECCOMP_RET_TRAP \<equiv> 0x00030000"
abbreviation SECCOMP_RET_ERRNO :: u32 where "SECCOMP_RET_ERRNO \<equiv> 0x00050000"
abbreviation SECCOMP_RET_USER_NOTIF :: u32 where "SECCOMP_RET_USER_NOTIF \<equiv> 0x7fc00000"
abbreviation SECCOMP_RET_TRACE :: u32 where "SECCOMP_RET_TRACE \<equiv> 0x7ff00000"
abbreviation SECCOMP_RET_LOG :: u32 where "SECCOMP_RET_LOG \<equiv> 0x7ffc0000"
abbreviation SECCOMP_RET_ALLOW :: u32 where "SECCOMP_RET_ALLOW \<equiv> 0x7fff0000"
abbreviation SECCOMP_RET_ACTION_FULL :: u32 where "SECCOMP_RET_ACTION_FULL \<equiv> 0xffff0000"
abbreviation SECCOMP_RET_DATA :: u32 where "SECCOMP_RET_DATA \<equiv> 0x0000ffff"

abbreviation SECCOMP_FILTER_FLAG_TSYNC :: u32 where "SECCOMP_FILTER_FLAG_TSYNC \<equiv> 1"
abbreviation SECCOMP_FILTER_FLAG_LOG :: u32 where "SECCOMP_FILTER_FLAG_LOG \<equiv> 2"
abbreviation SECCOMP_FILTER_FLAG_SPEC_ALLOW :: u32 where "SECCOMP_FILTER_FLAG_SPEC_ALLOW \<equiv> 4"
abbreviation SECCOMP_FILTER_FLAG_TSYNC_ESRCH :: u32 where "SECCOMP_FILTER_FLAG_TSYNC_ESRCH \<equiv> 16"

definition SECCOMP_FILTER_FLAGS_KNOWN :: u32 where
  "SECCOMP_FILTER_FLAGS_KNOWN = SECCOMP_FILTER_FLAG_TSYNC OR SECCOMP_FILTER_FLAG_LOG OR
     SECCOMP_FILTER_FLAG_SPEC_ALLOW OR SECCOMP_FILTER_FLAG_TSYNC_ESRCH"

abbreviation SECCOMP_MAX_PATH_INSNS :: nat where "SECCOMP_MAX_PATH_INSNS \<equiv> 32768"
abbreviation MAX_ERRNO :: nat where "MAX_ERRNO \<equiv> 4095"
abbreviation SIGKILL :: int where "SIGKILL \<equiv> 9"
abbreviation SIGSYS :: int where "SIGSYS \<equiv> 31"

section \<open>Counted filters\<close>

definition seccomp_filter_retain :: "seccomp_filter heap \<Rightarrow> nat option \<Rightarrow> seccomp_filter heap" where
  "seccomp_filter_retain h fo =
     (case fo of None \<Rightarrow> h
      | Some f \<Rightarrow> (case heap_get h f of None \<Rightarrow> h
          | Some n \<Rightarrow> heap_put h f (n\<lparr>flt_refcount := flt_refcount n + 1\<rparr>)))"

text \<open>
  Dropping a reference; the loop goes on to the previous filter while it frees. (A
  reference to a freed filter would be a use after free; the invariant below excludes it.)
\<close>

function seccomp_filter_release :: "seccomp_filter heap \<Rightarrow> nat option \<Rightarrow> seccomp_filter heap" where
  "seccomp_filter_release h None = h"
| "seccomp_filter_release h (Some f) =
     (case heap_get h f of None \<Rightarrow> h
      | Some n \<Rightarrow>
          if flt_refcount n = 1 then seccomp_filter_release (heap_free h f) (flt_prev n)
          else heap_put h f (n\<lparr>flt_refcount := flt_refcount n - 1\<rparr>))"
  by pat_completeness auto
termination
  by (relation "measure (\<lambda>(h, fo). heap_live h)") (auto simp: heap_live_free)

text \<open>
  The walk \<^verbatim>\<open>for (; f != NULL; f = f->prev)\<close> as the list of filters it visits. The fuel is
  the number of heap cells; the invariant makes every chain shorter.
\<close>

fun filter_chain_fuel :: "nat \<Rightarrow> seccomp_filter heap \<Rightarrow> nat option \<Rightarrow> nat list" where
  "filter_chain_fuel n h None = []"
| "filter_chain_fuel 0 h (Some f) = []"
| "filter_chain_fuel (Suc n) h (Some f) =
     (case heap_get h f of None \<Rightarrow> [] | Some x \<Rightarrow> f # filter_chain_fuel n h (flt_prev x))"

definition filter_chain :: "seccomp_filter heap \<Rightarrow> nat option \<Rightarrow> nat list" where
  "filter_chain h fo = filter_chain_fuel (length h) h fo"

definition insns_at :: "seccomp_filter heap \<Rightarrow> nat \<Rightarrow> sock_filter list" where
  "insns_at h f = (case heap_get h f of None \<Rightarrow> [] | Some n \<Rightarrow> flt_insns n)"

definition seccomp_filter_count :: "seccomp_filter heap \<Rightarrow> nat option \<Rightarrow> nat" where
  "seccomp_filter_count h fo = length (filter_chain h fo)"

definition filter_new :: "bool \<Rightarrow> seccomp_filter heap \<Rightarrow> sock_filter list \<Rightarrow> bool
    \<Rightarrow> (seccomp_filter heap \<times> nat) option" where
  "filter_new alloc h insns log =
     (if \<not> alloc then None
      else Some (heap_alloc h
        \<lparr>flt_refcount = 1, flt_prev = None, flt_log = log, flt_insns = insns\<rparr>))"

definition set_prev :: "seccomp_filter heap \<Rightarrow> nat \<Rightarrow> nat option \<Rightarrow> seccomp_filter heap" where
  "set_prev h f prev =
     (case heap_get h f of None \<Rightarrow> h | Some n \<Rightarrow> heap_put h f (n\<lparr>flt_prev := prev\<rparr>))"

section \<open>The check at system call entry\<close>

fun seccomp_arch :: "guest_abi \<Rightarrow> u32" where
  "seccomp_arch GUEST_ABI_AMD64 = 0xc000003e"
| "seccomp_arch GUEST_ABI_ARM64 = 0xc00000b7"
| "seccomp_arch GUEST_ABI_RISCV64 = 0xc00000f3"
| "seccomp_arch GUEST_ABI_PPC64 = 0xc0000015"
| "seccomp_arch GUEST_ABI_I386 = 0x40000003"

fun strict_allowed :: "guest_abi \<Rightarrow> int \<Rightarrow> bool" where
  "strict_allowed GUEST_ABI_AMD64 nr = (nr = 0 \<or> nr = 1 \<or> nr = 60 \<or> nr = 15)"
| "strict_allowed GUEST_ABI_ARM64 nr = (nr = 63 \<or> nr = 64 \<or> nr = 93 \<or> nr = 139)"
| "strict_allowed GUEST_ABI_RISCV64 nr = (nr = 63 \<or> nr = 64 \<or> nr = 93 \<or> nr = 139)"
| "strict_allowed GUEST_ABI_PPC64 nr = (nr = 3 \<or> nr = 4 \<or> nr = 1 \<or> nr = 172)"
| "strict_allowed GUEST_ABI_I386 nr = (nr = 3 \<or> nr = 4 \<or> nr = 1 \<or> nr = 119)"

text \<open>The most restrictive answer of a chain; \<open>None\<close> if some program did not return.\<close>

definition action_of :: "u32 \<Rightarrow> int" where
  "action_of r = sint (r AND SECCOMP_RET_ACTION_FULL)"

fun run_chain :: "seccomp_filter heap \<Rightarrow> u32 list \<Rightarrow> nat list \<Rightarrow> u32 \<times> nat option
    \<Rightarrow> (u32 \<times> nat option) option" where
  "run_chain h data [] acc = Some acc"
| "run_chain h data (f # fs) (ret, match) =
     (case bpf_run (length (insns_at h f)) (insns_at h f) data of
        Some (BRet cur) \<Rightarrow>
          run_chain h data fs (if action_of cur < action_of ret then (cur, Some f) else (ret, match))
      | _ \<Rightarrow> None)"

definition run_filters :: "seccomp_filter heap \<Rightarrow> nat option \<Rightarrow> u32 list
    \<Rightarrow> (u32 \<times> nat option) option" where
  "run_filters h fo data =
     (if fo = None then Some (SECCOMP_RET_KILL_PROCESS, None)
      else run_chain h data (filter_chain h fo) (SECCOMP_RET_ALLOW, None))"

text \<open>
  What the check decides. The last two are the calls that do not return:
  \<^verbatim>\<open>do_exit\<close> of this thread and \<^verbatim>\<open>do_exit_group\<close>, with the signal.
\<close>

datatype seccomp_verdict = SECCOMP_RUN | SECCOMP_ANSWERED int | SECCOMP_SKIPPED | SECCOMP_TRACED
  | DO_EXIT int | DO_EXIT_GROUP int

text \<open>
  Besides the verdict: the audit records (\<^verbatim>\<open>seccomp_log\<close>: signal and action), the SIGSYS sent
  (its data), and the message of a \<^verbatim>\<open>PTRACE_EVENT_SECCOMP\<close> stop.
\<close>

record sec_out =
  so_verdict :: seccomp_verdict
  so_log :: "(int \<times> u32) list"
  so_sigsys :: "u32 option"
  so_stop :: "u32 option"

definition sec_verdict :: "seccomp_verdict \<Rightarrow> (int \<times> u32) list \<Rightarrow> sec_out" where
  "sec_verdict v l = \<lparr>so_verdict = v, so_log = l, so_sigsys = None, so_stop = None\<rparr>"

text \<open>
  The call as the entry code passes it: the ABI, the number and the six argument registers,
  the address after the instruction, whether a tracer has already answered for this call,
  whether a tracer asked for seccomp stops, and whether the task is dying once such a stop
  ends.
\<close>

record sec_call =
  sc_abi :: guest_abi
  sc_nr :: u64
  sc_args :: "u64 list"
  sc_ip :: u64
  sc_recheck :: bool
  sc_traced :: bool
  sc_dies_in_stop :: bool

definition sec_nr :: "sec_call \<Rightarrow> int" where
  "sec_nr c = sint (ucast (sc_nr c) :: u32)"

fun arg_words :: "bool \<Rightarrow> u64 list \<Rightarrow> u32 list" where
  "arg_words narrow [] = []"
| "arg_words narrow (x # xs) =
     (let a = (if narrow then ucast (ucast x :: u32) else x) in
      ucast a # ucast (drop_bit 32 a) # arg_words narrow xs)"

definition seccomp_data :: "sec_call \<Rightarrow> u32 list" where
  "seccomp_data c =
     [ucast (sc_nr c), seccomp_arch (sc_abi c), ucast (sc_ip c), ucast (drop_bit 32 (sc_ip c))]
     @ arg_words (sc_abi c = GUEST_ABI_I386) (sc_args c)"

definition set_task :: "sec_state \<Rightarrow> nat \<Rightarrow> sec_task \<Rightarrow> sec_state" where
  "set_task s i t = s\<lparr>ss_tasks := (ss_tasks s)[i := t]\<rparr>"

definition set_mode :: "sec_state \<Rightarrow> nat \<Rightarrow> seccomp_mode \<Rightarrow> sec_state" where
  "set_mode s i m = set_task s i ((ss_tasks s ! i)\<lparr>st_mode := m\<rparr>)"

definition seccomp_last_thread :: "sec_state \<Rightarrow> nat \<Rightarrow> bool" where
  "seccomp_last_thread s cur \<longleftrightarrow>
     count_where (\<lambda>t. st_group t = st_group (ss_tasks s ! cur) \<and> \<not> st_exiting t) (ss_tasks s) \<le> 1"

definition seccomp_kill :: "sec_state \<Rightarrow> nat \<Rightarrow> u32 \<Rightarrow> sec_state \<times> seccomp_verdict" where
  "seccomp_kill s cur action =
     (let s' = set_mode s cur SECCOMP_MODE_DEAD in
      if action = SECCOMP_RET_KILL_THREAD \<and> \<not> seccomp_last_thread s' cur
      then (s', DO_EXIT SIGSYS) else (s', DO_EXIT_GROUP SIGSYS))"

definition seccomp_act :: "sec_state \<Rightarrow> nat \<Rightarrow> sec_call \<Rightarrow> u32 \<Rightarrow> bool \<Rightarrow> sec_state \<times> sec_out" where
  "seccomp_act s cur c ret logged =
     (let action = ret AND SECCOMP_RET_ACTION_FULL; rdata = ret AND SECCOMP_RET_DATA;
          lg = (\<lambda>sig. if logged then [(sig, action)] else []) in
      if action = SECCOMP_RET_ALLOW then (s, sec_verdict SECCOMP_RUN [])
      else if action = SECCOMP_RET_LOG then (s, sec_verdict SECCOMP_RUN [(0, action)])
      else if action = SECCOMP_RET_ERRNO then
        (s, sec_verdict (SECCOMP_ANSWERED (- int (min (unat rdata) MAX_ERRNO))) (lg 0))
      else if action = SECCOMP_RET_TRAP then
        (s, (sec_verdict SECCOMP_SKIPPED (lg SIGSYS))\<lparr>so_sigsys := Some rdata\<rparr>)
      else if action = SECCOMP_RET_TRACE then
        (if sc_recheck c then (s, sec_verdict SECCOMP_RUN [])
         else if \<not> sc_traced c
           then (s, sec_verdict (SECCOMP_ANSWERED (errno_value ENOSYS)) (lg 0))
         else (s, (sec_verdict (if sc_dies_in_stop c then SECCOMP_SKIPPED else SECCOMP_TRACED)
                (lg 0))\<lparr>so_stop := Some rdata\<rparr>))
      else if action = SECCOMP_RET_USER_NOTIF then
        (s, sec_verdict (SECCOMP_ANSWERED (errno_value ENOSYS)) (lg 0))
      else (let (s', v) = seccomp_kill s cur
                  (if action = SECCOMP_RET_KILL_THREAD then action else SECCOMP_RET_KILL_PROCESS)
            in (s', sec_verdict v [(SIGSYS, action)])))"

definition seccomp_syscall_enter :: "sec_state \<Rightarrow> nat \<Rightarrow> sec_call \<Rightarrow> (sec_state \<times> sec_out) option" where
  "seccomp_syscall_enter s cur c =
     (let t = ss_tasks s ! cur in
      if st_mode t = SECCOMP_MODE_STRICT \<and> strict_allowed (sc_abi c) (sec_nr c)
        then Some (s, sec_verdict SECCOMP_RUN [])
      else if st_mode t = SECCOMP_MODE_STRICT
        then Some (set_mode s cur SECCOMP_MODE_DEAD,
               sec_verdict (DO_EXIT SIGKILL) [(SIGKILL, SECCOMP_RET_KILL_THREAD)])
      else if st_mode t = SECCOMP_MODE_DEAD then Some (s, sec_verdict (DO_EXIT SIGKILL) [])
      else (case run_filters (ss_heap s) (st_filter t) (seccomp_data c) of
          None \<Rightarrow> None
        | Some (ret, match) \<Rightarrow>
            let logged = (case match of None \<Rightarrow> False
              | Some f \<Rightarrow> (case heap_get (ss_heap s) f of None \<Rightarrow> False | Some n \<Rightarrow> flt_log n))
            in Some (seccomp_act s cur c ret logged)))"

section \<open>Installing filters\<close>

definition is_ancestor :: "seccomp_filter heap \<Rightarrow> nat option \<Rightarrow> nat option \<Rightarrow> bool" where
  "is_ancestor h parent child =
     (case parent of None \<Rightarrow> True | Some p \<Rightarrow> p \<in> set (filter_chain h child))"

definition may_assign_mode :: "sec_state \<Rightarrow> nat \<Rightarrow> seccomp_mode \<Rightarrow> bool" where
  "may_assign_mode s cur mode \<longleftrightarrow>
     st_mode (ss_tasks s ! cur) = SECCOMP_MODE_DISABLED \<or> st_mode (ss_tasks s ! cur) = mode"

definition set_mode_strict :: "sec_state \<Rightarrow> nat \<Rightarrow> sec_state \<times> int res" where
  "set_mode_strict s cur =
     (if may_assign_mode s cur SECCOMP_MODE_STRICT
      then (set_mode s cur SECCOMP_MODE_STRICT, Inr 0) else (s, Inl EINVAL))"

text \<open>
  What a system call sees besides the state: the caller's ABI and memory, whether it holds
  \<^verbatim>\<open>CAP_SYS_ADMIN\<close>, and whether each of the three allocations on the way succeeds.
\<close>

record sec_env =
  se_abi :: guest_abi
  se_mem :: guest_mem
  se_sys_admin :: bool
  se_alloc_insns :: bool
  se_alloc_check :: bool
  se_alloc_filter :: bool

definition read_fprog :: "sec_env \<Rightarrow> u64 \<Rightarrow> (u16 \<times> u64) option" where
  "read_fprog env uprog =
     (if guest_abi_is_64bit (se_abi env)
      then map_option (\<lambda>bs. (le_at 0 2 bs, le_at 8 8 bs)) (se_mem env uprog 16)
      else map_option (\<lambda>bs. (le_at 0 2 bs, le_at 4 4 bs)) (se_mem env uprog 8))"

definition decode_insn :: "u8 list \<Rightarrow> sock_filter" where
  "decode_insn bs =
     \<lparr>sf_code = le_at 0 2 bs, sf_jt = le_at 2 1 bs, sf_jf = le_at 3 1 bs, sf_k = le_at 4 4 bs\<rparr>"

definition decode_insns :: "nat \<Rightarrow> u8 list \<Rightarrow> sock_filter list" where
  "decode_insns n bs = map (\<lambda>i. decode_insn (take 8 (drop (8 * i) bs))) [0..<n]"

definition prepare_user_filter :: "sec_env \<Rightarrow> sec_state \<Rightarrow> nat \<Rightarrow> u64 \<Rightarrow> bool
    \<Rightarrow> (sec_state \<times> nat) res" where
  "prepare_user_filter env s cur uprog log =
     (case read_fprog env uprog of
        None \<Rightarrow> Inl EFAULT
      | Some (len, insns_addr) \<Rightarrow>
          if len = 0 \<or> unat len > BPF_MAXINSNS then Inl EINVAL
          else if \<not> st_nnp (ss_tasks s ! cur) \<and> \<not> se_sys_admin env then Inl EACCES
          else if insns_addr = 0 then Inl EINVAL
          else if \<not> se_alloc_insns env then Inl ENOMEM
          else (case se_mem env insns_addr (8 * unat len) of
              None \<Rightarrow> Inl EFAULT
            | Some bs \<Rightarrow>
                let insns = decode_insns (unat len) bs in
                (case bpf_check (se_alloc_check env) insns of
                   Inl e \<Rightarrow> Inl e
                 | Inr _ \<Rightarrow>
                     (case filter_new (se_alloc_filter env) (ss_heap s) insns log of
                        None \<Rightarrow> Inl ENOMEM
                      | Some (h, f) \<Rightarrow> Inr (s\<lparr>ss_heap := h\<rparr>, f)))))"

text \<open>
  The walk over the other live threads of the caller's group, by position. A new thread goes
  to the front of its group's list, so the walk meets the newest first.
\<close>

definition tsync_others :: "sec_state \<Rightarrow> nat \<Rightarrow> nat list" where
  "tsync_others s cur =
     filter (\<lambda>i. st_group (ss_tasks s ! i) = st_group (ss_tasks s ! cur) \<and> i \<noteq> cur \<and>
       \<not> st_exiting (ss_tasks s ! i)) (rev [0..<length (ss_tasks s)])"

fun tsync_blocker_from :: "sec_state \<Rightarrow> nat option \<Rightarrow> nat list \<Rightarrow> int" where
  "tsync_blocker_from s head [] = 0"
| "tsync_blocker_from s head (i # is) =
     (let t = ss_tasks s ! i in
      if st_mode t = SECCOMP_MODE_DISABLED then tsync_blocker_from s head is
      else if st_mode t = SECCOMP_MODE_FILTER \<and> is_ancestor (ss_heap s) (st_filter t) head
        then tsync_blocker_from s head is
      else st_pid t)"

definition tsync_blocker :: "sec_state \<Rightarrow> nat \<Rightarrow> nat option \<Rightarrow> int" where
  "tsync_blocker s cur caller_head = tsync_blocker_from s caller_head (tsync_others s cur)"

definition tsync_one :: "nat \<Rightarrow> nat \<Rightarrow> sec_state \<Rightarrow> nat \<Rightarrow> sec_state" where
  "tsync_one cur head s i =
     (let t = ss_tasks s ! i;
          h = seccomp_filter_release (seccomp_filter_retain (ss_heap s) (Some head)) (st_filter t)
      in \<lparr>ss_heap = h,
          ss_tasks = (ss_tasks s)[i := t\<lparr>st_filter := Some head,
            st_nnp := (st_nnp t \<or> st_nnp (ss_tasks s ! cur)), st_mode := SECCOMP_MODE_FILTER\<rparr>]\<rparr>)"

definition path_insns :: "seccomp_filter heap \<Rightarrow> nat \<Rightarrow> nat option \<Rightarrow> nat" where
  "path_insns h len old = len + (\<Sum>w \<leftarrow> filter_chain h old. length (insns_at h w) + 4)"

text \<open>The new filter \<open>f\<close> takes over the caller's reference to the old chain.\<close>

definition install_filter :: "sec_state \<Rightarrow> nat \<Rightarrow> nat \<Rightarrow> sec_state" where
  "install_filter s cur f =
     (let t = ss_tasks s ! cur in
      \<lparr>ss_heap = set_prev (ss_heap s) f (st_filter t),
       ss_tasks = (ss_tasks s)[cur := t\<lparr>st_filter := Some f, st_mode := SECCOMP_MODE_FILTER\<rparr>]\<rparr>)"

definition set_mode_filter :: "sec_env \<Rightarrow> sec_state \<Rightarrow> nat \<Rightarrow> u32 \<Rightarrow> u64 \<Rightarrow> sec_state \<times> int res" where
  "set_mode_filter env s cur flags uprog =
     (if flags AND NOT SECCOMP_FILTER_FLAGS_KNOWN \<noteq> 0 then (s, Inl EINVAL)
      else (case prepare_user_filter env s cur uprog (flags AND SECCOMP_FILTER_FLAG_LOG \<noteq> 0) of
          Inl e \<Rightarrow> (s, Inl e)
        | Inr (s1, f) \<Rightarrow>
            let fail = s1\<lparr>ss_heap := seccomp_filter_release (ss_heap s1) (Some f)\<rparr>;
                old = st_filter (ss_tasks s1 ! cur);
                tsync = (flags AND SECCOMP_FILTER_FLAG_TSYNC \<noteq> 0);
                blocker = (if tsync then tsync_blocker s1 cur old else 0) in
            if \<not> may_assign_mode s1 cur SECCOMP_MODE_FILTER then (fail, Inl EINVAL)
            else if path_insns (ss_heap s1) (length (insns_at (ss_heap s1) f)) old
                    > SECCOMP_MAX_PATH_INSNS then (fail, Inl ENOMEM)
            else if blocker \<noteq> 0 then
              (fail, if flags AND SECCOMP_FILTER_FLAG_TSYNC_ESRCH \<noteq> 0 then Inl ESRCH
                     else Inr blocker)
            else
              let s2 = install_filter s1 cur f in
              (if tsync then foldl (tsync_one cur f) s2 (tsync_others s2 cur) else s2, Inr 0)))"

definition get_action_avail :: "sec_env \<Rightarrow> u64 \<Rightarrow> int res" where
  "get_action_avail env uaction =
     (case se_mem env uaction 4 of None \<Rightarrow> Inl EFAULT
      | Some bs \<Rightarrow>
          if (le_at 0 4 bs :: u32) \<in> set [SECCOMP_RET_KILL_PROCESS, SECCOMP_RET_KILL_THREAD,
               SECCOMP_RET_TRAP, SECCOMP_RET_ERRNO, SECCOMP_RET_TRACE, SECCOMP_RET_LOG,
               SECCOMP_RET_ALLOW]
          then Inr 0 else Inl EOPNOTSUPP)"

definition sys_seccomp_guest :: "sec_env \<Rightarrow> sec_state \<Rightarrow> nat \<Rightarrow> u32 \<Rightarrow> u32 \<Rightarrow> u64
    \<Rightarrow> sec_state \<times> int res" where
  "sys_seccomp_guest env s cur op flags uargs =
     (if op = 0 then
        (if flags \<noteq> 0 \<or> uargs \<noteq> 0 then (s, Inl EINVAL) else set_mode_strict s cur)
      else if op = 1 then set_mode_filter env s cur flags uargs
      else if op = 2 then
        (if flags \<noteq> 0 then (s, Inl EINVAL) else (s, get_action_avail env uargs))
      else (s, Inl EINVAL))"

definition seccomp_prctl_set :: "sec_env \<Rightarrow> sec_state \<Rightarrow> nat \<Rightarrow> u64 \<Rightarrow> u64 \<Rightarrow> sec_state \<times> int res" where
  "seccomp_prctl_set env s cur mode uprog =
     (if mode = 1 then set_mode_strict s cur
      else if mode = 2 then set_mode_filter env s cur 0 uprog
      else (s, Inl EINVAL))"

fun mode_number :: "seccomp_mode \<Rightarrow> int" where
  "mode_number SECCOMP_MODE_DISABLED = 0"
| "mode_number SECCOMP_MODE_STRICT = 1"
| "mode_number SECCOMP_MODE_FILTER = 2"
| "mode_number SECCOMP_MODE_DEAD = 3"

definition seccomp_prctl_get :: "sec_state \<Rightarrow> nat \<Rightarrow> int" where
  "seccomp_prctl_get s cur =
     (let mode = st_mode (ss_tasks s ! cur) in
      if mode = SECCOMP_MODE_DEAD then mode_number SECCOMP_MODE_FILTER else mode_number mode)"

section \<open>Tasks coming and going\<close>

text \<open>
  \<^verbatim>\<open>kernel/task.c\<close>: a new task is a copy of its parent's struct and takes a reference to
  the parent's filters; freeing a task drops it.
\<close>

definition task_create_seccomp :: "sec_state \<Rightarrow> nat \<Rightarrow> int \<Rightarrow> nat \<Rightarrow> sec_state" where
  "task_create_seccomp s parent pid grp =
     (let t = (ss_tasks s ! parent)\<lparr>st_pid := pid, st_group := grp, st_exiting := False\<rparr> in
      \<lparr>ss_heap = seccomp_filter_retain (ss_heap s) (st_filter t), ss_tasks = ss_tasks s @ [t]\<rparr>)"

definition task_free_seccomp :: "sec_state \<Rightarrow> nat \<Rightarrow> sec_state" where
  "task_free_seccomp s i =
     \<lparr>ss_heap = seccomp_filter_release (ss_heap s) (st_filter (ss_tasks s ! i)),
      ss_tasks = take i (ss_tasks s) @ drop (Suc i) (ss_tasks s)\<rparr>"

section \<open>Checkpoint\<close>

record seccomp_ckpt_prog =
  cp_log :: bool
  cp_insns :: "sock_filter list"

text \<open>Oldest first: the chain runs newest first. \<open>room\<close> is \<^verbatim>\<open>max\<close>, \<open>None\<close> for no buffer.\<close>

definition seccomp_ckpt_export :: "seccomp_filter heap \<Rightarrow> nat option \<Rightarrow> nat option
    \<Rightarrow> nat \<times> seccomp_ckpt_prog list option" where
  "seccomp_ckpt_export h fo room =
     (let n = seccomp_filter_count h fo in
      case room of None \<Rightarrow> (n, None)
      | Some mx \<Rightarrow>
          if n > mx then (n, None)
          else (n, Some (rev (map (\<lambda>f. case heap_get h f of
                  None \<Rightarrow> \<lparr>cp_log = False, cp_insns = []\<rparr>
                | Some x \<Rightarrow> \<lparr>cp_log = flt_log x, cp_insns = flt_insns x\<rparr>) (filter_chain h fo)))))"

record import_state =
  im_heap :: "seccomp_filter heap"
  im_seen :: "nat list"

definition import_find :: "import_state \<Rightarrow> nat option \<Rightarrow> seccomp_ckpt_prog \<Rightarrow> nat option" where
  "import_find st prev p =
     find (\<lambda>f. case heap_get (im_heap st) f of None \<Rightarrow> False
        | Some n \<Rightarrow> flt_prev n = prev \<and> flt_log n = cp_log p \<and> flt_insns n = cp_insns p) (im_seen st)"

text \<open>\<open>grow\<close> says whether there is room in the table, or the table could grow.\<close>

definition import_remember :: "bool \<Rightarrow> import_state \<Rightarrow> nat \<Rightarrow> import_state" where
  "import_remember grow st f =
     (if \<not> grow then st
      else \<lparr>im_heap = seccomp_filter_retain (im_heap st) (Some f), im_seen = im_seen st @ [f]\<rparr>)"

text \<open>
  One program at a time onto \<open>head\<close>; \<open>alloc i\<close>, \<open>calloc i\<close> and \<open>grow i\<close> are the fates of
  the allocations of the program \<open>i\<close> places from the end.
\<close>

fun seccomp_ckpt_import :: "(nat \<Rightarrow> bool) \<Rightarrow> (nat \<Rightarrow> bool) \<Rightarrow> (nat \<Rightarrow> bool) \<Rightarrow> import_state
    \<Rightarrow> nat option \<Rightarrow> seccomp_ckpt_prog list \<Rightarrow> import_state \<times> nat option" where
  "seccomp_ckpt_import alloc calloc grow st head [] = (st, head)"
| "seccomp_ckpt_import alloc calloc grow st head (p # ps) =
     (let i = length ps; drop_head = st\<lparr>im_heap := seccomp_filter_release (im_heap st) head\<rparr> in
      if cp_insns p = [] \<or> length (cp_insns p) > BPF_MAXINSNS \<or>
          bpf_check (calloc i) (cp_insns p) \<noteq> Inr () then (drop_head, None)
      else (case import_find st head p of
          Some same \<Rightarrow>
            seccomp_ckpt_import alloc calloc grow
              (st\<lparr>im_heap := seccomp_filter_release (seccomp_filter_retain (im_heap st) (Some same)) head\<rparr>)
              (Some same) ps
        | None \<Rightarrow>
            (case filter_new (alloc i) (im_heap st) (cp_insns p) (cp_log p) of
               None \<Rightarrow> (drop_head, None)
             | Some (h, f) \<Rightarrow>
                 seccomp_ckpt_import alloc calloc grow
                   (import_remember (grow i) (st\<lparr>im_heap := set_prev h f head\<rparr>) f) (Some f) ps)))"

definition seccomp_ckpt_import_done :: "import_state \<Rightarrow> import_state" where
  "seccomp_ckpt_import_done st =
     \<lparr>im_heap = foldl (\<lambda>h f. seccomp_filter_release h (Some f)) (im_heap st) (im_seen st), im_seen = []\<rparr>"

end
