(* ===== verification/Seccomp_Refs.thy ===== *)
theory Seccomp_Refs
  imports Seccomp
begin

text \<open>
  The reference counts of the filter heap. \<open>wf_filters h R\<close> says that every live filter's
  count is the number of references to it: \<open>R\<close> from outside the heap and \<open>prev_refs\<close> from
  newer filters; that a chain goes to older filters only, all live; and that nothing outside
  refers to a freed filter. The operations on the heap keep it, each trading references for
  others. A walk along a chain then visits every filter before it, whatever fuel above the
  heap's length it has.
\<close>

section \<open>Reference counts\<close>

definition prev_refs :: "seccomp_filter heap \<Rightarrow> nat \<Rightarrow> nat" where
  "prev_refs h f = count_where (\<lambda>c. case c of None \<Rightarrow> False | Some n \<Rightarrow> flt_prev n = Some f) h"

definition wf_filters :: "seccomp_filter heap \<Rightarrow> (nat \<Rightarrow> nat) \<Rightarrow> bool" where
  "wf_filters h R \<longleftrightarrow>
     (\<forall>f n. heap_get h f = Some n \<longrightarrow>
        R f + prev_refs h f = flt_refcount n \<and> 0 < flt_refcount n \<and>
        (\<forall>p. flt_prev n = Some p \<longrightarrow> p < f \<and> heap_get h p \<noteq> None)) \<and>
     (\<forall>f. 0 < R f \<longrightarrow> heap_get h f \<noteq> None)"

lemma wf_filtersI:
  assumes "\<And>f n. heap_get h f = Some n \<Longrightarrow> R f + prev_refs h f = flt_refcount n"
    and "\<And>f n. heap_get h f = Some n \<Longrightarrow> 0 < flt_refcount n"
    and "\<And>f n p. heap_get h f = Some n \<Longrightarrow> flt_prev n = Some p \<Longrightarrow> p < f \<and> heap_get h p \<noteq> None"
    and "\<And>f. 0 < R f \<Longrightarrow> heap_get h f \<noteq> None"
  shows "wf_filters h R"
  using assms by (simp add: wf_filters_def)

lemma wf_filtersD:
  assumes "wf_filters h R"
  shows "heap_get h f = Some n \<Longrightarrow> R f + prev_refs h f = flt_refcount n"
    and "heap_get h f = Some n \<Longrightarrow> 0 < flt_refcount n"
    and "heap_get h f = Some n \<Longrightarrow> flt_prev n = Some p \<Longrightarrow> p < f \<and> (\<exists>m. heap_get h p = Some m)"
    and "0 < R f \<Longrightarrow> \<exists>n. heap_get h f = Some n"
  using assms by (auto simp: wf_filters_def)

lemma prev_refs_put:
  "heap_get h f = Some n \<Longrightarrow>
     prev_refs (heap_put h f n') q + (if flt_prev n = Some q then 1 else 0)
       = prev_refs h q + (if flt_prev n' = Some q then 1 else 0)"
  using count_where_update [of f h "\<lambda>c. case c of None \<Rightarrow> False | Some n \<Rightarrow> flt_prev n = Some q" "Some n'"]
  by (auto simp: prev_refs_def heap_put_def heap_get_def split: if_splits)

lemma prev_refs_free:
  "heap_get h f = Some n \<Longrightarrow>
     prev_refs (heap_free h f) q + (if flt_prev n = Some q then 1 else 0) = prev_refs h q"
  using count_where_update [of f h "\<lambda>c. case c of None \<Rightarrow> False | Some n \<Rightarrow> flt_prev n = Some q" None]
  by (auto simp: prev_refs_def heap_free_def heap_get_def split: if_splits)

lemma prev_refs_alloc:
  "prev_refs (fst (heap_alloc h n)) q = prev_refs h q + (if flt_prev n = Some q then 1 else 0)"
  by (simp add: prev_refs_def heap_alloc_def)

lemma prev_refs_pos: "heap_get h f = Some n \<Longrightarrow> flt_prev n = Some q \<Longrightarrow> 0 < prev_refs h q"
  unfolding prev_refs_def heap_get_def
  by (rule count_where_pos [of f]) (auto split: if_splits)

lemma prev_refs_put_same:
  assumes "heap_get h f = Some n" and "flt_prev m = flt_prev n"
  shows "prev_refs (heap_put h f m) q = prev_refs h q"
  using prev_refs_put [OF assms(1), of m q] assms(2) by simp

lemma wf_filters_cong: "wf_filters h R \<Longrightarrow> (\<And>f. R f = R' f) \<Longrightarrow> wf_filters h R'"
  by (simp add: wf_filters_def)

lemma wf_retain:
  assumes wf: "wf_filters h R" and live: "\<And>f. fo = Some f \<Longrightarrow> \<exists>n. heap_get h f = Some n"
  shows "wf_filters (seccomp_filter_retain h fo) (\<lambda>f. R f + ref1 fo f)"
proof (cases fo)
  case None
  then show ?thesis using wf by (simp add: seccomp_filter_retain_def)
next
  case (Some f)
  then obtain n where n: "heap_get h f = Some n" using live by blast
  let ?n = "n\<lparr>flt_refcount := flt_refcount n + 1\<rparr>"
  have refs: "prev_refs (heap_put h f ?n) q = prev_refs h q" for q
    by (rule prev_refs_put_same [OF n]) simp
  note D = wf_filtersD [OF wf]
  have "wf_filters (heap_put h f ?n) (\<lambda>f. R f + ref1 fo f)"
    using n Some refs D(1) D(2) D(3) D(4) by (intro wf_filtersI) (fastforce split: if_splits)+
  then show ?thesis by (simp add: seccomp_filter_retain_def n Some)
qed

text \<open>A filter that is freed hands its reference on to the filter before it.\<close>

lemma wf_free:
  assumes wf: "wf_filters h (\<lambda>q. R q + ref1 (Some f) q)" and n: "heap_get h f = Some n"
    and one: "flt_refcount n = 1"
  shows "wf_filters (heap_free h f) (\<lambda>q. R q + ref1 (flt_prev n) q)"
proof -
  note D = wf_filtersD [OF wf]
  have f: "R f = 0" "prev_refs h f = 0" using D(1) [OF n] one by auto
  then have nof: "heap_get h g = Some m \<Longrightarrow> flt_prev m \<noteq> Some f" for g m
    using prev_refs_pos [of h g m f] by auto
  have refs: "prev_refs (heap_free h f) q + ref1 (flt_prev n) q = prev_refs h q" for q
    using prev_refs_free [OF n, of q] by (simp add: ref1_def)
  show ?thesis
  proof (rule wf_filtersI)
    fix g m
    assume "heap_get (heap_free h f) g = Some m"
    then have g: "heap_get h g = Some m" "g \<noteq> f" by (auto split: if_splits)
    show "R g + ref1 (flt_prev n) g + prev_refs (heap_free h f) g = flt_refcount m"
      using D(1) [OF g(1)] refs [of g] g(2) by simp
    show "0 < flt_refcount m" by (rule D(2) [OF g(1)])
    show "p < g \<and> heap_get (heap_free h f) p \<noteq> None" if "flt_prev m = Some p" for p
      using D(3) [OF g(1) that] nof [OF g(1)] that by auto
  next
    fix g
    assume g: "0 < R g + ref1 (flt_prev n) g"
    then show "heap_get (heap_free h f) g \<noteq> None"
      using D(3) [OF n, of g] D(4) [of g] nof [OF n] f(1) by (cases "0 < R g") (auto simp: ref1_def split: if_splits)
  qed
qed

lemma wf_release:
  "wf_filters h (\<lambda>f. R f + ref1 fo f) \<Longrightarrow> wf_filters (seccomp_filter_release h fo) R"
proof (induction h fo rule: seccomp_filter_release.induct)
  case (1 h)
  then show ?case by simp
next
  case (2 h f)
  note D = wf_filtersD [OF 2(2)]
  obtain n where n: "heap_get h f = Some n" using D(4) [of f] by auto
  show ?case
  proof (cases "flt_refcount n = 1")
    case True
    show ?thesis using 2(1) [OF n True wf_free [OF 2(2) n True]] n True by simp
  next
    case False
    let ?n = "n\<lparr>flt_refcount := flt_refcount n - 1\<rparr>"
    have refs: "prev_refs (heap_put h f ?n) q = prev_refs h q" for q
      by (rule prev_refs_put_same [OF n]) simp
    have "R f + prev_refs h f = flt_refcount n - 1" "0 < flt_refcount n - 1"
      using D(1) [OF n] D(2) [OF n] False by auto
    moreover have "heap_get h g = Some m \<Longrightarrow> g \<noteq> f \<Longrightarrow> R g + prev_refs h g = flt_refcount m" for g m
      using D(1) [of g m] by simp
    moreover have "0 < R g \<Longrightarrow> \<exists>m. heap_get h g = Some m" for g using D(4) [of g] by simp
    ultimately have "wf_filters (heap_put h f ?n) R"
      using n refs D(2) D(3) by (intro wf_filtersI) (fastforce split: if_splits)+
    then show ?thesis using n False by simp
  qed
qed

lemma wf_alloc:
  assumes "wf_filters h R" and "flt_refcount n = 1" and "flt_prev n = None"
  shows "wf_filters (fst (heap_alloc h n)) (\<lambda>f. R f + ref1 (Some (length h)) f)"
proof -
  note D = wf_filtersD [OF assms(1)]
  have new: "heap_get h (length h) = None" by (simp add: heap_get_def)
  have "R (length h) = 0" using D(4) [of "length h"] new by auto
  moreover have "prev_refs h (length h) = 0"
  proof (rule ccontr)
    assume "prev_refs h (length h) \<noteq> 0"
    then obtain i where i: "i < length h"
      "case h ! i of None \<Rightarrow> False | Some m \<Rightarrow> flt_prev m = Some (length h)"
      unfolding prev_refs_def using count_where_posD by blast
    then obtain m where "heap_get h i = Some m" "flt_prev m = Some (length h)"
      by (auto simp: heap_get_def split: option.splits)
    then show False using D(3) [of i m "length h"] i(1) by simp
  qed
  ultimately show ?thesis
    by (intro wf_filtersI)
      (use D assms in \<open>auto simp: heap_get_alloc prev_refs_alloc ref1_def dest: heap_get_less split: if_splits\<close>)
qed

lemma wf_set_prev:
  assumes wf: "wf_filters h (\<lambda>q. R q + ref1 po q)" and n: "heap_get h f = Some n" "flt_prev n = None"
    and po: "\<And>p. po = Some p \<Longrightarrow> p < f"
  shows "wf_filters (set_prev h f po) R"
proof -
  note D = wf_filtersD [OF wf]
  have refs: "prev_refs (heap_put h f (n\<lparr>flt_prev := po\<rparr>)) q = prev_refs h q + ref1 po q" for q
    using prev_refs_put [OF n(1), of "n\<lparr>flt_prev := po\<rparr>" q] n(2) by (simp add: ref1_def)
  have "wf_filters (heap_put h f (n\<lparr>flt_prev := po\<rparr>)) R"
    by (intro wf_filtersI)
      (use n refs D(1) D(2) D(3) D(4) po in \<open>fastforce simp: ref1_def split: if_splits\<close>)+
  then show ?thesis by (simp add: set_prev_def n)
qed

lemma release_get:
  "heap_get (seccomp_filter_release h fo) f = Some n \<Longrightarrow>
    \<exists>m. heap_get h f = Some m \<and> flt_insns m = flt_insns n \<and> flt_log m = flt_log n \<and> flt_prev m = flt_prev n"
  by (induction h fo rule: seccomp_filter_release.induct) (auto split: option.splits if_splits)

lemma retain_get:
  "heap_get (seccomp_filter_retain h fo) f = Some n \<Longrightarrow>
    \<exists>m. heap_get h f = Some m \<and> flt_insns m = flt_insns n \<and> flt_log m = flt_log n \<and> flt_prev m = flt_prev n"
  by (auto simp: seccomp_filter_retain_def split: option.splits if_splits)

lemma set_prev_get:
  "heap_get (set_prev h g po) f = Some n \<Longrightarrow>
    \<exists>m. heap_get h f = Some m \<and> flt_insns m = flt_insns n \<and> flt_log m = flt_log n"
  by (auto simp: set_prev_def split: option.splits if_splits)

section \<open>Chains\<close>

lemma chain_fuel_enough:
  "wf_filters h R \<Longrightarrow> f < k \<Longrightarrow> f < k' \<Longrightarrow> filter_chain_fuel k h (Some f) = filter_chain_fuel k' h (Some f)"
proof (induction f arbitrary: k k' rule: less_induct)
  case (less f)
  obtain l l' where l: "k = Suc l" "k' = Suc l'" "f \<le> l" "f \<le> l'"
    using less.prems by (cases k; cases k') auto
  show ?case
  proof (cases "heap_get h f")
    case (Some n)
    show ?thesis
    proof (cases "flt_prev n")
      case (Some p)
      then have "p < f" using wf_filtersD(3) [OF less.prems(1) \<open>heap_get h f = Some n\<close>] by simp
      then show ?thesis using less.IH [of p l l'] less.prems l \<open>heap_get h f = Some n\<close> Some by simp
    qed (use l Some in simp)
  qed (use l in simp)
qed

lemma chain_None [simp]: "filter_chain h None = []"
  by (simp add: filter_chain_def)

lemma chain_Some:
  assumes "wf_filters h R" and "heap_get h f = Some n"
  shows "filter_chain h (Some f) = f # filter_chain h (flt_prev n)"
proof -
  have f: "f < length h" using assms(2) by (rule heap_get_less)
  then obtain l where l: "length h = Suc l" by (cases "length h") auto
  have "filter_chain_fuel l h (flt_prev n) = filter_chain_fuel (length h) h (flt_prev n)"
  proof (cases "flt_prev n")
    case (Some p)
    then have "p < f" using wf_filtersD(3) [OF assms] by simp
    then show ?thesis using chain_fuel_enough [OF assms(1), of p l "length h"] f l Some by simp
  qed simp
  then show ?thesis using assms(2) l by (simp add: filter_chain_def)
qed

lemma chain_dead: "heap_get h f = None \<Longrightarrow> filter_chain h (Some f) = []"
  by (cases "length h") (auto simp: filter_chain_def)

definition live_ref :: "seccomp_filter heap \<Rightarrow> nat option \<Rightarrow> bool" where
  "live_ref h fo \<longleftrightarrow> (case fo of None \<Rightarrow> True | Some f \<Rightarrow> heap_get h f \<noteq> None)"

lemma live_ref_simps [simp]: "live_ref h None" "live_ref h (Some f) \<longleftrightarrow> heap_get h f \<noteq> None"
  by (simp_all add: live_ref_def)

text \<open>Induction along a chain of a well-formed heap.\<close>

lemma chain_induct [consumes 2, case_names Nil Step]:
  assumes "wf_filters h R" and "live_ref h fo"
    and "P None"
    and "\<And>f n. heap_get h f = Some n \<Longrightarrow> P (flt_prev n) \<Longrightarrow> P (Some f)"
  shows "P fo"
proof -
  have "heap_get h f = Some n \<Longrightarrow> P (Some f)" for f n
  proof (induction f arbitrary: n rule: less_induct)
    case (less f)
    then show ?case
      using assms(3) assms(4) [OF less.prems] wf_filtersD(3) [OF assms(1) less.prems]
      by (cases "flt_prev n") auto
  qed
  then show ?thesis using assms(2,3) by (cases fo) auto
qed

lemma chain_not_live: "\<not> live_ref h fo \<Longrightarrow> filter_chain h fo = []"
  by (cases fo) (auto simp: chain_dead)

lemma chain_live:
  assumes wf: "wf_filters h R" and "f \<in> set (filter_chain h fo)"
  shows "\<exists>n. heap_get h f = Some n"
proof -
  have "live_ref h fo" using assms(2) by (auto intro: ccontr simp: chain_not_live)
  with wf show ?thesis using assms(2)
    by (induction fo rule: chain_induct) (auto simp: chain_Some [OF wf])
qed

lemma chain_suffix:
  assumes wf: "wf_filters h R" and "p \<in> set (filter_chain h fo)"
  shows "\<exists>xs. filter_chain h fo = xs @ filter_chain h (Some p)"
proof -
  have "live_ref h fo" using assms(2) by (auto intro: ccontr simp: chain_not_live)
  with wf show ?thesis using assms(2)
  proof (induction fo rule: chain_induct)
    case (Step f n)
    show ?case
    proof (cases "p = f")
      case False
      then obtain xs where "filter_chain h (flt_prev n) = xs @ filter_chain h (Some p)"
        using Step chain_Some [OF wf Step(1)] by auto
      then show ?thesis using chain_Some [OF wf Step(1)] by (intro exI [of _ "f # xs"]) simp
    qed (auto intro: exI [of _ "[]"])
  qed simp
qed

text \<open>\<open>heap_sub h h'\<close>: every filter of \<open>h\<close> is in \<open>h'\<close>, but for its count the same.\<close>

definition heap_sub :: "seccomp_filter heap \<Rightarrow> seccomp_filter heap \<Rightarrow> bool" where
  "heap_sub h h' \<longleftrightarrow> (\<forall>f n. heap_get h f = Some n \<longrightarrow>
     (\<exists>m. heap_get h' f = Some m \<and> flt_insns m = flt_insns n \<and> flt_log m = flt_log n \<and> flt_prev m = flt_prev n))"

lemma heap_sub_refl [simp]: "heap_sub h h"
  by (simp add: heap_sub_def)

lemma heap_sub_trans: "heap_sub h h' \<Longrightarrow> heap_sub h' h'' \<Longrightarrow> heap_sub h h''"
  unfolding heap_sub_def by (metis (no_types))

lemma heap_sub_release: "heap_sub (seccomp_filter_release h fo) h"
  using release_get by (simp add: heap_sub_def)

lemma heap_sub_retain: "heap_sub (seccomp_filter_retain h fo) h" "heap_sub h (seccomp_filter_retain h fo)"
  by (auto simp: heap_sub_def seccomp_filter_retain_def split: option.splits if_splits)

lemma heap_sub_alloc: "heap_sub h (fst (heap_alloc h n))"
  by (auto simp: heap_sub_def heap_get_alloc dest: heap_get_less)

lemma heap_sub_insns: "heap_sub h h' \<Longrightarrow> heap_get h f = Some n \<Longrightarrow> insns_at h' f = insns_at h f"
  by (fastforce simp: heap_sub_def insns_at_def)

lemma heap_sub_chain:
  assumes "heap_sub h h'" and wf: "wf_filters h R" and wf': "wf_filters h' R'"
    and "live_ref h fo"
  shows "filter_chain h' fo = filter_chain h fo"
  using wf assms(4)
proof (induction fo rule: chain_induct)
  case (Step f n)
  then obtain m where "heap_get h' f = Some m" "flt_prev m = flt_prev n"
    using assms(1) by (fastforce simp: heap_sub_def)
  then show ?case using chain_Some [OF wf Step(1)] chain_Some [OF wf'] Step(2) by simp
qed simp

text \<open>The programs a chain runs, newest first.\<close>

definition chain_progs :: "seccomp_filter heap \<Rightarrow> nat option \<Rightarrow> sock_filter list list" where
  "chain_progs h fo = map (insns_at h) (filter_chain h fo)"

lemma heap_sub_progs:
  assumes "heap_sub h h'" and "wf_filters h R" and "wf_filters h' R'"
    and "live_ref h fo"
  shows "chain_progs h' fo = chain_progs h fo"
  using chain_live [OF assms(2)] heap_sub_insns [OF assms(1)]
  by (force simp: chain_progs_def heap_sub_chain [OF assms])

end
