(* ===== verification/Seccomp_Inv.thy ===== *)
theory Seccomp_Inv
  imports Seccomp_Refs
begin

text \<open>
  The invariant of the seccomp state and that every operation keeps it: the counts of the
  filters are exactly the references tasks and newer filters hold, every program in the heap
  passed the check, and a task's mode says whether it has filters. What installing a filter
  does to every task's chain is worked out here once.
\<close>

section \<open>The invariant\<close>

definition task_refs :: "sec_task list \<Rightarrow> nat \<Rightarrow> nat" where
  "task_refs ts f = count_where (\<lambda>t. st_filter t = Some f) ts"

definition task_ok :: "sec_task \<Rightarrow> bool" where
  "task_ok t \<longleftrightarrow> (st_mode t = SECCOMP_MODE_FILTER \<longrightarrow> st_filter t \<noteq> None) \<and>
     (st_mode t \<in> {SECCOMP_MODE_DISABLED, SECCOMP_MODE_STRICT} \<longrightarrow> st_filter t = None) \<and>
     (\<not> st_exiting t \<longrightarrow> 0 < st_pid t)"

text \<open>Both ways into the heap check the program first.\<close>

definition prog_checked :: "sock_filter list \<Rightarrow> bool" where
  "prog_checked p \<longleftrightarrow> p \<noteq> [] \<and> length p \<le> BPF_MAXINSNS \<and> bpf_check True p = Inr ()"

lemma prog_checked_safe: "prog_checked p \<Longrightarrow> bpf_safe p"
  unfolding prog_checked_def by (rule bpf_check_safe) auto

lemma prog_checkedI: "bpf_check alloc p = Inr () \<Longrightarrow> p \<noteq> [] \<Longrightarrow> length p \<le> BPF_MAXINSNS \<Longrightarrow> prog_checked p"
  by (cases alloc) (auto simp: prog_checked_def bpf_check_def split: if_splits)

definition progs_ok :: "seccomp_filter heap \<Rightarrow> bool" where
  "progs_ok h \<longleftrightarrow> (\<forall>f n. heap_get h f = Some n \<longrightarrow> prog_checked (flt_insns n))"

definition sec_inv :: "sec_state \<Rightarrow> bool" where
  "sec_inv s \<longleftrightarrow> wf_filters (ss_heap s) (task_refs (ss_tasks s)) \<and> progs_ok (ss_heap s) \<and>
     (\<forall>t \<in> set (ss_tasks s). task_ok t)"

lemma sec_invD:
  assumes "sec_inv s"
  shows "wf_filters (ss_heap s) (task_refs (ss_tasks s))" "progs_ok (ss_heap s)"
    "i < length (ss_tasks s) \<Longrightarrow> task_ok (ss_tasks s ! i)"
  using assms by (auto simp: sec_inv_def)

lemma task_refs_update:
  "i < length ts \<Longrightarrow> task_refs (ts[i := t]) f + ref1 (st_filter (ts ! i)) f = task_refs ts f + ref1 (st_filter t) f"
  using count_where_update [of i ts "\<lambda>t. st_filter t = Some f" t] by (simp add: task_refs_def ref1_def)

lemma task_refs_pos: "i < length ts \<Longrightarrow> st_filter (ts ! i) = Some f \<Longrightarrow> 0 < task_refs ts f"
  unfolding task_refs_def by (rule count_where_pos)

lemma task_filter_live:
  "wf_filters h (\<lambda>f. task_refs ts f + X f) \<Longrightarrow> i < length ts \<Longrightarrow> live_ref h (st_filter (ts ! i))"
  using wf_filtersD(4) [of h _ ] task_refs_pos [of i ts] by (cases "st_filter (ts ! i)") fastforce+

lemma sec_inv_live: "sec_inv s \<Longrightarrow> i < length (ss_tasks s) \<Longrightarrow> live_ref (ss_heap s) (st_filter (ss_tasks s ! i))"
  using task_filter_live [of _ _ "\<lambda>_. 0"] sec_invD(1) by simp

lemma progs_ok_sub: "heap_sub h' h \<Longrightarrow> progs_ok h \<Longrightarrow> progs_ok h'"
  unfolding progs_ok_def heap_sub_def by metis

lemma sec_inv_task:
  assumes "sec_inv s" and "i < length (ss_tasks s)" and "st_filter t = st_filter (ss_tasks s ! i)"
    and "task_ok t"
  shows "sec_inv (set_task s i t)"
proof -
  have "task_refs ((ss_tasks s)[i := t]) f = task_refs (ss_tasks s) f" for f
    using task_refs_update [OF assms(2), of t f] assms(3) by simp
  moreover have "\<forall>x \<in> set ((ss_tasks s)[i := t]). task_ok x"
    using assms(1,4) set_update_subset_insert [of "ss_tasks s" i t] by (auto simp: sec_inv_def)
  ultimately show ?thesis
    using sec_invD(1,2) [OF assms(1)] by (auto simp: sec_inv_def set_task_def intro: wf_filters_cong)
qed

lemma set_mode_strict_inv:
  "sec_inv s \<Longrightarrow> cur < length (ss_tasks s) \<Longrightarrow> sec_inv (fst (set_mode_strict s cur))"
  using sec_invD(3) [of s cur]
  by (auto simp: set_mode_strict_def set_mode_def may_assign_mode_def task_ok_def intro!: sec_inv_task)

lemma set_mode_dead_inv:
  "sec_inv s \<Longrightarrow> cur < length (ss_tasks s) \<Longrightarrow> sec_inv (set_mode s cur SECCOMP_MODE_DEAD)"
  using sec_invD(3) [of s cur] by (auto simp: set_mode_def task_ok_def intro!: sec_inv_task)

lemma seccomp_syscall_enter_inv:
  "sec_inv s \<Longrightarrow> cur < length (ss_tasks s) \<Longrightarrow> seccomp_syscall_enter s cur c = Some (s', out) \<Longrightarrow> sec_inv s'"
  using set_mode_dead_inv [of s cur]
  by (auto simp: seccomp_syscall_enter_def seccomp_act_def seccomp_kill_def Let_def
      split: if_splits option.splits prod.splits)

lemma task_create_inv:
  assumes "sec_inv s" and "parent < length (ss_tasks s)" and "0 < pid"
  shows "sec_inv (task_create_seccomp s parent pid grp)"
proof -
  let ?t = "(ss_tasks s ! parent)\<lparr>st_pid := pid, st_group := grp, st_exiting := False\<rparr>"
  have "wf_filters (seccomp_filter_retain (ss_heap s) (st_filter ?t)) (task_refs (ss_tasks s @ [?t]))"
    by (rule wf_filters_cong [OF wf_retain [OF sec_invD(1) [OF assms(1)]]])
      (use sec_inv_live [OF assms(1,2)] in \<open>auto simp: task_refs_def ref1_def\<close>)
  moreover have "task_ok ?t" using sec_invD(3) [OF assms(1,2)] assms(3) by (simp add: task_ok_def)
  ultimately show ?thesis
    using assms(1) progs_ok_sub [OF heap_sub_retain(1)]
    by (auto simp: sec_inv_def task_create_seccomp_def Let_def)
qed

lemma task_refs_remove:
  "i < length ts \<Longrightarrow> task_refs (take i ts @ drop (Suc i) ts) f + ref1 (st_filter (ts ! i)) f = task_refs ts f"
  by (subst (3) id_take_nth_drop [of i]) (simp_all add: task_refs_def ref1_def del: append_take_drop_id)

lemma task_free_inv:
  assumes "sec_inv s" and "i < length (ss_tasks s)"
  shows "sec_inv (task_free_seccomp s i)"
proof -
  have "wf_filters (seccomp_filter_release (ss_heap s) (st_filter (ss_tasks s ! i)))
      (task_refs (take i (ss_tasks s) @ drop (Suc i) (ss_tasks s)))"
    by (rule wf_release, rule wf_filters_cong [OF sec_invD(1) [OF assms(1)]])
      (simp add: task_refs_remove [OF assms(2)])
  then show ?thesis
    using assms(1) progs_ok_sub [OF heap_sub_release]
    by (auto simp: sec_inv_def task_free_seccomp_def dest: in_set_takeD in_set_dropD)
qed

section \<open>Installing a filter\<close>

definition fresh_filter :: "sec_state \<Rightarrow> seccomp_filter \<Rightarrow> sec_state" where
  "fresh_filter s n = s\<lparr>ss_heap := fst (heap_alloc (ss_heap s) n)\<rparr>"

definition new_filter_ok :: "seccomp_filter \<Rightarrow> bool" where
  "new_filter_ok n \<longleftrightarrow> flt_refcount n = 1 \<and> flt_prev n = None \<and> prog_checked (flt_insns n)"

lemma prepare_user_filterD:
  assumes "prepare_user_filter env s cur uprog log = Inr (s1, f)"
  obtains n where "s1 = fresh_filter s n" "f = length (ss_heap s)" "new_filter_ok n"
proof -
  have len: "length (decode_insns n bs) = n" for n bs by (simp add: decode_insns_def)
  then have ne: "len \<noteq> 0 \<Longrightarrow> decode_insns (unat len) bs \<noteq> []" for len :: u16 and bs
    by (metis length_0_conv unat_eq_zero)
  from assms that show thesis
    by (fastforce simp: prepare_user_filter_def filter_new_def heap_alloc_def fresh_filter_def new_filter_ok_def
        Let_def len split: option.splits prod.splits if_splits sum.splits dest!: prog_checkedI [OF _ ne])
qed

lemma fresh_wf:
  assumes "sec_inv s" and "new_filter_ok n"
  shows "wf_filters (ss_heap (fresh_filter s n)) (\<lambda>q. task_refs (ss_tasks s) q + ref1 (Some (length (ss_heap s))) q)"
    and "progs_ok (ss_heap (fresh_filter s n))"
  using wf_alloc [OF sec_invD(1) [OF assms(1)], of n] assms sec_invD(2) [OF assms(1)]
  by (auto simp: fresh_filter_def new_filter_ok_def progs_ok_def heap_get_alloc)

text \<open>A filter that is not installed after all is freed again, and nothing else changes.\<close>

definition drop_fresh :: "sec_state \<Rightarrow> nat \<Rightarrow> sec_state" where
  "drop_fresh s f = s\<lparr>ss_heap := seccomp_filter_release (ss_heap s) (Some f)\<rparr>"

lemma drop_fresh_inv:
  assumes "sec_inv s" and "new_filter_ok n"
  defines "s' \<equiv> drop_fresh (fresh_filter s n) (length (ss_heap s))"
  shows "sec_inv s'" and "ss_tasks s' = ss_tasks s" and "heap_sub (ss_heap s) (ss_heap s')"
proof -
  note wf = fresh_wf [OF assms(1,2)]
  show "ss_tasks s' = ss_tasks s" by (simp add: s'_def drop_fresh_def fresh_filter_def)
  with wf_release [OF wf(1)] progs_ok_sub [OF heap_sub_release wf(2)] assms(1)
  show "sec_inv s'" by (simp add: sec_inv_def s'_def drop_fresh_def del: seccomp_filter_release.simps)
  show "heap_sub (ss_heap s) (ss_heap s')"
    using assms(2) by (auto simp: s'_def drop_fresh_def fresh_filter_def heap_sub_def heap_get_alloc
        new_filter_ok_def dest: heap_get_less)
qed

lemma install_inv:
  assumes "sec_inv s" and "new_filter_ok n" and cur: "cur < length (ss_tasks s)"
  defines "s' \<equiv> install_filter (fresh_filter s n) cur (length (ss_heap s))"
  shows "sec_inv s'" and "heap_sub (ss_heap s) (ss_heap s')"
    and "heap_get (ss_heap s') (length (ss_heap s)) = Some (n\<lparr>flt_prev := st_filter (ss_tasks s ! cur)\<rparr>)"
proof -
  let ?f = "length (ss_heap s)" let ?h = "ss_heap (fresh_filter s n)" let ?old = "st_filter (ss_tasks s ! cur)"
  let ?t = "(ss_tasks s ! cur)\<lparr>st_filter := Some ?f, st_mode := SECCOMP_MODE_FILTER\<rparr>"
  note wf = fresh_wf [OF assms(1,2)]
  have s': "s' = \<lparr>ss_heap = set_prev ?h ?f ?old, ss_tasks = (ss_tasks s)[cur := ?t]\<rparr>"
    by (simp add: s'_def install_filter_def fresh_filter_def Let_def)
  have n: "heap_get ?h ?f = Some n" by (simp add: fresh_filter_def heap_get_alloc)
  have old: "p < ?f" if "?old = Some p" for p
    using sec_inv_live [OF assms(1) cur] that heap_get_less by fastforce
  have "wf_filters ?h (\<lambda>q. task_refs ((ss_tasks s)[cur := ?t]) q + ref1 ?old q)"
    using task_refs_update [OF cur, of ?t] wf(1) by simp
  then have "wf_filters (set_prev ?h ?f ?old) (task_refs ((ss_tasks s)[cur := ?t]))"
    by (rule wf_set_prev [OF _ n]) (use assms(2) old in \<open>auto simp: new_filter_ok_def\<close>)
  moreover have "progs_ok (set_prev ?h ?f ?old)"
    using wf(2) n by (auto simp: progs_ok_def set_prev_def)
  moreover have "\<forall>t \<in> set ((ss_tasks s)[cur := ?t]). task_ok t"
    using assms(1) sec_invD(3) [OF assms(1) cur] set_update_subset_insert [of "ss_tasks s" cur ?t]
    by (auto simp: sec_inv_def task_ok_def)
  ultimately show "sec_inv s'" by (simp add: s' sec_inv_def)
  show "heap_get (ss_heap s') ?f = Some (n\<lparr>flt_prev := ?old\<rparr>)" using n by (simp add: s' set_prev_def)
  show "heap_sub (ss_heap s) (ss_heap s')"
    using n by (auto simp: s' heap_sub_def set_prev_def fresh_filter_def heap_get_alloc dest: heap_get_less)
qed

text \<open>Handing the new chain to the other threads.\<close>

definition tsync_task :: "bool \<Rightarrow> nat \<Rightarrow> sec_task \<Rightarrow> sec_task" where
  "tsync_task nnp head t = t\<lparr>st_filter := Some head, st_nnp := (st_nnp t \<or> nnp), st_mode := SECCOMP_MODE_FILTER\<rparr>"

lemma tsync_one_inv:
  assumes "sec_inv s" and i: "i < length (ss_tasks s)" and head: "heap_get (ss_heap s) head \<noteq> None"
  shows "sec_inv (tsync_one cur head s i)" and "heap_sub (ss_heap (tsync_one cur head s i)) (ss_heap s)"
    and "heap_get (ss_heap (tsync_one cur head s i)) head \<noteq> None"
proof -
  let ?t = "tsync_task (st_nnp (ss_tasks s ! cur)) head (ss_tasks s ! i)"
  let ?h = "seccomp_filter_retain (ss_heap s) (Some head)"
  have s': "tsync_one cur head s i = \<lparr>ss_heap = seccomp_filter_release ?h (st_filter (ss_tasks s ! i)),
      ss_tasks = (ss_tasks s)[i := ?t]\<rparr>"
    by (simp add: tsync_one_def tsync_task_def Let_def)
  have "wf_filters ?h (\<lambda>f. task_refs (ss_tasks s) f + ref1 (Some head) f)"
    by (rule wf_retain [OF sec_invD(1) [OF assms(1)]]) (use head in auto)
  then have wf: "wf_filters (ss_heap (tsync_one cur head s i)) (task_refs ((ss_tasks s)[i := ?t]))"
    using task_refs_update [OF i, of ?t]
    by (auto simp: s' tsync_task_def intro!: wf_release elim!: wf_filters_cong)
  show sub: "heap_sub (ss_heap (tsync_one cur head s i)) (ss_heap s)"
    unfolding s' using heap_sub_trans [OF heap_sub_release heap_sub_retain(1)] by simp
  have "\<forall>t \<in> set ((ss_tasks s)[i := ?t]). task_ok t"
    using assms(1) sec_invD(3) [OF assms(1) i] set_update_subset_insert [of "ss_tasks s" i ?t]
    by (auto simp: sec_inv_def task_ok_def tsync_task_def)
  with wf progs_ok_sub [OF sub sec_invD(2) [OF assms(1)]] show "sec_inv (tsync_one cur head s i)"
    by (simp add: sec_inv_def s')
  show "heap_get (ss_heap (tsync_one cur head s i)) head \<noteq> None"
    using wf_filtersD(4) [OF wf, of head] task_refs_pos [of i "(ss_tasks s)[i := ?t]" head] i
    by (auto simp: tsync_task_def)
qed

lemma tsync_one_tasks:
  "i \<noteq> cur \<Longrightarrow> ss_tasks (tsync_one cur head s i) =
     (ss_tasks s)[i := tsync_task (st_nnp (ss_tasks s ! cur)) head (ss_tasks s ! i)]"
  by (simp add: tsync_one_def tsync_task_def Let_def)

lemma tsync_one_length [simp]: "length (ss_tasks (tsync_one cur head s i)) = length (ss_tasks s)"
  by (simp add: tsync_one_def Let_def)

lemma tsync_fold_length [simp]: "length (ss_tasks (foldl (tsync_one cur head) s is)) = length (ss_tasks s)"
  by (induction "is" arbitrary: s) auto

lemma tsync_fold:
  assumes "sec_inv s" and "\<forall>i \<in> set is. i < length (ss_tasks s)" and "heap_get (ss_heap s) head \<noteq> None"
  shows "sec_inv (foldl (tsync_one cur head) s is) \<and> heap_sub (ss_heap (foldl (tsync_one cur head) s is)) (ss_heap s)"
  using assms
proof (induction "is" arbitrary: s)
  case (Cons i xs)
  then have "i < length (ss_tasks s)" by simp
  note one = tsync_one_inv [OF Cons.prems(1) this Cons.prems(3), of cur]
  have "sec_inv (foldl (tsync_one cur head) (tsync_one cur head s i) xs) \<and>
      heap_sub (ss_heap (foldl (tsync_one cur head) (tsync_one cur head s i) xs)) (ss_heap (tsync_one cur head s i))"
    using Cons.IH [OF one(1) _ one(3)] Cons.prems(2) by simp
  then show ?case using one(2) by (auto intro: heap_sub_trans)
qed simp

lemma tsync_task_idem [simp]: "tsync_task b f (tsync_task b f t) = tsync_task b f t"
  by (simp add: tsync_task_def)

lemma tsync_fold_tasks:
  assumes "cur \<notin> set is" and "\<forall>i \<in> set is. i < length (ss_tasks s)"
  shows "ss_tasks (foldl (tsync_one cur head) s is) ! j =
      (if j \<in> set is then tsync_task (st_nnp (ss_tasks s ! cur)) head (ss_tasks s ! j) else ss_tasks s ! j)"
  using assms
proof (induction "is" arbitrary: s)
  case (Cons i xs)
  then have i: "i \<noteq> cur" "i < length (ss_tasks s)" by auto
  then show ?case using Cons.IH [of "tsync_one cur head s i"] Cons.prems
    by (auto simp: tsync_one_tasks [OF i(1)] nth_list_update)
qed simp

definition task_progs :: "sec_state \<Rightarrow> nat \<Rightarrow> sock_filter list list" where
  "task_progs s i = chain_progs (ss_heap s) (st_filter (ss_tasks s ! i))"

lemma task_progs_sub:
  assumes "sec_inv s" and "sec_inv s'" and "heap_sub (ss_heap s) (ss_heap s')"
    and "i < length (ss_tasks s)" and "st_filter (ss_tasks s' ! i) = st_filter (ss_tasks s ! i)"
  shows "task_progs s' i = task_progs s i"
  unfolding task_progs_def assms(5)
  by (rule heap_sub_progs [OF assms(3) sec_invD(1) [OF assms(1)] sec_invD(1) [OF assms(2)] sec_inv_live [OF assms(1,4)]])

text \<open>
  The two outcomes of \<open>set_mode_filter\<close>: nothing changes for any task and the answer is an
  error or a thread id; or the answer is 0 and the new program is in front of the caller's
  chain, and of every other live thread of the group under TSYNC.
\<close>

definition installed :: "bool \<Rightarrow> sec_state \<Rightarrow> nat \<Rightarrow> seccomp_filter \<Rightarrow> sec_state" where
  "installed tsync s cur n =
     (let s2 = install_filter (fresh_filter s n) cur (length (ss_heap s)) in
      if tsync then foldl (tsync_one cur (length (ss_heap s))) s2 (tsync_others s2 cur) else s2)"

lemma fresh_tasks [simp]: "ss_tasks (fresh_filter s n) = ss_tasks s"
  by (simp add: fresh_filter_def)

lemma set_mode_filter_cases:
  assumes "sec_inv s"
  obtains (same) "sec_inv (fst (set_mode_filter env s cur flags uprog))"
      "ss_tasks (fst (set_mode_filter env s cur flags uprog)) = ss_tasks s"
      "heap_sub (ss_heap s) (ss_heap (fst (set_mode_filter env s cur flags uprog)))"
      "snd (set_mode_filter env s cur flags uprog) \<noteq> Inr 0"
  | (set) n where "new_filter_ok n"
      "set_mode_filter env s cur flags uprog = (installed (flags AND SECCOMP_FILTER_FLAG_TSYNC \<noteq> 0) s cur n, Inr 0)"
      "may_assign_mode s cur SECCOMP_MODE_FILTER"
      "flags AND SECCOMP_FILTER_FLAG_TSYNC \<noteq> 0 \<Longrightarrow> tsync_blocker (fresh_filter s n) cur (st_filter (ss_tasks s ! cur)) = 0"
proof (cases "flags AND NOT SECCOMP_FILTER_FLAGS_KNOWN = 0")
  case known: True
  show thesis
  proof (cases "prepare_user_filter env s cur uprog (flags AND SECCOMP_FILTER_FLAG_LOG \<noteq> 0)")
    case (Inr p)
    obtain s1 f where p: "p = (s1, f)" by (cases p)
    obtain n where n: "s1 = fresh_filter s n" "f = length (ss_heap s)" "new_filter_ok n"
      using prepare_user_filterD Inr p by metis
    have fail: "fst (set_mode_filter env s cur flags uprog) = drop_fresh s1 f \<and>
        snd (set_mode_filter env s cur flags uprog) \<noteq> Inr 0 \<or>
        (set_mode_filter env s cur flags uprog = (installed (flags AND SECCOMP_FILTER_FLAG_TSYNC \<noteq> 0) s cur n, Inr 0)
         \<and> may_assign_mode s1 cur SECCOMP_MODE_FILTER \<and>
         (flags AND SECCOMP_FILTER_FLAG_TSYNC \<noteq> 0 \<longrightarrow> tsync_blocker s1 cur (st_filter (ss_tasks s ! cur)) = 0))"
      using known Inr unfolding p by (simp add: set_mode_filter_def Let_def drop_fresh_def installed_def n(1,2))
    show thesis
      using fail same set [OF n(3)] drop_fresh_inv [OF assms n(3)] n
      by (auto simp: may_assign_mode_def)
  qed (use known assms in \<open>auto simp: set_mode_filter_def intro!: same\<close>)
qed (use assms in \<open>auto simp: set_mode_filter_def intro!: same\<close>)

lemma installed_tasks:
  assumes "cur < length (ss_tasks s)"
  shows "length (ss_tasks (installed tsync s cur n)) = length (ss_tasks s)"
    and "ss_tasks (installed tsync s cur n) ! j =
      (if j = cur then (ss_tasks s ! cur)\<lparr>st_filter := Some (length (ss_heap s)), st_mode := SECCOMP_MODE_FILTER\<rparr>
       else if tsync \<and> j \<in> set (tsync_others s cur)
       then tsync_task (st_nnp (ss_tasks s ! cur)) (length (ss_heap s)) (ss_tasks s ! j)
       else ss_tasks s ! j)"
proof -
  let ?s2 = "install_filter (fresh_filter s n) cur (length (ss_heap s))"
  have t2: "ss_tasks ?s2 = (ss_tasks s)[cur := (ss_tasks s ! cur)\<lparr>st_filter := Some (length (ss_heap s)),
      st_mode := SECCOMP_MODE_FILTER\<rparr>]"
    by (simp add: install_filter_def Let_def)
  then have others: "tsync_others ?s2 cur = tsync_others s cur"
    using assms by (auto simp: tsync_others_def nth_list_update intro!: filter_cong)
  show "length (ss_tasks (installed tsync s cur n)) = length (ss_tasks s)"
    by (simp add: installed_def Let_def t2)
  have "cur \<notin> set (tsync_others s cur)" "\<forall>i \<in> set (tsync_others s cur). i < length (ss_tasks ?s2)"
    by (auto simp: tsync_others_def t2)
  then show "ss_tasks (installed tsync s cur n) ! j =
      (if j = cur then (ss_tasks s ! cur)\<lparr>st_filter := Some (length (ss_heap s)), st_mode := SECCOMP_MODE_FILTER\<rparr>
       else if tsync \<and> j \<in> set (tsync_others s cur)
       then tsync_task (st_nnp (ss_tasks s ! cur)) (length (ss_heap s)) (ss_tasks s ! j)
       else ss_tasks s ! j)"
    using tsync_fold_tasks [of cur "tsync_others s cur" ?s2 "length (ss_heap s)" j] assms
    by (auto simp: installed_def Let_def others t2 nth_list_update)
qed

lemma installed_inv:
  assumes "sec_inv s" and "new_filter_ok n" and "cur < length (ss_tasks s)"
  shows "sec_inv (installed tsync s cur n)"
    and "heap_sub (ss_heap (installed tsync s cur n)) (ss_heap (install_filter (fresh_filter s n) cur (length (ss_heap s))))"
proof -
  note i = install_inv [OF assms]
  let ?s2 = "install_filter (fresh_filter s n) cur (length (ss_heap s))"
  have "\<forall>i \<in> set (tsync_others ?s2 cur). i < length (ss_tasks ?s2)" by (auto simp: tsync_others_def)
  then show "sec_inv (installed tsync s cur n)" "heap_sub (ss_heap (installed tsync s cur n)) (ss_heap ?s2)"
    using i(1) tsync_fold [OF i(1), of "tsync_others ?s2 cur" "length (ss_heap s)" cur] i(3)
    by (auto simp: installed_def Let_def)
qed

lemma installed_progs:
  assumes "sec_inv s" and "new_filter_ok n" and "cur < length (ss_tasks s)" and j: "j < length (ss_tasks s)"
  shows "task_progs (installed tsync s cur n) j =
    (if j = cur \<or> tsync \<and> j \<in> set (tsync_others s cur) then flt_insns n # task_progs s cur else task_progs s j)"
proof -
  let ?f = "length (ss_heap s)" let ?s2 = "install_filter (fresh_filter s n) cur ?f" let ?s' = "installed tsync s cur n"
  note i2 = install_inv [OF assms(1-3)] and i' = installed_inv [OF assms(1-3), of tsync]
  note wf = sec_invD(1) [OF i2(1)]
  have live: "live_ref (ss_heap ?s') (st_filter (ss_tasks ?s' ! j))"
    by (rule sec_inv_live [OF i'(1)]) (simp add: installed_tasks assms)
  have to2: "task_progs ?s' j = chain_progs (ss_heap ?s2) (st_filter (ss_tasks ?s' ! j))"
    unfolding task_progs_def using heap_sub_progs [OF i'(2) sec_invD(1) [OF i'(1)] wf live] by simp
  have old: "chain_progs (ss_heap ?s2) (st_filter (ss_tasks s ! k)) = task_progs s k" if "k < length (ss_tasks s)" for k
    unfolding task_progs_def
    by (rule heap_sub_progs [OF i2(2) sec_invD(1) [OF assms(1)] wf sec_inv_live [OF assms(1) that]])
  have "chain_progs (ss_heap ?s2) (Some ?f) = flt_insns n # task_progs s cur"
    using chain_Some [OF wf i2(3)] i2(3) old [OF assms(3)] by (simp add: chain_progs_def insns_at_def)
  then show ?thesis
    unfolding to2 using old [OF j] by (auto simp: installed_tasks [OF assms(3)] tsync_task_def)
qed

lemma set_mode_filter_inv:
  assumes "sec_inv s" and "cur < length (ss_tasks s)"
  shows "sec_inv (fst (set_mode_filter env s cur flags uprog))"
  using assms(1)
proof (cases rule: set_mode_filter_cases [of s env cur flags uprog])
  case (set n)
  then show ?thesis using installed_inv(1) [OF assms(1) _ assms(2)] by simp
qed

text \<open>TSYNC goes ahead only if every other live thread's filters are part of the caller's chain.\<close>

lemma tsync_blocker_ok:
  assumes "tsync_blocker_from s head is = 0" and "\<forall>i \<in> set is. st_pid (ss_tasks s ! i) \<noteq> 0" and "i \<in> set is"
  shows "st_mode (ss_tasks s ! i) = SECCOMP_MODE_DISABLED \<or>
    st_mode (ss_tasks s ! i) = SECCOMP_MODE_FILTER \<and> is_ancestor (ss_heap s) (st_filter (ss_tasks s ! i)) head"
  using assms by (induction "is") (auto simp: Let_def split: if_splits)

end
