(* ===== verification/Seccomp_Props.thy ===== *)
theory Seccomp_Props
  imports Seccomp_Inv
begin

text \<open>
  What seccomp promises: the answer of a chain against its specification, the reachable
  states of the machine, and the properties of filtering, of TSYNC and of strict mode.
\<close>

section \<open>What a chain answers\<close>

definition prog_answer :: "u32 list \<Rightarrow> sock_filter list \<Rightarrow> u32" where
  "prog_answer data p = (case bpf_run (length p) p data of Some (BRet v) \<Rightarrow> v | _ \<Rightarrow> SECCOMP_RET_KILL_PROCESS)"

text \<open>
  The specification of a chain's answer: \<open>r\<close> is the answer of the newest program whose
  action nothing in the chain undercuts, and \<open>ALLOW\<close> when every program allows.
\<close>

definition strictest :: "(nat \<Rightarrow> u32) \<Rightarrow> nat list \<Rightarrow> u32 \<times> nat option \<Rightarrow> u32 \<times> nat option \<Rightarrow> bool" where
  "strictest A fs acc res \<longleftrightarrow>
     res = acc \<and> (\<forall>f \<in> set fs. action_of (fst acc) \<le> action_of (A f)) \<or>
     (\<exists>xs f ys. fs = xs @ f # ys \<and> res = (A f, Some f) \<and> action_of (A f) < action_of (fst acc) \<and>
        (\<forall>g \<in> set xs. action_of (A f) < action_of (A g)) \<and> (\<forall>g \<in> set ys. action_of (A f) \<le> action_of (A g)))"

lemma action_of_eq_iff:
  "action_of a = action_of b \<longleftrightarrow> a AND SECCOMP_RET_ACTION_FULL = b AND SECCOMP_RET_ACTION_FULL"
  by (simp only: action_of_def word_eq_iff_signed [where 'a = int])

lemma strictest_Cons:
  assumes "strictest A fs (if action_of (A f) < action_of ret then (A f, Some f) else (ret, match)) res"
  shows "strictest A (f # fs) (ret, match) res"
proof (cases "action_of (A f) < action_of ret")
  case True
  then consider "res = (A f, Some f)" "\<forall>g \<in> set fs. action_of (A f) \<le> action_of (A g)"
    | xs g ys where "fs = xs @ g # ys" "res = (A g, Some g)" "action_of (A g) < action_of (A f)"
        "\<forall>x \<in> set xs. action_of (A g) < action_of (A x)" "\<forall>x \<in> set ys. action_of (A g) \<le> action_of (A x)"
    using assms by (auto simp: strictest_def)
  then show ?thesis
  proof cases
    case 1
    then show ?thesis using True unfolding strictest_def by (intro disjI2 exI [of _ "[]"]) auto
  next
    case (2 xs g ys)
    then show ?thesis using True unfolding strictest_def
      by (intro disjI2 exI [of _ "f # xs"] exI [of _ g] exI [of _ ys]) auto
  qed
next
  case False
  then consider "res = (ret, match)" "\<forall>g \<in> set fs. action_of ret \<le> action_of (A g)"
    | xs g ys where "fs = xs @ g # ys" "res = (A g, Some g)" "action_of (A g) < action_of ret"
        "\<forall>x \<in> set xs. action_of (A g) < action_of (A x)" "\<forall>x \<in> set ys. action_of (A g) \<le> action_of (A x)"
    using assms by (auto simp: strictest_def)
  then show ?thesis
  proof cases
    case 1
    then show ?thesis using False unfolding strictest_def by auto
  next
    case (2 xs g ys)
    then show ?thesis using False unfolding strictest_def
      by (intro disjI2 exI [of _ "f # xs"] exI [of _ g] exI [of _ ys]) auto
  qed
qed

lemma run_chain_strictest:
  assumes "\<forall>f \<in> set fs. bpf_safe (insns_at h f)" and "length data = 16"
  shows "\<exists>res. run_chain h data fs acc = Some res \<and> strictest (\<lambda>f. prog_answer data (insns_at h f)) fs acc res"
  using assms(1)
proof (induction fs arbitrary: acc)
  case Nil
  then show ?case by (simp add: strictest_def)
next
  case (Cons f fs)
  obtain ret match where acc: "acc = (ret, match)" by (cases acc)
  have safe: "bpf_safe (insns_at h f)" using Cons.prems by simp
  then obtain v where v: "bpf_run (length (insns_at h f)) (insns_at h f) data = Some (BRet v)"
    using bpf_safe_returns [OF safe assms(2) order_refl] by (auto simp: bpf_safe_def)
  then have "prog_answer data (insns_at h f) = v" by (simp add: prog_answer_def)
  then show ?case
    using Cons.IH [of "if action_of v < action_of ret then (v, Some f) else (ret, match)"] Cons.prems v
      strictest_Cons [of "\<lambda>f. prog_answer data (insns_at h f)" fs f ret match]
    by (auto simp: acc)
qed

lemma progs_ok_chain:
  "wf_filters h R \<Longrightarrow> progs_ok h \<Longrightarrow> f \<in> set (filter_chain h fo) \<Longrightarrow> bpf_safe (insns_at h f)"
  using chain_live [of h R f fo] by (auto simp: progs_ok_def insns_at_def intro: prog_checked_safe)

lemma run_filters_strictest:
  assumes "sec_inv s" and "st_filter (ss_tasks s ! i) \<noteq> None" and "length data = 16"
  shows "\<exists>res. run_filters (ss_heap s) (st_filter (ss_tasks s ! i)) data = Some res \<and>
    strictest (\<lambda>f. prog_answer data (insns_at (ss_heap s) f)) (filter_chain (ss_heap s) (st_filter (ss_tasks s ! i)))
      (SECCOMP_RET_ALLOW, None) res"
  using run_chain_strictest [OF _ assms(3)] progs_ok_chain [OF sec_invD(1,2) [OF assms(1)]] assms(2)
  by (auto simp: run_filters_def)

lemma strictest_bound:
  "strictest A fs acc res \<Longrightarrow> f \<in> set fs \<Longrightarrow> action_of (fst res) \<le> action_of (A f)"
  by (fastforce simp: strictest_def)

lemma strictest_acc: "strictest A fs acc res \<Longrightarrow> action_of (fst res) \<le> action_of (fst acc)"
  by (fastforce simp: strictest_def)

text \<open>A longer chain is never laxer: its answer is at most that of any part of it.\<close>

lemma strictest_mono:
  assumes "strictest A fs acc res" and "strictest B gs acc res'" and "A ` set fs \<subseteq> B ` set gs"
  shows "action_of (fst res') \<le> action_of (fst res)"
proof -
  from assms(1) consider "res = acc" | f where "f \<in> set fs" "res = (A f, Some f)"
    unfolding strictest_def by auto
  then show ?thesis
  proof cases
    case 1
    then show ?thesis using strictest_acc [OF assms(2)] by simp
  next
    case (2 f)
    then obtain g where "g \<in> set gs" "B g = A f" using assms(3) by force
    then show ?thesis using strictest_bound [OF assms(2), of g] 2 by simp
  qed
qed

section \<open>Reachable states\<close>

definition sec_init :: "int \<Rightarrow> sec_state" where
  "sec_init pid = \<lparr>ss_heap = [], ss_tasks = [\<lparr>st_pid = pid, st_group = 0, st_exiting = False,
     st_mode = SECCOMP_MODE_DISABLED, st_filter = None, st_nnp = False\<rparr>]\<rparr>"

inductive sec_step :: "sec_state \<Rightarrow> sec_state \<Rightarrow> bool" where
  seccomp: "cur < length (ss_tasks s) \<Longrightarrow> sec_step s (fst (sys_seccomp_guest env s cur op flags uargs))"
| prctl: "cur < length (ss_tasks s) \<Longrightarrow> sec_step s (fst (seccomp_prctl_set env s cur mode uprog))"
| enter: "cur < length (ss_tasks s) \<Longrightarrow> seccomp_syscall_enter s cur c = Some (s', out) \<Longrightarrow> sec_step s s'"
| create: "parent < length (ss_tasks s) \<Longrightarrow> 0 < pid \<Longrightarrow> sec_step s (task_create_seccomp s parent pid grp)"
| no_new_privs: "i < length (ss_tasks s) \<Longrightarrow> sec_step s (set_task s i ((ss_tasks s ! i)\<lparr>st_nnp := True\<rparr>))"
| exit: "i < length (ss_tasks s) \<Longrightarrow> sec_step s (set_task s i ((ss_tasks s ! i)\<lparr>st_exiting := True\<rparr>))"
| free: "i < length (ss_tasks s) \<Longrightarrow> sec_step s (task_free_seccomp s i)"

inductive sec_reachable :: "sec_state \<Rightarrow> bool" where
  init: "0 < pid \<Longrightarrow> sec_reachable (sec_init pid)"
| step: "sec_reachable s \<Longrightarrow> sec_step s s' \<Longrightarrow> sec_reachable s'"

lemma sec_init_inv: "0 < pid \<Longrightarrow> sec_inv (sec_init pid)"
  by (auto simp: sec_inv_def sec_init_def wf_filters_def heap_get_def task_refs_def progs_ok_def task_ok_def)

lemma sys_seccomp_inv:
  assumes "sec_inv s" and "cur < length (ss_tasks s)"
  shows "sec_inv (fst (sys_seccomp_guest env s cur op flags uargs))"
    and "sec_inv (fst (seccomp_prctl_set env s cur mode uprog))"
  using assms set_mode_strict_inv [OF assms] set_mode_filter_inv [OF assms]
  by (auto simp: sys_seccomp_guest_def seccomp_prctl_set_def)

lemma sec_step_inv: "sec_step s s' \<Longrightarrow> sec_inv s \<Longrightarrow> sec_inv s'"
proof (induction rule: sec_step.induct)
  case (no_new_privs i s)
  then show ?case using sec_invD(3) [of s i] by (auto intro!: sec_inv_task simp: task_ok_def)
next
  case (exit i s)
  then show ?case using sec_invD(3) [of s i] by (auto intro!: sec_inv_task simp: task_ok_def)
qed (auto intro: sys_seccomp_inv seccomp_syscall_enter_inv task_create_inv task_free_inv)

lemma sec_reachable_inv: "sec_reachable s \<Longrightarrow> sec_inv s"
  by (induction rule: sec_reachable.induct) (auto intro: sec_init_inv sec_step_inv)


section \<open>Chains only grow\<close>

lemma tsync_others_iff:
  "i \<in> set (tsync_others s cur) \<longleftrightarrow> i < length (ss_tasks s) \<and> i \<noteq> cur \<and>
     st_group (ss_tasks s ! i) = st_group (ss_tasks s ! cur) \<and> \<not> st_exiting (ss_tasks s ! i)"
  by (auto simp: tsync_others_def)

lemma tsync_part:
  assumes "sec_inv s" and "new_filter_ok n" and cur: "cur < length (ss_tasks s)"
    and "tsync_blocker (fresh_filter s n) cur (st_filter (ss_tasks s ! cur)) = 0" and "i \<in> set (tsync_others s cur)"
  shows "\<exists>xs. task_progs s cur = xs @ task_progs s i"
proof -
  let ?t = "ss_tasks s ! i" let ?old = "st_filter (ss_tasks s ! cur)"
  have others: "tsync_others (fresh_filter s n) cur = tsync_others s cur" by (simp add: tsync_others_def)
  have i: "i < length (ss_tasks s)" using assms(5) by (simp add: tsync_others_iff)
  have "\<forall>j \<in> set (tsync_others s cur). st_pid (ss_tasks s ! j) \<noteq> 0"
    using sec_invD(3) [OF assms(1)] by (fastforce simp: tsync_others_iff task_ok_def)
  then have t: "st_mode ?t = SECCOMP_MODE_DISABLED \<or> st_mode ?t = SECCOMP_MODE_FILTER \<and>
      is_ancestor (ss_heap (fresh_filter s n)) (st_filter ?t) ?old"
    using tsync_blocker_ok [of "fresh_filter s n" ?old "tsync_others s cur" i] assms(4,5)
    by (simp add: tsync_blocker_def others)
  have chain: "filter_chain (ss_heap (fresh_filter s n)) ?old = filter_chain (ss_heap s) ?old"
    by (rule heap_sub_chain [OF _ sec_invD(1) [OF assms(1)] fresh_wf(1) [OF assms(1,2)] sec_inv_live [OF assms(1) cur]])
      (simp add: fresh_filter_def heap_sub_alloc)
  show ?thesis
  proof (cases "st_filter ?t")
    case None
    then show ?thesis by (simp add: task_progs_def chain_progs_def)
  next
    case (Some p)
    then have "p \<in> set (filter_chain (ss_heap s) ?old)"
      using t sec_invD(3) [OF assms(1) i] by (auto simp: task_ok_def is_ancestor_def chain)
    from chain_suffix [OF sec_invD(1) [OF assms(1)] this] show ?thesis
      using Some by (auto simp: task_progs_def chain_progs_def)
  qed
qed

lemma set_mode_filter_grows:
  assumes "sec_inv s" and cur: "cur < length (ss_tasks s)" and i: "i < length (ss_tasks s)"
    and s'_def: "s' = fst (set_mode_filter env s cur flags uprog)"
  shows "(\<exists>xs. task_progs s' i = xs @ task_progs s i) \<and>
    (st_mode (ss_tasks s' ! i) = st_mode (ss_tasks s ! i) \<or> st_mode (ss_tasks s' ! i) = SECCOMP_MODE_FILTER)"
  using assms(1)
proof (cases rule: set_mode_filter_cases [of s env cur flags uprog])
  case same
  then show ?thesis using task_progs_sub [OF assms(1) _ _ i, of s'] by (simp add: s'_def)
next
  case (set n)
  let ?ts = "flags AND SECCOMP_FILTER_FLAG_TSYNC \<noteq> 0"
  have s': "s' = installed ?ts s cur n" using set by (simp add: s'_def)
  have "\<exists>xs. task_progs s' i = xs @ task_progs s i"
  proof (cases "i \<noteq> cur \<and> ?ts \<and> i \<in> set (tsync_others s cur)")
    case True
    then obtain xs where "task_progs s cur = xs @ task_progs s i"
      using tsync_part [OF assms(1) set(1) cur] set(4) by blast
    then show ?thesis using True
      by (intro exI [of _ "flt_insns n # xs"]) (simp add: s' installed_progs [OF assms(1) set(1) cur i])
  next
    case False
    then show ?thesis using append_Cons [of "flt_insns n" "[]"]
      by (auto simp: s' installed_progs [OF assms(1) set(1) cur i] simp del: append_Cons
          intro: exI [of _ "[flt_insns n]"] exI [of _ "[]"])
  qed
  then show ?thesis by (auto simp: s' installed_tasks [OF cur] tsync_task_def)
qed

lemma set_mode_filter_length:
  assumes "sec_inv s" and "cur < length (ss_tasks s)"
  shows "length (ss_tasks (fst (set_mode_filter env s cur flags uprog))) = length (ss_tasks s)"
  using assms(1)
proof (cases rule: set_mode_filter_cases [of s env cur flags uprog])
  case (set n)
  then show ?thesis using installed_tasks(1) [OF assms(2)] by simp
qed simp

text \<open>The answer a task's chain gives, and that more programs only make it stricter.\<close>

lemma grown_answer:
  assumes "sec_inv s" and "sec_inv s'" and "length data = 16" and "st_filter (ss_tasks s ! i) \<noteq> None"
    and "st_filter (ss_tasks s' ! i) \<noteq> None" and "task_progs s' i = xs @ task_progs s i"
  shows "\<exists>r m r' m'. run_filters (ss_heap s) (st_filter (ss_tasks s ! i)) data = Some (r, m) \<and>
     run_filters (ss_heap s') (st_filter (ss_tasks s' ! i)) data = Some (r', m') \<and> action_of r' \<le> action_of r"
proof -
  obtain res res' where r: "run_filters (ss_heap s) (st_filter (ss_tasks s ! i)) data = Some res"
      "strictest (\<lambda>f. prog_answer data (insns_at (ss_heap s) f)) (filter_chain (ss_heap s) (st_filter (ss_tasks s ! i)))
        (SECCOMP_RET_ALLOW, None) res"
    and r': "run_filters (ss_heap s') (st_filter (ss_tasks s' ! i)) data = Some res'"
      "strictest (\<lambda>f. prog_answer data (insns_at (ss_heap s') f)) (filter_chain (ss_heap s') (st_filter (ss_tasks s' ! i)))
        (SECCOMP_RET_ALLOW, None) res'"
    using run_filters_strictest [OF assms(1,4,3)] run_filters_strictest [OF assms(2,5,3)] by blast
  have "prog_answer data ` set (task_progs s i) \<subseteq> prog_answer data ` set (task_progs s' i)"
    using assms(6) by (intro image_mono) simp
  then have "action_of (fst res') \<le> action_of (fst res)"
    by (intro strictest_mono [OF r(2) r'(2)]) (simp add: task_progs_def chain_progs_def image_image)
  then show ?thesis using r(1) r'(1) by (cases res; cases res') auto
qed

section \<open>A concrete run\<close>

text \<open>
  Process 1 forks thread 2, sets \<^verbatim>\<open>no_new_privs\<close> and installs, with TSYNC, the program
  \<^verbatim>\<open>RET ERRNO|1\<close> read from guest memory.
\<close>

definition ex_env :: sec_env where
  "ex_env = \<lparr>se_abi = GUEST_ABI_AMD64,
     se_mem = (\<lambda>a n. if a = 0x1000 then Some [1, 0, 0, 0, 0, 0, 0, 0, 0, 0x20, 0, 0, 0, 0, 0, 0]
                     else if a = 0x2000 then Some [6, 0, 0, 0, 1, 0, 5, 0] else None),
     se_sys_admin = False, se_alloc_insns = True, se_alloc_check = True, se_alloc_filter = True\<rparr>"

definition ex_prog :: "sock_filter list" where
  "ex_prog = [\<lparr>sf_code = RET_K, sf_jt = 0, sf_jf = 0, sf_k = 0x00050001\<rparr>]"

definition ex_before :: sec_state where
  "ex_before = \<lparr>ss_heap = [], ss_tasks =
     [\<lparr>st_pid = 1, st_group = 0, st_exiting = False, st_mode = SECCOMP_MODE_DISABLED, st_filter = None, st_nnp = True\<rparr>,
      \<lparr>st_pid = 2, st_group = 0, st_exiting = False, st_mode = SECCOMP_MODE_DISABLED, st_filter = None, st_nnp = True\<rparr>]\<rparr>"

definition ex_after :: sec_state where
  "ex_after = \<lparr>ss_heap = [Some \<lparr>flt_refcount = 2, flt_prev = None, flt_log = False, flt_insns = ex_prog\<rparr>], ss_tasks =
     [\<lparr>st_pid = 1, st_group = 0, st_exiting = False, st_mode = SECCOMP_MODE_FILTER, st_filter = Some 0, st_nnp = True\<rparr>,
      \<lparr>st_pid = 2, st_group = 0, st_exiting = False, st_mode = SECCOMP_MODE_FILTER, st_filter = Some 0, st_nnp = True\<rparr>]\<rparr>"

lemma ex_before_reachable: "sec_reachable ex_before"
proof -
  have 1: "sec_reachable (sec_init 1)" by (rule sec_reachable.init) simp
  let ?s = "set_task (sec_init 1) 0 ((ss_tasks (sec_init 1) ! 0)\<lparr>st_nnp := True\<rparr>)"
  have 2: "sec_reachable ?s"
    by (rule sec_reachable.step [OF 1 sec_step.no_new_privs]) (simp add: sec_init_def)
  have "sec_reachable (task_create_seccomp ?s 0 2 0)"
    by (rule sec_reachable.step [OF 2 sec_step.create]) (simp_all add: sec_init_def set_task_def)
  then show ?thesis
    by (simp add: ex_before_def task_create_seccomp_def sec_init_def set_task_def seccomp_filter_retain_def)
qed

lemma ex_prepare:
  "prepare_user_filter ex_env ex_before 0 0x1000 False =
     Inr (ex_before\<lparr>ss_heap := [Some \<lparr>flt_refcount = 1, flt_prev = None, flt_log = False, flt_insns = ex_prog\<rparr>]\<rparr>, 0)"
  by (simp add: prepare_user_filter_def read_fprog_def ex_env_def guest_abi_is_64bit_def le_at_def ex_before_def
      decode_insns_def decode_insn_def ex_prog_def bpf_check_def bpf_insn_ok_def bpf_code_allowed_def
      filter_new_def heap_alloc_def bpf_is_cond_jump_def Let_def)

lemma ex_install: "sys_seccomp_guest ex_env ex_before 0 1 1 0x1000 = (ex_after, Inr 0)"
  using ex_prepare
  by (simp add: sys_seccomp_guest_def set_mode_filter_def may_assign_mode_def tsync_blocker_def tsync_others_def
      ex_before_def SECCOMP_FILTER_FLAGS_KNOWN_def
      path_insns_def filter_chain_def insns_at_def heap_get_def ex_prog_def install_filter_def tsync_one_def
      set_prev_def seccomp_filter_retain_def heap_put_def ex_after_def Let_def)

section \<open>Properties\<close>

lemma ex_after_reachable: "sec_reachable ex_after"
  using sec_reachable.step [OF ex_before_reachable sec_step.seccomp [of 0 _ ex_env 1 1 "0x1000"]] ex_install
  by (simp add: ex_before_def)

text \<open>
  C3 (invariant). In every reachable state the filter heap is memory safe: a live filter's
  count is exactly the number of tasks and of newer filters that point at it and never zero,
  and no task and no filter points at a freed one, so nothing leaks and nothing is used
  after it is freed.
\<close>

theorem seccomp_memory_safe:
  assumes "sec_reachable s"
  shows "(\<forall>f n. heap_get (ss_heap s) f = Some n \<longrightarrow>
       flt_refcount n = task_refs (ss_tasks s) f + prev_refs (ss_heap s) f \<and> 0 < flt_refcount n \<and>
       live_ref (ss_heap s) (flt_prev n)) \<and>
     (\<forall>i < length (ss_tasks s). live_ref (ss_heap s) (st_filter (ss_tasks s ! i)))"
proof -
  note inv = sec_reachable_inv [OF assms]
  note D = wf_filtersD [OF sec_invD(1) [OF inv]]
  have "live_ref (ss_heap s) (flt_prev n)" if "heap_get (ss_heap s) f = Some n" for f n
    using D(3) [OF that] by (cases "flt_prev n") auto
  then show ?thesis using D(1,2) sec_inv_live [OF inv] by fastforce
qed

theorem seccomp_memory_safe_witness:
  "sec_reachable ex_after \<and> live_ref (ss_heap ex_after) (Some 0) \<and> task_refs (ss_tasks ex_after) 0 = 2 \<and>
   2 = task_refs (ss_tasks ex_after) 0 + prev_refs (ss_heap ex_after) 0"
  using ex_after_reachable seccomp_memory_safe [OF ex_after_reachable]
  by (simp add: ex_after_def heap_get_def task_refs_def prev_refs_def)

text \<open>
  C6 (functional, termination). A filtered task's chain always gives an answer, and it is
  the most restrictive one, compared as signed numbers: the answer of the newest program
  whose action no other program of the chain undercuts, or \<open>ALLOW\<close> when all allow.
\<close>

theorem run_filters_most_restrictive:
  assumes "sec_reachable s" and "st_filter (ss_tasks s ! i) \<noteq> None" and "length data = 16"
  shows "\<exists>res. run_filters (ss_heap s) (st_filter (ss_tasks s ! i)) data = Some res \<and>
    strictest (\<lambda>f. prog_answer data (insns_at (ss_heap s) f))
      (filter_chain (ss_heap s) (st_filter (ss_tasks s ! i))) (SECCOMP_RET_ALLOW, None) res"
  by (rule run_filters_strictest [OF sec_reachable_inv [OF assms(1)] assms(2,3)])

theorem run_filters_most_restrictive_witness:
  "sec_reachable ex_after \<and> (\<exists>res. run_filters (ss_heap ex_after) (Some 0) (replicate 16 0) = Some res \<and>
     strictest (\<lambda>f. prog_answer (replicate 16 0) (insns_at (ss_heap ex_after) f))
       (filter_chain (ss_heap ex_after) (Some 0)) (SECCOMP_RET_ALLOW, None) res)"
proof -
  have "st_filter (ss_tasks ex_after ! 0) = Some 0" by (simp add: ex_after_def)
  then show ?thesis
    using ex_after_reachable run_filters_most_restrictive [OF ex_after_reachable, of 0 "replicate 16 0"] by simp
qed

text \<open>
  C2 (safety). The check at system call entry always decides, and a filtered task's call
  goes ahead only if no program of its chain answers below \<open>LOG\<close> (below \<open>TRACE\<close> on the
  second look after a tracer's stop); when every program allows, it does go ahead.
\<close>

theorem seccomp_enter_safe:
  assumes "sec_reachable s" and "cur < length (ss_tasks s)" and "st_mode (ss_tasks s ! cur) = SECCOMP_MODE_FILTER"
    and "length (sc_args c) = 6"
  shows "\<exists>s' out. seccomp_syscall_enter s cur c = Some (s', out) \<and>
    (so_verdict out = SECCOMP_RUN \<longrightarrow> (\<forall>p \<in> set (task_progs s cur).
       action_of (if sc_recheck c then SECCOMP_RET_TRACE else SECCOMP_RET_LOG) \<le> action_of (prog_answer (seccomp_data c) p))) \<and>
    ((\<forall>p \<in> set (task_progs s cur). action_of (prog_answer (seccomp_data c) p) = action_of SECCOMP_RET_ALLOW) \<longrightarrow>
       so_verdict out = SECCOMP_RUN)"
proof -
  note inv = sec_reachable_inv [OF assms(1)]
  let ?fo = "st_filter (ss_tasks s ! cur)" let ?A = "\<lambda>f. prog_answer (seccomp_data c) (insns_at (ss_heap s) f)"
  have fo: "?fo \<noteq> None" using sec_invD(3) [OF inv assms(2)] assms(3) by (simp add: task_ok_def)
  have "length (arg_words b xs) = 2 * length xs" for b xs by (induction xs) (auto simp: Let_def)
  then have "length (seccomp_data c) = 16" using assms(4) by (simp add: seccomp_data_def)
  then obtain r m where r: "run_filters (ss_heap s) ?fo (seccomp_data c) = Some (r, m)"
      "strictest ?A (filter_chain (ss_heap s) ?fo) (SECCOMP_RET_ALLOW, None) (r, m)"
    using run_filters_strictest [OF inv fo] by fast
  let ?lg = "case m of None \<Rightarrow> False | Some f \<Rightarrow> (case heap_get (ss_heap s) f of None \<Rightarrow> False | Some n \<Rightarrow> flt_log n)"
  obtain s' out where act: "seccomp_act s cur c r ?lg = (s', out)" by fastforce
  then have out: "seccomp_syscall_enter s cur c = Some (s', out)" "(s', out) = seccomp_act s cur c r ?lg"
    using assms(3) r(1) by (simp_all add: seccomp_syscall_enter_def Let_def)
  have "so_verdict out = SECCOMP_RUN \<Longrightarrow> action_of (if sc_recheck c then SECCOMP_RET_TRACE else SECCOMP_RET_LOG) \<le> action_of r"
    using out(2) by (auto simp: seccomp_act_def seccomp_kill_def sec_verdict_def Let_def action_of_def
        split: if_splits prod.splits)
  moreover have "action_of r = action_of SECCOMP_RET_ALLOW \<Longrightarrow> so_verdict out = SECCOMP_RUN"
    using out(2) by (simp add: action_of_eq_iff seccomp_act_def sec_verdict_def)
  moreover have "(\<forall>p \<in> set (task_progs s cur). action_of (prog_answer (seccomp_data c) p) = action_of SECCOMP_RET_ALLOW)
      \<Longrightarrow> action_of r = action_of SECCOMP_RET_ALLOW"
    using r(2) by (auto simp: strictest_def task_progs_def chain_progs_def)
  ultimately show ?thesis
    using out(1) strictest_bound [OF r(2)] by (fastforce simp: task_progs_def chain_progs_def)
qed

definition ex_call :: sec_call where
  "ex_call = \<lparr>sc_abi = GUEST_ABI_AMD64, sc_nr = 39, sc_args = replicate 6 0, sc_ip = 0x400000,
     sc_recheck = False, sc_traced = False, sc_dies_in_stop = False\<rparr>"

theorem seccomp_enter_safe_witness:
  "\<exists>s' out. seccomp_syscall_enter ex_after 0 ex_call = Some (s', out) \<and> so_verdict out \<noteq> SECCOMP_RUN"
proof -
  have p: "task_progs ex_after 0 = [ex_prog]"
    by (simp add: task_progs_def chain_progs_def ex_after_def filter_chain_def heap_get_def insns_at_def)
  have "prog_answer (seccomp_data ex_call) ex_prog = 0x00050001"
    by (simp add: prog_answer_def ex_prog_def bpf_run_def bpf_start_def bpf_step_def Let_def)
  then have "action_of (prog_answer (seccomp_data ex_call) ex_prog) < action_of SECCOMP_RET_LOG"
    by (simp add: action_of_def)
  then show ?thesis
    using seccomp_enter_safe [OF ex_after_reachable, of 0 ex_call] p
    by (fastforce simp: ex_call_def ex_after_def)
qed

text \<open>
  C1 (safety). Installing filters never weakens anybody's policy: whatever one thread asks
  of \<^verbatim>\<open>seccomp\<close> or \<^verbatim>\<open>prctl\<close>, TSYNC included, every filtered task stays filtered and its chain's
  answer to any call is at least as restrictive as before.
\<close>

theorem seccomp_never_weaker:
  assumes "sec_reachable s" and cur: "cur < length (ss_tasks s)" and i: "i < length (ss_tasks s)"
    and "st_mode (ss_tasks s ! i) = SECCOMP_MODE_FILTER" and "length data = 16"
    and s': "s' = fst (sys_seccomp_guest env s cur op flags uargs) \<or> s' = fst (seccomp_prctl_set env s cur mode uargs)"
  shows "st_mode (ss_tasks s' ! i) = SECCOMP_MODE_FILTER \<and>
    (\<exists>r m r' m'. run_filters (ss_heap s) (st_filter (ss_tasks s ! i)) data = Some (r, m) \<and>
      run_filters (ss_heap s') (st_filter (ss_tasks s' ! i)) data = Some (r', m') \<and> action_of r' \<le> action_of r)"
proof -
  note inv = sec_reachable_inv [OF assms(1)]
  have inv': "sec_inv s'" using s' sys_seccomp_inv [OF inv cur] by blast
  consider "s' = fst (set_mode_filter env s cur flags uargs)" | "s' = fst (set_mode_filter env s cur 0 uargs)"
    | "s' = s" | "s' = fst (set_mode_strict s cur)"
    using s' by (auto simp: sys_seccomp_guest_def seccomp_prctl_set_def split: if_splits)
  then have grow: "(\<exists>xs. task_progs s' i = xs @ task_progs s i) \<and> st_mode (ss_tasks s' ! i) = SECCOMP_MODE_FILTER \<and>
      length (ss_tasks s') = length (ss_tasks s)"
  proof cases
    case 4
    then show ?thesis using assms(4) i
      by (cases "i = cur") (auto simp: set_mode_strict_def may_assign_mode_def set_mode_def set_task_def task_progs_def nth_list_update)
  qed (use set_mode_filter_grows [OF inv cur i] set_mode_filter_length [OF inv cur] assms(4) in auto)
  then have "st_filter (ss_tasks s' ! i) \<noteq> None" "st_filter (ss_tasks s ! i) \<noteq> None"
    using sec_invD(3) [OF inv i] sec_invD(3) [OF inv', of i] assms(4) i by (auto simp: task_ok_def)
  then show ?thesis using grow grown_answer [OF inv inv' assms(5)] by blast
qed

theorem seccomp_never_weaker_witness:
  "\<exists>r m r' m'. run_filters (ss_heap ex_after) (Some 0) (replicate 16 0) = Some (r, m) \<and>
     run_filters (ss_heap (fst (sys_seccomp_guest ex_env ex_after 0 1 0 0x1000)))
       (st_filter (ss_tasks (fst (sys_seccomp_guest ex_env ex_after 0 1 0 0x1000)) ! 0)) (replicate 16 0) = Some (r', m') \<and>
     action_of r' \<le> action_of r"
  using seccomp_never_weaker [OF ex_after_reachable, of 0 0 "replicate 16 0" _ ex_env 1 0 "0x1000"]
  by (simp add: ex_after_def)

text \<open>
  A successful TSYNC leaves every live thread of the caller's process in
  filter mode with the very chain of the caller, the new program in front of the caller's
  old ones, and with \<^verbatim>\<open>no_new_privs\<close> set if the caller has it.
\<close>

theorem seccomp_tsync_shares:
  assumes "sec_reachable s" and cur: "cur < length (ss_tasks s)"
    and ok: "sys_seccomp_guest env s cur 1 flags uprog = (s', Inr 0)"
    and ts: "flags AND SECCOMP_FILTER_FLAG_TSYNC \<noteq> 0" and i: "i < length (ss_tasks s)"
    and "st_group (ss_tasks s ! i) = st_group (ss_tasks s ! cur)" and "i = cur \<or> \<not> st_exiting (ss_tasks s ! i)"
  shows "st_mode (ss_tasks s' ! i) = SECCOMP_MODE_FILTER \<and> st_filter (ss_tasks s' ! i) = st_filter (ss_tasks s' ! cur) \<and>
    (\<exists>p. bpf_safe p \<and> task_progs s' i = p # task_progs s cur) \<and>
    (st_nnp (ss_tasks s ! cur) \<longrightarrow> st_nnp (ss_tasks s' ! i))"
proof -
  note inv = sec_reachable_inv [OF assms(1)]
  have "set_mode_filter env s cur flags uprog = (s', Inr 0)" using ok by (simp add: sys_seccomp_guest_def)
  with ts have "\<exists>n. new_filter_ok n \<and> s' = installed True s cur n"
    by (cases rule: set_mode_filter_cases [OF inv, of env cur flags uprog]) auto
  then obtain n where n: "new_filter_ok n" "s' = installed True s cur n" by blast
  have "i = cur \<or> i \<in> set (tsync_others s cur)" using assms(6,7) i by (auto simp: tsync_others_iff)
  then show ?thesis
    using n(1) by (auto simp: n(2) installed_tasks [OF cur] installed_progs [OF inv n(1) cur i] tsync_task_def new_filter_ok_def
        intro: prog_checked_safe)
qed

theorem seccomp_tsync_shares_witness:
  "st_filter (ss_tasks ex_after ! 1) = st_filter (ss_tasks ex_after ! 0) \<and>
   (\<exists>p. bpf_safe p \<and> task_progs ex_after 1 = p # task_progs ex_before 0)"
  using seccomp_tsync_shares [OF ex_before_reachable _ ex_install, of 1] by (simp add: ex_before_def)



end
