(* ===== verification/Seccomp_Ckpt.thy ===== *)
theory Seccomp_Ckpt
  imports Seccomp_Props
begin

text \<open>
  The checkpoint's export and import of a chain. \<open>import_inv X st\<close> is the state of a restore:
  every filter's count is the references the restored tasks hold (\<open>X\<close>), the table of the
  filters seen so far holds, and newer filters hold.
\<close>

definition import_refs :: "(nat \<Rightarrow> nat) \<Rightarrow> import_state \<Rightarrow> nat \<Rightarrow> nat" where
  "import_refs X st f = X f + count_list (im_seen st) f"

lemma import_refs_heap [simp]: "import_refs X (st\<lparr>im_heap := h\<rparr>) = import_refs X st"
  by (simp add: import_refs_def fun_eq_iff)

definition import_inv :: "(nat \<Rightarrow> nat) \<Rightarrow> import_state \<Rightarrow> bool" where
  "import_inv X st \<longleftrightarrow> wf_filters (im_heap st) (import_refs X st) \<and> progs_ok (im_heap st)"

definition prog_of :: "seccomp_filter heap \<Rightarrow> nat \<Rightarrow> seccomp_ckpt_prog" where
  "prog_of h f = (case heap_get h f of None \<Rightarrow> \<lparr>cp_log = False, cp_insns = []\<rparr>
     | Some x \<Rightarrow> \<lparr>cp_log = flt_log x, cp_insns = flt_insns x\<rparr>)"

definition chain_export :: "seccomp_filter heap \<Rightarrow> nat option \<Rightarrow> seccomp_ckpt_prog list" where
  "chain_export h fo = rev (map (prog_of h) (filter_chain h fo))"

lemma ckpt_export_eq:
  "seccomp_ckpt_export h fo (Some mx) =
     (length (chain_export h fo), if length (chain_export h fo) > mx then None else Some (chain_export h fo))"
  unfolding seccomp_ckpt_export_def seccomp_filter_count_def chain_export_def prog_of_def
  by (simp add: Let_def)

lemma heap_sub_export:
  assumes "heap_sub h h'" and "wf_filters h R" and "wf_filters h' R'" and "live_ref h fo"
  shows "chain_export h' fo = chain_export h fo"
proof -
  have "prog_of h' f = prog_of h f" if "f \<in> set (filter_chain h fo)" for f
    using chain_live [OF assms(2) that] assms(1) by (fastforce simp: heap_sub_def prog_of_def)
  then show ?thesis by (simp add: chain_export_def heap_sub_chain [OF assms])
qed

lemma chain_export_Some:
  "wf_filters h R \<Longrightarrow> heap_get h f = Some n \<Longrightarrow>
     chain_export h (Some f) = chain_export h (flt_prev n) @ [\<lparr>cp_log = flt_log n, cp_insns = flt_insns n\<rparr>]"
  by (simp add: chain_export_def chain_Some prog_of_def)

lemma chain_export_checked:
  assumes "wf_filters h R" and "progs_ok h" and "p \<in> set (chain_export h fo)"
  shows "prog_checked (cp_insns p)"
proof -
  obtain f where f: "f \<in> set (filter_chain h fo)" "p = prog_of h f" using assms(3) by (auto simp: chain_export_def)
  then show ?thesis using chain_live [OF assms(1) f(1)] assms(2) by (auto simp: prog_of_def progs_ok_def)
qed

section \<open>One program\<close>

text \<open>The two ways a checked program goes onto the chain \<open>head\<close>.\<close>

definition import_same :: "import_state \<Rightarrow> nat option \<Rightarrow> nat \<Rightarrow> import_state" where
  "import_same st head same =
     st\<lparr>im_heap := seccomp_filter_release (seccomp_filter_retain (im_heap st) (Some same)) head\<rparr>"

definition import_new :: "bool \<Rightarrow> import_state \<Rightarrow> nat option \<Rightarrow> seccomp_ckpt_prog \<Rightarrow> import_state" where
  "import_new grow st head p =
     import_remember grow (st\<lparr>im_heap := set_prev (fst (heap_alloc (im_heap st)
       \<lparr>flt_refcount = 1, flt_prev = None, flt_log = cp_log p, flt_insns = cp_insns p\<rparr>)) (length (im_heap st)) head\<rparr>)
       (length (im_heap st))"

lemma import_Cons:
  assumes "prog_checked (cp_insns p)" and "alloc (length ps)" and "calloc (length ps)"
  shows "seccomp_ckpt_import alloc calloc grow st head (p # ps) =
    (case import_find st head p of
       Some same \<Rightarrow> seccomp_ckpt_import alloc calloc grow (import_same st head same) (Some same) ps
     | None \<Rightarrow> seccomp_ckpt_import alloc calloc grow (import_new (grow (length ps)) st head p) (Some (length (im_heap st))) ps)"
  using assms
  by (simp add: prog_checked_def Let_def import_same_def import_new_def filter_new_def heap_alloc_def
      split: option.splits)

lemma import_find_Some:
  assumes "import_find st head p = Some f"
  shows "f \<in> set (im_seen st)"
    and "\<exists>n. heap_get (im_heap st) f = Some n \<and> flt_prev n = head \<and> flt_log n = cp_log p \<and> flt_insns n = cp_insns p"
  using assms by (auto simp: import_find_def find_Some_iff split: option.splits)

text \<open>Both keep the counts right, hand over the reference to \<open>head\<close>, and append the program.\<close>

lemma import_same_ok:
  assumes "import_inv (\<lambda>f. X f + ref1 head f) st" and "import_find st head p = Some same"
  shows "import_inv (\<lambda>f. X f + ref1 (Some same) f) (import_same st head same)"
    and "chain_export (im_heap (import_same st head same)) (Some same) = chain_export (im_heap st) head @ [p]"
proof -
  let ?h = "im_heap st" let ?h1 = "seccomp_filter_retain ?h (Some same)" let ?h2 = "seccomp_filter_release ?h1 head"
  let ?R = "import_refs (\<lambda>f. X f + ref1 (Some same) f) st"
  obtain n where n: "heap_get ?h same = Some n" "flt_prev n = head" "flt_log n = cp_log p" "flt_insns n = cp_insns p"
    using import_find_Some(2) [OF assms(2)] by blast
  have wf: "wf_filters ?h (import_refs (\<lambda>f. X f + ref1 head f) st)" and ok: "progs_ok ?h"
    using assms(1) by (auto simp: import_inv_def)
  have "wf_filters ?h1 (\<lambda>f. ?R f + ref1 head f)"
    by (rule wf_filters_cong [OF wf_retain [OF wf]]) (use n in \<open>auto simp: import_refs_def\<close>)
  then have wf2: "wf_filters ?h2 ?R" by (rule wf_release)
  have sub: "heap_sub ?h2 ?h" by (rule heap_sub_trans [OF heap_sub_release heap_sub_retain(1)])
  show "import_inv (\<lambda>f. X f + ref1 (Some same) f) (import_same st head same)"
    using wf2 progs_ok_sub [OF sub ok] by (simp add: import_inv_def import_same_def)
  have "live_ref ?h2 (Some same)" using wf_filtersD(4) [OF wf2, of same] by (auto simp: import_refs_def)
  moreover have "chain_export ?h (Some same) = chain_export ?h head @ [p]"
    using chain_export_Some [OF wf n(1)] n by (cases p) simp
  ultimately show "chain_export (im_heap (import_same st head same)) (Some same) = chain_export ?h head @ [p]"
    using heap_sub_export [OF sub wf2 wf] by (simp add: import_same_def)
qed

lemma import_new_ok:
  assumes "import_inv (\<lambda>f. X f + ref1 head f) st" and "prog_checked (cp_insns p)" and "live_ref (im_heap st) head"
  defines "f \<equiv> length (im_heap st)"
  shows "import_inv (\<lambda>q. X q + ref1 (Some f) q) (import_new grow st head p)"
    and "chain_export (im_heap (import_new grow st head p)) (Some f) = chain_export (im_heap st) head @ [p]"
    and "heap_sub (im_heap st) (im_heap (import_new grow st head p))"
proof -
  let ?n = "\<lparr>flt_refcount = 1, flt_prev = None, flt_log = cp_log p, flt_insns = cp_insns p\<rparr>"
  let ?h = "im_heap st" let ?h1 = "fst (heap_alloc ?h ?n)" let ?h2 = "set_prev ?h1 f head"
  let ?X = "\<lambda>q. X q + ref1 (Some f) q" let ?st2 = "st\<lparr>im_heap := ?h2\<rparr>"
  have wf: "wf_filters ?h (import_refs (\<lambda>f. X f + ref1 head f) st)" and ok: "progs_ok ?h"
    using assms(1) by (auto simp: import_inv_def)
  have n1: "heap_get ?h1 f = Some ?n" by (simp add: heap_get_alloc f_def)
  have "wf_filters ?h1 (\<lambda>q. import_refs ?X st q + ref1 head q)"
    by (rule wf_filters_cong [OF wf_alloc [OF wf]]) (auto simp: import_refs_def f_def)
  then have wf2: "wf_filters ?h2 (import_refs ?X st)"
    by (rule wf_set_prev [OF _ n1]) (use assms(3) heap_get_less in \<open>auto simp: f_def\<close>)
  have n2: "heap_get ?h2 f = Some (?n\<lparr>flt_prev := head\<rparr>)" using n1 by (simp add: set_prev_def)
  have sub: "heap_sub ?h ?h2"
    using n1 by (auto simp: heap_sub_def set_prev_def heap_get_alloc f_def dest: heap_get_less)
  have ok2: "progs_ok ?h2"
    using ok n1 assms(2) by (auto simp: progs_ok_def set_prev_def heap_get_alloc split: if_splits)
  have new: "import_new grow st head p = import_remember grow ?st2 f" by (simp add: import_new_def f_def)
  have wf3: "wf_filters (im_heap (import_new grow st head p)) (import_refs ?X (import_new grow st head p))"
    unfolding new import_remember_def using wf2 wf_retain [OF wf2, of "Some f"] n2
    by (auto simp: import_refs_def elim!: wf_filters_cong)
  have sub3: "heap_sub ?h2 (im_heap (import_new grow st head p))" "heap_sub (im_heap (import_new grow st head p)) ?h2"
    by (simp_all add: new import_remember_def heap_sub_retain)
  show "import_inv ?X (import_new grow st head p)"
    using wf3 progs_ok_sub [OF sub3(2) ok2] by (simp add: import_inv_def)
  show "heap_sub ?h (im_heap (import_new grow st head p))" by (rule heap_sub_trans [OF sub sub3(1)])
  show "chain_export (im_heap (import_new grow st head p)) (Some f) = chain_export ?h head @ [p]"
    using heap_sub_export [OF sub3(1) wf2 wf3, of "Some f"] chain_export_Some [OF wf2 n2] n2
      heap_sub_export [OF sub wf wf2 assms(3)] by simp
qed

lemma import_all:
  assumes "import_inv (\<lambda>f. X f + ref1 head f) st" and "\<forall>p \<in> set ps. prog_checked (cp_insns p)"
    and "\<And>i. alloc i" and "\<And>i. calloc i"
  shows "\<exists>st' head'. seccomp_ckpt_import alloc calloc grow st head ps = (st', head') \<and>
    import_inv (\<lambda>f. X f + ref1 head' f) st' \<and> chain_export (im_heap st') head' = chain_export (im_heap st) head @ ps"
  using assms(1,2)
proof (induction ps arbitrary: st head)
  case (Cons p ps)
  then have p: "prog_checked (cp_insns p)" by simp
  have live: "live_ref (im_heap st) head"
    using wf_filtersD(4) [of "im_heap st"] Cons.prems(1) by (cases head) (fastforce simp: import_inv_def import_refs_def)+
  show ?case
  proof (cases "import_find st head p")
    case None
    note new = import_new_ok [OF Cons.prems(1) p live, of "grow (length ps)"]
    show ?thesis using Cons.IH [OF new(1)] Cons.prems(2) None new(2)
      by (auto simp: import_Cons [where alloc = alloc and calloc = calloc, OF p assms(3,4)]
          simp del: seccomp_ckpt_import.simps(2))
  next
    case (Some same)
    note same = import_same_ok [OF Cons.prems(1) Some]
    show ?thesis using Cons.IH [OF same(1)] Cons.prems(2) Some same(2)
      by (auto simp: import_Cons [where alloc = alloc and calloc = calloc, OF p assms(3,4)]
          simp del: seccomp_ckpt_import.simps(2))
  qed
qed simp

section \<open>Sharing\<close>

text \<open>
  The filters an import of \<open>ps\<close> on \<open>head\<close> would find in the table, if it finds them all.
\<close>

fun import_path :: "import_state \<Rightarrow> nat option \<Rightarrow> seccomp_ckpt_prog list \<Rightarrow> nat option option" where
  "import_path st head [] = Some head"
| "import_path st head (p # ps) =
     (case import_find st head p of None \<Rightarrow> None | Some f \<Rightarrow> import_path st (Some f) ps)"

text \<open>The table only grows, and what it holds stays as it is.\<close>

definition seen_kept :: "import_state \<Rightarrow> import_state \<Rightarrow> bool" where
  "seen_kept st st' \<longleftrightarrow> (\<exists>xs. im_seen st' = im_seen st @ xs) \<and>
     (\<forall>f \<in> set (im_seen st). \<exists>n m. heap_get (im_heap st) f = Some n \<and> heap_get (im_heap st') f = Some m \<and>
        flt_prev m = flt_prev n \<and> flt_log m = flt_log n \<and> flt_insns m = flt_insns n)"

lemma seen_kept_trans:
  assumes "seen_kept a b" and "seen_kept b c" shows "seen_kept a c"
proof -
  obtain xs ys where xs: "im_seen b = im_seen a @ xs" "im_seen c = im_seen b @ ys"
    using assms by (auto simp: seen_kept_def)
  have "\<exists>n m. heap_get (im_heap a) f = Some n \<and> heap_get (im_heap c) f = Some m \<and> flt_prev m = flt_prev n \<and>
      flt_log m = flt_log n \<and> flt_insns m = flt_insns n" if f: "f \<in> set (im_seen a)" for f
  proof -
    have "f \<in> set (im_seen b)" using f xs by simp
    then show ?thesis using assms f unfolding seen_kept_def by (metis option.inject)
  qed
  then show ?thesis using xs by (simp add: seen_kept_def)
qed

lemma import_find_kept:
  assumes "seen_kept st st'" and "import_find st head p = Some f" shows "import_find st' head p = Some f"
proof -
  let ?P = "\<lambda>st f. case heap_get (im_heap st) f of None \<Rightarrow> False
        | Some n \<Rightarrow> flt_prev n = head \<and> flt_log n = cp_log p \<and> flt_insns n = cp_insns p"
  obtain xs where xs: "im_seen st' = im_seen st @ xs" using assms(1) by (auto simp: seen_kept_def)
  have "find (?P st') ys = find (?P st) ys" if "set ys \<subseteq> set (im_seen st)" for ys
    using that
  proof (induction ys)
    case (Cons y ys)
    then have "?P st' y = ?P st y" using assms(1) unfolding seen_kept_def by fastforce
    then show ?case using Cons by simp
  qed simp
  moreover have "find P (ys @ zs) = (case find P ys of None \<Rightarrow> find P zs | Some y \<Rightarrow> Some y)" for P :: "nat \<Rightarrow> bool" and ys zs
    by (induction ys) auto
  ultimately show ?thesis using assms(2) unfolding import_find_def xs by auto
qed

lemma import_path_kept: "seen_kept st st' \<Longrightarrow> import_path st head ps = Some h \<Longrightarrow> import_path st' head ps = Some h"
  by (induction ps arbitrary: head) (auto simp: import_find_kept split: option.splits)

lemma import_inv_seen: "import_inv X st \<Longrightarrow> f \<in> set (im_seen st) \<Longrightarrow> \<exists>n. heap_get (im_heap st) f = Some n"
  using wf_filtersD(4) [of "im_heap st" "import_refs X st" f]
  by (auto simp: import_inv_def import_refs_def count_list_0_iff neq0_conv [symmetric] simp del: neq0_conv)

lemma import_same_kept:
  assumes "import_inv (\<lambda>f. X f + ref1 head f) st" and "import_find st head p = Some same"
  shows "seen_kept st (import_same st head same)"
proof -
  note inv = import_same_ok(1) [OF assms]
  have sub: "heap_sub (im_heap (import_same st head same)) (im_heap st)"
    unfolding import_same_def using heap_sub_trans [OF heap_sub_release heap_sub_retain(1)] by simp
  have "im_seen (import_same st head same) = im_seen st" by (simp add: import_same_def)
  then show ?thesis
    using import_inv_seen [OF inv] sub unfolding seen_kept_def heap_sub_def by fastforce
qed

lemma import_new_kept:
  assumes "import_inv (\<lambda>f. X f + ref1 head f) st" and "prog_checked (cp_insns p)" and "live_ref (im_heap st) head"
  shows "seen_kept st (import_new grow st head p)"
  using import_new_ok(3) [OF assms, of grow] import_inv_seen [OF assms(1)]
  by (fastforce simp: seen_kept_def heap_sub_def import_new_def import_remember_def)

lemma import_new_found:
  assumes "import_inv (\<lambda>f. X f + ref1 head f) st" and "prog_checked (cp_insns p)" and "live_ref (im_heap st) head"
    and "import_find st head p = None"
  shows "import_find (import_new True st head p) head p = Some (length (im_heap st))"
proof -
  let ?P = "\<lambda>st f. case heap_get (im_heap st) f of None \<Rightarrow> False
        | Some n \<Rightarrow> flt_prev n = head \<and> flt_log n = cp_log p \<and> flt_insns n = cp_insns p"
  let ?st = "import_new True st head p" let ?f = "length (im_heap st)"
  have seen: "im_seen ?st = im_seen st @ [?f]" by (simp add: import_new_def import_remember_def)
  have new: "?P ?st ?f"
    by (simp add: import_new_def import_remember_def seccomp_filter_retain_def set_prev_def heap_get_alloc)
  have "\<not> ?P ?st g" if "g \<in> set (im_seen st)" for g
    using that assms(4) import_new_kept [OF assms(1-3), of True] unfolding seen_kept_def import_find_def find_None_iff
    by fastforce
  then have "find (?P ?st) (ys @ [?f]) = Some ?f" if "set ys \<subseteq> set (im_seen st)" for ys
    using that new by (induction ys) auto
  then show ?thesis unfolding import_find_def seen by simp
qed

lemma import_live: "import_inv (\<lambda>f. X f + ref1 head f) st \<Longrightarrow> live_ref (im_heap st) head"
  using wf_filtersD(4) [of "im_heap st"] by (cases head) (fastforce simp: import_inv_def import_refs_def)+

abbreviation always :: "nat \<Rightarrow> bool" where "always \<equiv> \<lambda>_. True"

lemma import_records:
  assumes "import_inv (\<lambda>f. X f + ref1 head f) st" and "\<forall>p \<in> set ps. prog_checked (cp_insns p)"
    and "seccomp_ckpt_import always always always st head ps = (st', head')"
  shows "seen_kept st st' \<and> import_path st' head ps = Some head'"
  using assms
proof (induction ps arbitrary: st head)
  case Nil
  then show ?case using import_inv_seen by (fastforce simp: seen_kept_def)
next
  case (Cons p ps)
  note imp = import_Cons [where alloc = always and calloc = always and grow = always and st = st and head = head and ps = ps]
  have p: "prog_checked (cp_insns p)" using Cons.prems by simp
  note live = import_live [OF Cons.prems(1)]
  show ?case
  proof (cases "import_find st head p")
    case None
    let ?st = "import_new True st head p"
    have "seen_kept ?st st' \<and> import_path st' (Some (length (im_heap st))) ps = Some head'"
      using Cons.IH [OF import_new_ok(1) [OF Cons.prems(1) p live]] Cons.prems(2,3) None imp [OF p] by simp
    then show ?thesis
      using seen_kept_trans [OF import_new_kept [OF Cons.prems(1) p live]]
        import_find_kept [OF _ import_new_found [OF Cons.prems(1) p live None]] by auto
  next
    case (Some same)
    then have "seen_kept (import_same st head same) st' \<and> import_path st' (Some same) ps = Some head'"
      using Cons.IH [OF import_same_ok(1) [OF Cons.prems(1) Some]] Cons.prems(2,3) imp [OF p] by simp
    moreover note seen_kept_trans [OF import_same_kept [OF Cons.prems(1) Some]]
    ultimately show ?thesis using import_find_kept [OF _ Some] by auto
  qed
qed

lemma import_known:
  assumes "import_inv (\<lambda>f. X f + ref1 head f) st" and "\<forall>p \<in> set ps. prog_checked (cp_insns p)"
    and "import_path st head ps = Some h"
  shows "snd (seccomp_ckpt_import always always always st head ps) = h"
  using assms
proof (induction ps arbitrary: st head)
  case (Cons p ps)
  then obtain same where same: "import_find st head p = Some same" "import_path st (Some same) ps = Some h"
    by (auto split: option.splits)
  have p: "prog_checked (cp_insns p)" using Cons.prems by simp
  have "import_path (import_same st head same) (Some same) ps = Some h"
    by (rule import_path_kept [OF import_same_kept [OF Cons.prems(1) same(1)] same(2)])
  then show ?case
    using Cons.IH [OF import_same_ok(1) [OF Cons.prems(1) same(1)]] Cons.prems(2) same(1) import_Cons [OF p]
    by (simp del: seccomp_ckpt_import.simps(2))
qed simp

section \<open>Properties\<close>

lemma export_checked: "sec_reachable s \<Longrightarrow> \<forall>p \<in> set (chain_export (ss_heap s) fo). prog_checked (cp_insns p)"
  using chain_export_checked sec_invD(1,2) sec_reachable_inv by blast

text \<open>
  C8 (roundtrip). Saving a chain of a reachable state and importing it into a restore in any
  state of its own gives back a chain that exports to the very same programs, with one
  reference for the caller and every other count still right, whether or not the table of
  seen filters could grow.
\<close>

theorem seccomp_ckpt_roundtrip:
  assumes "sec_reachable s" and "seccomp_ckpt_export (ss_heap s) fo (Some mx) = (n, Some progs)"
    and "import_inv X st"
  shows "\<exists>st' head. seccomp_ckpt_import always always grow st None progs = (st', head) \<and>
    import_inv (\<lambda>f. X f + ref1 head f) st' \<and> seccomp_ckpt_export (im_heap st') head (Some mx) = (n, Some progs)"
proof -
  have progs: "progs = chain_export (ss_heap s) fo" using assms(2) by (simp add: ckpt_export_eq split: if_splits)
  have "chain_export (im_heap st) None = []" by (simp add: chain_export_def)
  then obtain st' head where "seccomp_ckpt_import always always grow st None progs = (st', head)"
      "import_inv (\<lambda>f. X f + ref1 head f) st'" "chain_export (im_heap st') head = progs"
    using import_all [of X None st progs always always grow] assms(3) export_checked [OF assms(1), of fo]
    by (auto simp: progs)
  moreover from this have "seccomp_ckpt_export (im_heap st') head (Some mx) = (n, Some progs)"
    using assms(2) by (simp add: ckpt_export_eq progs split: if_splits)
  ultimately show ?thesis by blast
qed

definition import_start :: import_state where
  "import_start = \<lparr>im_heap = [], im_seen = []\<rparr>"

lemma import_start_inv: "import_inv (\<lambda>_. 0) import_start"
  by (simp add: import_inv_def import_start_def wf_filters_def heap_get_def import_refs_def progs_ok_def)

definition ex_progs :: "seccomp_ckpt_prog list" where
  "ex_progs = [\<lparr>cp_log = False, cp_insns = ex_prog\<rparr>]"

lemma ex_export: "seccomp_ckpt_export (ss_heap ex_after) (Some 0) (Some 8) = (1, Some ex_progs)"
  by (simp add: seccomp_ckpt_export_def seccomp_filter_count_def ex_after_def filter_chain_def heap_get_def ex_progs_def)

theorem seccomp_ckpt_roundtrip_witness:
  "\<exists>st' head. seccomp_ckpt_import always always always import_start None ex_progs = (st', head) \<and>
     seccomp_ckpt_export (im_heap st') head (Some 8) = (1, Some ex_progs)"
  using seccomp_ckpt_roundtrip [OF ex_after_reachable ex_export import_start_inv, of always] by auto

text \<open>
  Tasks that shared a chain share one again: importing the same programs a
  second time in one restore, with any other import in between, gives back the very same
  filter, as TSYNC's question about ancestors needs.
\<close>

theorem seccomp_ckpt_shares:
  assumes "import_inv X st" and "\<forall>p \<in> set ps \<union> set qs. prog_checked (cp_insns p)"
    and "seccomp_ckpt_import always always always st None ps = (st1, head1)"
    and "seccomp_ckpt_import always always always st1 None qs = (st2, head2)"
  shows "snd (seccomp_ckpt_import always always always st2 None ps) = head1"
proof -
  have inv: "import_inv (\<lambda>f. X f + ref1 None f) st" using assms(1) by simp
  have ps: "\<forall>p \<in> set ps. prog_checked (cp_insns p)" and qs: "\<forall>p \<in> set qs. prog_checked (cp_insns p)"
    using assms(2) by auto
  have inv1: "import_inv (\<lambda>f. (X f + ref1 head1 f) + ref1 None f) st1"
    using import_all [OF inv ps, of always always always] assms(3) by auto
  have inv2: "import_inv (\<lambda>f. (X f + ref1 head1 f + ref1 head2 f) + ref1 None f) st2"
    using import_all [OF inv1 qs, of always always always] assms(4) by auto
  have "import_path st1 None ps = Some head1" using import_records [OF inv ps assms(3)] by simp
  moreover have "seen_kept st1 st2" using import_records [OF inv1 qs assms(4)] by simp
  ultimately show ?thesis using import_known [OF inv2 ps] import_path_kept by blast
qed

theorem seccomp_ckpt_shares_witness:
  "\<exists>st1 head1. seccomp_ckpt_import always always always import_start None ex_progs = (st1, head1) \<and>
     snd (seccomp_ckpt_import always always always st1 None ex_progs) = head1"
proof -
  obtain st1 head1 where 1: "seccomp_ckpt_import always always always import_start None ex_progs = (st1, head1)"
    by fastforce
  have "\<forall>p \<in> set ex_progs. prog_checked (cp_insns p)"
    using export_checked [OF ex_after_reachable, of "Some 0"] ex_export by (simp add: ckpt_export_eq split: if_splits)
  then show ?thesis using seccomp_ckpt_shares [OF import_start_inv, of ex_progs "[]" st1 head1 st1 None] 1 by simp
qed

end
