(* ===== verification/FileLock.thy ===== *)
theory FileLock
  imports Ish_Prelude
begin

text \<open>
  \<^verbatim>\<open>fs/lock.c\<close>: byte-range locks (\<^verbatim>\<open>fcntl\<close>, of a process or of an open file) and \<^verbatim>\<open>flock\<close>.
  Each inode has a list of each kind; the inode's lock makes every attempt on it one step.
  A call that has to wait is a \<open>sleeper\<close> until a \<^verbatim>\<open>notify\<close> wakes it and it tries again;
  the sleepers on byte ranges are also the waiters the deadlock walk follows.
\<close>

section \<open>Locks\<close>

text \<open>
  An owner is an address: of a process's descriptor table, or of an open file for an
  \<^verbatim>\<open>F_OFD_*\<close> lock and for \<^verbatim>\<open>flock\<close>. The two never coincide.
\<close>

datatype lock_owner = Files nat | OpenFile nat

record file_lock =
  fl_start :: int
  fl_end :: int
  fl_type :: u16
  fl_pid :: int
  fl_comm :: string
  fl_owner :: lock_owner

record flock =
  fk_type :: u16
  fk_whence :: u16
  fk_start :: int
  fk_len :: int
  fk_pid :: int
  fk_comm :: string

abbreviation F_RDLCK :: u16 where "F_RDLCK \<equiv> 0"
abbreviation F_WRLCK :: u16 where "F_WRLCK \<equiv> 1"
abbreviation F_UNLCK :: u16 where "F_UNLCK \<equiv> 2"

definition file_locks_overlap :: "file_lock \<Rightarrow> file_lock \<Rightarrow> bool" where
  "file_locks_overlap a b \<longleftrightarrow> fl_end a \<ge> fl_start b \<and> fl_end b \<ge> fl_start a"

definition file_locks_conflict :: "file_lock \<Rightarrow> file_lock \<Rightarrow> bool" where
  "file_locks_conflict a b \<longleftrightarrow> fl_owner a \<noteq> fl_owner b \<and> file_locks_overlap a b \<and>
     (fl_type a = F_WRLCK \<or> fl_type b = F_WRLCK)"

definition file_locks_adjacent :: "file_lock \<Rightarrow> file_lock \<Rightarrow> bool" where
  "file_locks_adjacent a b \<longleftrightarrow> fl_end a = fl_start b - 1 \<or> fl_end b = fl_start a - 1"

definition flock_locks_conflict :: "file_lock \<Rightarrow> file_lock \<Rightarrow> bool" where
  "flock_locks_conflict a b \<longleftrightarrow> fl_owner a \<noteq> fl_owner b \<and> (fl_type a = F_WRLCK \<or> fl_type b = F_WRLCK)"

definition file_lock_test :: "file_lock list \<Rightarrow> file_lock \<Rightarrow> file_lock option" where
  "file_lock_test locks request = find (\<lambda>lock. file_locks_conflict lock request) locks"

section \<open>Acquiring a byte range\<close>

text \<open>What is left of a lock of another type when the request takes its range out of it.\<close>

definition lock_subtract :: "file_lock \<Rightarrow> file_lock \<Rightarrow> file_lock list" where
  "lock_subtract request lock =
     (if fl_start request > fl_start lock \<and> fl_end request < fl_end lock
        then [lock\<lparr>fl_end := fl_start request - 1\<rparr>, lock\<lparr>fl_start := fl_end request + 1\<rparr>]
      else if fl_start request \<le> fl_start lock \<and> fl_end request \<ge> fl_end lock then []
      else if fl_start lock < fl_start request then [lock\<lparr>fl_end := fl_start request - 1\<rparr>]
      else if fl_end lock > fl_end request then [lock\<lparr>fl_start := fl_end request + 1\<rparr>]
      else [lock])"

definition lock_merge :: "file_lock \<Rightarrow> file_lock \<Rightarrow> file_lock" where
  "lock_merge request lock =
     (let r = (if fl_start lock < fl_start request then request\<lparr>fl_start := fl_start lock\<rparr> else request)
      in if fl_end lock > fl_end r then r\<lparr>fl_end := fl_end lock\<rparr> else r)"

text \<open>
  The loop over the inode's locks, which are grouped by owner: the request it ends with, the
  locks kept before the place where the loop stops, those from there on, and whether it
  notified the waiters.
\<close>

fun acquire_loop :: "bool \<Rightarrow> file_lock \<Rightarrow> file_lock list \<Rightarrow> file_lock \<times> file_lock list \<times> file_lock list \<times> bool" where
  "acquire_loop found request [] = (request, [], [], False)"
| "acquire_loop found request (lock # locks) =
     (if fl_owner lock \<noteq> fl_owner request then
        (if found then (request, [], lock # locks, False)
         else let (r, pre, rest, n) = acquire_loop False request locks in (r, lock # pre, rest, n))
      else if fl_type request = fl_type lock then
        (if \<not> file_locks_overlap lock request \<and> \<not> file_locks_adjacent request lock
         then let (r, pre, rest, n) = acquire_loop True request locks in (r, lock # pre, rest, n)
         else acquire_loop True (lock_merge request lock) locks)
      else if \<not> file_locks_overlap lock request
        then let (r, pre, rest, n) = acquire_loop True request locks in (r, lock # pre, rest, n)
      else let (r, pre, rest, n) = acquire_loop True request locks
           in (r, lock_subtract request lock @ pre, rest, True))"

definition file_lock_acquire :: "file_lock list \<Rightarrow> file_lock \<Rightarrow> (file_lock list \<times> bool) res" where
  "file_lock_acquire locks request =
     (if fl_type request \<noteq> F_UNLCK \<and> (\<exists>lock \<in> set locks. file_locks_conflict lock request) then Inl EAGAIN
      else let (r, pre, rest, n) = acquire_loop False request locks in
        Inr (if fl_type request \<noteq> F_UNLCK then pre @ r # rest else pre @ rest, n))"

section \<open>Waiting and deadlock\<close>

record sleeper =
  sl_id :: nat
  sl_inode :: nat
  sl_request :: file_lock
  sl_blocked_on :: "lock_owner option"
  sl_woken :: bool

record inode_locks =
  il_posix :: "file_lock list"
  il_flock :: "file_lock list"

record lk_state =
  ls_inodes :: "nat \<Rightarrow> inode_locks"
  ls_waiters :: "sleeper list"
  ls_flock_waiters :: "sleeper list"

abbreviation sl_owner :: "sleeper \<Rightarrow> lock_owner" where "sl_owner w \<equiv> fl_owner (sl_request w)"

definition next_blocked :: "sleeper list \<Rightarrow> lock_owner \<Rightarrow> lock_owner option" where
  "next_blocked ws cur = (case find (\<lambda>w. sl_owner w = cur) ws of None \<Rightarrow> None | Some w \<Rightarrow> sl_blocked_on w)"

fun deadlock_walk :: "nat \<Rightarrow> sleeper list \<Rightarrow> lock_owner \<Rightarrow> lock_owner option \<Rightarrow> bool" where
  "deadlock_walk n ws self None = False"
| "deadlock_walk 0 ws self (Some cur) = False"
| "deadlock_walk (Suc n) ws self (Some cur) = (cur = self \<or> deadlock_walk n ws self (next_blocked ws cur))"

definition posix_lock_would_deadlock :: "sleeper list \<Rightarrow> lock_owner \<Rightarrow> lock_owner option \<Rightarrow> bool" where
  "posix_lock_would_deadlock ws self blocker =
     (if blocker = None \<or> blocker = Some self then False else deadlock_walk 1024 ws self blocker)"

definition posix_lock_waiter_add :: "lk_state \<Rightarrow> sleeper \<Rightarrow> lk_state" where
  "posix_lock_waiter_add st w = st\<lparr>ls_waiters := w # ls_waiters st\<rparr>"

definition posix_lock_waiter_remove :: "lk_state \<Rightarrow> nat \<Rightarrow> lk_state" where
  "posix_lock_waiter_remove st i = st\<lparr>ls_waiters := filter (\<lambda>w. sl_id w \<noteq> i) (ls_waiters st)\<rparr>"

text \<open>\<^verbatim>\<open>notify\<close> of an inode's condition wakes every sleeper on it.\<close>

definition wake :: "nat \<Rightarrow> sleeper list \<Rightarrow> sleeper list" where
  "wake ino ws = map (\<lambda>w. if sl_inode w = ino then w\<lparr>sl_woken := True\<rparr> else w) ws"

definition set_posix :: "lk_state \<Rightarrow> nat \<Rightarrow> file_lock list \<Rightarrow> bool \<Rightarrow> lk_state" where
  "set_posix st ino locks notified =
     st\<lparr>ls_inodes := (ls_inodes st)(ino := (ls_inodes st ino)\<lparr>il_posix := locks\<rparr>),
        ls_waiters := (if notified then wake ino (ls_waiters st) else ls_waiters st)\<rparr>"

definition set_flock :: "lk_state \<Rightarrow> nat \<Rightarrow> file_lock list \<Rightarrow> bool \<Rightarrow> lk_state" where
  "set_flock st ino locks notified =
     st\<lparr>ls_inodes := (ls_inodes st)(ino := (ls_inodes st ino)\<lparr>il_flock := locks\<rparr>),
        ls_flock_waiters := (if notified then wake ino (ls_flock_waiters st) else ls_flock_waiters st)\<rparr>"

section \<open>The fcntl calls\<close>

text \<open>The caller and the open file, as the calls see them; \<open>lf_seek\<close> and \<open>lf_size\<close> are the answers
  of the file's \<^verbatim>\<open>lseek\<close> and \<^verbatim>\<open>fstat\<close>, \<open>None\<close> when it has no such operation.\<close>

record lk_env =
  le_files :: nat
  le_tgid :: int
  le_pid :: int
  le_comm :: string
  le_pid_shown :: "int \<Rightarrow> int"

record lk_fd =
  lf_id :: nat
  lf_flags :: u32
  lf_inode :: "nat option"
  lf_seek :: "int res option"
  lf_size :: "int res option"

definition flock_offset :: "lk_fd \<Rightarrow> u16 \<Rightarrow> int res" where
  "flock_offset fd whence =
     (if whence = 0 then Inr 0
      else if whence = 1 then (case lf_seek fd of None \<Rightarrow> Inl ESPIPE | Some r \<Rightarrow> r)
      else if whence = 2 then (case lf_size fd of None \<Rightarrow> Inl ESPIPE | Some r \<Rightarrow> r)
      else Inl EINVAL)"

definition flock_range :: "int \<Rightarrow> int \<Rightarrow> int \<Rightarrow> (int \<times> int) res" where
  "flock_range offset fstart len =
     (if fstart > s64 (OFF_T_MAX - offset) then Inl EOVERFLOW
      else let start = s64 (offset + fstart) in
        if start < 0 then Inl EINVAL
        else if len > 0 then
          (if s64 (len - 1) > s64 (OFF_T_MAX - start) then Inl EOVERFLOW
           else Inr (start, s64 (s64 (start + len) - 1)))
        else if len < 0 then
          (if s64 (start + len) < 0 then Inl EINVAL else Inr (s64 (start + len), s64 (start - 1)))
        else Inr (start, OFF_T_MAX))"

definition file_lock_from_flock :: "lk_env \<Rightarrow> lk_fd \<Rightarrow> flock \<Rightarrow> bool \<Rightarrow> file_lock res" where
  "file_lock_from_flock env fd fk ofd =
     (case flock_offset fd (fk_whence fk) of
        Inl e \<Rightarrow> Inl e
      | Inr offset \<Rightarrow>
          (case flock_range offset (fk_start fk) (fk_len fk) of
             Inl e \<Rightarrow> Inl e
           | Inr (start, ende) \<Rightarrow>
               Inr \<lparr>fl_start = start, fl_end = ende, fl_type = fk_type fk,
                    fl_pid = (if ofd then - 1 else le_tgid env), fl_comm = take 16 (le_comm env),
                    fl_owner = (if ofd then OpenFile (lf_id fd) else Files (le_files env))\<rparr>))"

definition flock_from_file_lock :: "lk_env \<Rightarrow> file_lock \<Rightarrow> flock" where
  "flock_from_file_lock env lock =
     \<lparr>fk_type = fl_type lock, fk_whence = 0, fk_start = fl_start lock,
      fk_len = (if fl_end lock \<noteq> OFF_T_MAX then fl_end lock - fl_start lock + 1 else 0),
      fk_pid = le_pid_shown env (fl_pid lock), fk_comm = fl_comm lock\<rparr>"

definition fcntl_getlk :: "lk_state \<Rightarrow> lk_env \<Rightarrow> lk_fd \<Rightarrow> flock \<Rightarrow> bool \<Rightarrow> flock res" where
  "fcntl_getlk st env fd fk ofd =
     (if fk_type fk \<noteq> F_RDLCK \<and> fk_type fk \<noteq> F_WRLCK then Inl EINVAL
      else (case lf_inode fd of
          None \<Rightarrow> Inr (fk\<lparr>fk_type := F_UNLCK\<rparr>)
        | Some ino \<Rightarrow>
            (case file_lock_from_flock env fd fk ofd of
               Inl e \<Rightarrow> Inl e
             | Inr request \<Rightarrow>
                 (case file_lock_test (il_posix (ls_inodes st ino)) request of
                    None \<Rightarrow> Inr (fk\<lparr>fk_type := F_UNLCK\<rparr>)
                  | Some lock \<Rightarrow> Inr (flock_from_file_lock env lock)))))"

text \<open>
  One turn of \<^verbatim>\<open>fcntl_setlk\<close>'s loop for the caller \<open>i\<close>: it is done, or it sleeps. The loop is
  entered by the call and again by a wake-up; an interrupted wait ends with \<^verbatim>\<open>EINTR\<close>, which
  the signal code turns into a restart where it may.
\<close>

datatype lk_out = LkDone "unit res" | LkSleep

definition setlk_attempt :: "lk_state \<Rightarrow> nat \<Rightarrow> nat \<Rightarrow> file_lock \<Rightarrow> bool \<Rightarrow> lk_state \<times> lk_out" where
  "setlk_attempt st i ino request blocking =
     (let locks = il_posix (ls_inodes st ino) in
      case file_lock_acquire locks request of
        Inr (locks', notified) \<Rightarrow> (set_posix st ino locks' notified, LkDone (Inr ()))
      | Inl e \<Rightarrow>
          if \<not> blocking then (st, LkDone (Inl e))
          else let blocker = map_option fl_owner (file_lock_test locks request) in
            if posix_lock_would_deadlock (ls_waiters st) (fl_owner request) blocker then (st, LkDone (Inl EDEADLK))
            else (posix_lock_waiter_add st \<lparr>sl_id = i, sl_inode = ino, sl_request = request,
                    sl_blocked_on = blocker, sl_woken = False\<rparr>, LkSleep))"

definition fcntl_setlk :: "lk_state \<Rightarrow> nat \<Rightarrow> lk_env \<Rightarrow> lk_fd \<Rightarrow> flock \<Rightarrow> bool \<Rightarrow> bool \<Rightarrow> lk_state \<times> lk_out" where
  "fcntl_setlk st i env fd fk blocking ofd =
     (if fk_type fk \<noteq> F_RDLCK \<and> fk_type fk \<noteq> F_WRLCK \<and> fk_type fk \<noteq> F_UNLCK then (st, LkDone (Inl EINVAL))
      else if fk_type fk = F_RDLCK \<and> lf_flags fd AND 3 = 1 then (st, LkDone (Inl EBADF))
      else if fk_type fk = F_WRLCK \<and> lf_flags fd AND 3 = 0 then (st, LkDone (Inl EBADF))
      else (case lf_inode fd of
          None \<Rightarrow> (st, LkDone (Inr ()))
        | Some ino \<Rightarrow>
            (case file_lock_from_flock env fd fk ofd of
               Inl e \<Rightarrow> (st, LkDone (Inl e))
             | Inr request \<Rightarrow> setlk_attempt st i ino request blocking)))"

definition setlk_wake :: "lk_state \<Rightarrow> sleeper \<Rightarrow> bool \<Rightarrow> lk_state \<times> lk_out" where
  "setlk_wake st w interrupted =
     (let st' = posix_lock_waiter_remove st (sl_id w) in
      if interrupted then (st', LkDone (Inl EINTR))
      else setlk_attempt st' (sl_id w) (sl_inode w) (sl_request w) True)"

definition file_lock_remove_owned_by :: "lk_state \<Rightarrow> nat \<Rightarrow> lock_owner \<Rightarrow> lk_state" where
  "file_lock_remove_owned_by st ino owner =
     (let locks = il_posix (ls_inodes st ino) in
      set_posix st ino (filter (\<lambda>l. fl_owner l \<noteq> owner) locks) (\<exists>l \<in> set locks. fl_owner l = owner))"

section \<open>flock\<close>

definition flock_request :: "lk_env \<Rightarrow> lk_fd \<Rightarrow> u32 \<Rightarrow> file_lock" where
  "flock_request env fd opr =
     \<lparr>fl_start = 0, fl_end = OFF_T_MAX, fl_type = (if opr = 2 then F_WRLCK else F_RDLCK),
      fl_pid = le_pid env, fl_comm = take 16 (le_comm env), fl_owner = OpenFile (lf_id fd)\<rparr>"

definition flock_attempt :: "lk_state \<Rightarrow> nat \<Rightarrow> nat \<Rightarrow> file_lock \<Rightarrow> bool \<Rightarrow> lk_state \<times> lk_out" where
  "flock_attempt st i ino request nonblock =
     (let locks = il_flock (ls_inodes st ino) in
      if \<exists>l \<in> set locks. flock_locks_conflict l request then
        (if nonblock then (st, LkDone (Inl EAGAIN))
         else (st\<lparr>ls_flock_waiters := \<lparr>sl_id = i, sl_inode = ino, sl_request = request,
                 sl_blocked_on = None, sl_woken = False\<rparr> # ls_flock_waiters st\<rparr>, LkSleep))
      else (set_flock st ino (locks @ [request]) False, LkDone (Inr ())))"

definition flock_remove_owned_by :: "lk_state \<Rightarrow> nat \<Rightarrow> nat \<Rightarrow> lk_state" where
  "flock_remove_owned_by st ino fdid =
     (let locks = il_flock (ls_inodes st ino) in
      set_flock st ino (filter (\<lambda>l. fl_owner l \<noteq> OpenFile fdid) locks) (\<exists>l \<in> set locks. fl_owner l = OpenFile fdid))"

definition flock_lock :: "lk_state \<Rightarrow> nat \<Rightarrow> lk_env \<Rightarrow> lk_fd \<Rightarrow> u32 \<Rightarrow> lk_state \<times> lk_out" where
  "flock_lock st i env fd operation =
     (let opr = operation AND 11 in
      if opr \<noteq> 1 \<and> opr \<noteq> 2 \<and> opr \<noteq> 8 then (st, LkDone (Inl EINVAL))
      else (case lf_inode fd of
          None \<Rightarrow> (st, LkDone (Inl EBADF))
        | Some ino \<Rightarrow>
            let st' = flock_remove_owned_by st ino (lf_id fd) in
            if opr = 8 then (st', LkDone (Inr ()))
            else flock_attempt st' i ino (flock_request env fd opr) (operation AND 4 \<noteq> 0)))"

definition flock_wake :: "lk_state \<Rightarrow> sleeper \<Rightarrow> bool \<Rightarrow> lk_state \<times> lk_out" where
  "flock_wake st w interrupted =
     (let st' = st\<lparr>ls_flock_waiters := filter (\<lambda>x. sl_id x \<noteq> sl_id w) (ls_flock_waiters st)\<rparr> in
      if interrupted then (st', LkDone (Inl EINTR))
      else flock_attempt st' (sl_id w) (sl_inode w) (sl_request w) False)"

end
