(* ===== verification/FdTable.thy ===== *)
theory FdTable
  imports FileLock
begin

text \<open>
  \<^verbatim>\<open>fs/fd.c\<close> and \<^verbatim>\<open>util/bits.h\<close>: open files, descriptor tables and the calls on descriptors. Open
  files and tables are counted heap objects; a table is an array of slots and a bit set of
  close-on-exec marks. The state holds the file locks too, since closing drops them, and
  for every task the table it uses. Each function runs under the table's lock and is one
  step.
\<close>

section \<open>Bit sets\<close>

definition BITS_SIZE :: "nat \<Rightarrow> nat" where
  "BITS_SIZE n = (n - 1) div 8 + 1"

definition bit_test :: "nat \<Rightarrow> u8 list \<Rightarrow> bool" where
  "bit_test i data = (data ! (i div 8) AND push_bit (i mod 8) 1 \<noteq> 0)"

definition bit_set :: "nat \<Rightarrow> u8 list \<Rightarrow> u8 list" where
  "bit_set i data = data[i div 8 := data ! (i div 8) OR push_bit (i mod 8) 1]"

definition bit_clear :: "nat \<Rightarrow> u8 list \<Rightarrow> u8 list" where
  "bit_clear i data = data[i div 8 := data ! (i div 8) AND NOT (push_bit (i mod 8) 1)]"

section \<open>Open files\<close>

text \<open>
  Of a \<^verbatim>\<open>struct fd\<close>: the count, the status flags, the inode, the owner for signals, and what its
  operations answer: \<^verbatim>\<open>getflags\<close> and \<^verbatim>\<open>setflags\<close> (\<open>None\<close> when it has none), \<^verbatim>\<open>lseek\<close> and \<^verbatim>\<open>fstat\<close>,
  the result of \<^verbatim>\<open>close\<close>, and the two operations on a memfd's seals.
\<close>

record fd_obj =
  fo_refcount :: nat
  fo_flags :: u32
  fo_inode :: "nat option"
  fo_owner :: int
  fo_getflags :: "u32 res option"
  fo_setflags :: "int res option"
  fo_seek :: "int res option"
  fo_size :: "int res option"
  fo_close :: "int res"
  fo_add_seals :: "u32 \<Rightarrow> int res"
  fo_get_seals :: "int res"

record fdtable =
  ft_refcount :: nat
  ft_files :: "nat option list"
  ft_cloexec :: "u8 list"

record fs_state =
  fs_fds :: "fd_obj heap"
  fs_tabs :: "fdtable heap"
  fs_locks :: lk_state
  fs_tasks :: "nat list"

abbreviation O_CREAT :: u32 where "O_CREAT \<equiv> 0x40"
abbreviation O_EXCL :: u32 where "O_EXCL \<equiv> 0x80"
abbreviation O_NOCTTY :: u32 where "O_NOCTTY \<equiv> 0x100"
abbreviation O_TRUNC :: u32 where "O_TRUNC \<equiv> 0x200"
abbreviation O_APPEND :: u32 where "O_APPEND \<equiv> 0x400"
abbreviation O_NONBLOCK :: u32 where "O_NONBLOCK \<equiv> 0x800"
abbreviation O_DIRECTORY :: u32 where "O_DIRECTORY \<equiv> 0x10000"
abbreviation O_NOFOLLOW :: u32 where "O_NOFOLLOW \<equiv> 0x20000"
abbreviation O_CLOEXEC :: u32 where "O_CLOEXEC \<equiv> 0x80000"
abbreviation O_PATH :: u32 where "O_PATH \<equiv> 0x200000"

definition fd_retain :: "fd_obj heap \<Rightarrow> nat \<Rightarrow> fd_obj heap" where
  "fd_retain h a = (case heap_get h a of None \<Rightarrow> h
     | Some x \<Rightarrow> heap_put h a (x\<lparr>fo_refcount := fo_refcount x + 1\<rparr>))"

text \<open>Only if it is still live; the result says whether it was.\<close>

definition fd_retain_if_live :: "fd_obj heap \<Rightarrow> nat \<Rightarrow> fd_obj heap \<times> bool" where
  "fd_retain_if_live h a = (case heap_get h a of None \<Rightarrow> (h, False)
     | Some x \<Rightarrow> if fo_refcount x = 0 then (h, False) else (fd_retain h a, True))"

text \<open>The decrement of \<^verbatim>\<open>fd_close\<close>, with the \<^verbatim>\<open>free\<close> when it was the last reference.\<close>

definition fd_unref :: "fd_obj heap \<Rightarrow> nat \<Rightarrow> fd_obj heap" where
  "fd_unref h a = (case heap_get h a of None \<Rightarrow> h
     | Some x \<Rightarrow> if fo_refcount x = 1 then heap_free h a
                 else heap_put h a (x\<lparr>fo_refcount := fo_refcount x - 1\<rparr>))"

definition fd_close :: "fs_state \<Rightarrow> nat \<Rightarrow> fs_state \<times> int res" where
  "fd_close s a =
     (case heap_get (fs_fds s) a of
        None \<Rightarrow> (s, Inr 0)
      | Some x \<Rightarrow>
          if fo_refcount x = 1 then
            (s\<lparr>fs_locks := (case fo_inode x of None \<Rightarrow> fs_locks s
                 | Some ino \<Rightarrow> file_lock_remove_owned_by (flock_remove_owned_by (fs_locks s) ino a) ino (OpenFile a)),
               fs_fds := fd_unref (fs_fds s) a\<rparr>, fo_close x)
          else (s\<lparr>fs_fds := fd_unref (fs_fds s) a\<rparr>, Inr 0))"

definition fd_getflags :: "fd_obj \<Rightarrow> u32 res" where
  "fd_getflags fd =
     (if fo_flags fd AND O_PATH \<noteq> 0 then Inr (fo_flags fd AND (O_PATH OR O_DIRECTORY OR O_NOFOLLOW))
      else (case (case fo_getflags fd of None \<Rightarrow> Inr (fo_flags fd) | Some r \<Rightarrow> r) of
          Inl e \<Rightarrow> Inl e
        | Inr flags \<Rightarrow> Inr (flags AND NOT (O_CREAT OR O_EXCL OR O_NOCTTY OR O_TRUNC OR O_CLOEXEC))))"

definition fd_setflags :: "fd_obj \<Rightarrow> u32 \<Rightarrow> fd_obj \<times> int res" where
  "fd_setflags fd flags =
     (case fo_setflags fd of
        Some r \<Rightarrow> (fd, r)
      | None \<Rightarrow> (fd\<lparr>fo_flags := (fo_flags fd AND NOT (O_APPEND OR O_NONBLOCK)) OR (flags AND (O_APPEND OR O_NONBLOCK))\<rparr>, Inr 0))"

definition put_fd :: "fs_state \<Rightarrow> nat \<Rightarrow> fd_obj \<Rightarrow> fs_state" where
  "put_fd s a x = s\<lparr>fs_fds := heap_put (fs_fds s) a x\<rparr>"

section \<open>Tables\<close>

definition get_tab :: "fs_state \<Rightarrow> nat \<Rightarrow> fdtable" where
  "get_tab s t = (case heap_get (fs_tabs s) t of
     None \<Rightarrow> \<lparr>ft_refcount = 0, ft_files = [], ft_cloexec = []\<rparr> | Some T \<Rightarrow> T)"

definition put_tab :: "fs_state \<Rightarrow> nat \<Rightarrow> fdtable \<Rightarrow> fs_state" where
  "put_tab s t T = s\<lparr>fs_tabs := heap_put (fs_tabs s) t T\<rparr>"

text \<open>\<open>alloc\<close> says whether the two allocations succeed.\<close>

definition fdtable_resize :: "bool \<Rightarrow> fdtable \<Rightarrow> nat \<Rightarrow> fdtable res" where
  "fdtable_resize alloc T sz =
     (if \<not> alloc then Inl ENOMEM
      else Inr (T\<lparr>ft_files := ft_files T @ replicate (sz - length (ft_files T)) None,
                  ft_cloexec := ft_cloexec T @ replicate (BITS_SIZE sz - length (ft_cloexec T)) 0\<rparr>))"

definition fdtable_new :: "bool \<Rightarrow> bool \<Rightarrow> nat \<Rightarrow> fdtable res" where
  "fdtable_new alloc_table alloc sz =
     (if \<not> alloc_table then Inl ENOMEM
      else fdtable_resize alloc \<lparr>ft_refcount = 1, ft_files = [], ft_cloexec = []\<rparr> sz)"

definition fdtable_expand :: "nat \<Rightarrow> bool \<Rightarrow> fdtable \<Rightarrow> nat \<Rightarrow> fdtable res" where
  "fdtable_expand rlim alloc T mx =
     (if mx + 1 > rlim then Inl EMFILE
      else if length (ft_files T) \<ge> mx + 1 then Inr T
      else fdtable_resize alloc T (mx + 1))"

definition fdtable_retain :: "fdtable heap \<Rightarrow> nat \<Rightarrow> fdtable heap" where
  "fdtable_retain h t = (case heap_get h t of None \<Rightarrow> h
     | Some T \<Rightarrow> heap_put h t (T\<lparr>ft_refcount := ft_refcount T + 1\<rparr>))"

definition fdtable_unref :: "fdtable heap \<Rightarrow> nat \<Rightarrow> fdtable heap" where
  "fdtable_unref h t = (case heap_get h t of None \<Rightarrow> h
     | Some T \<Rightarrow> if ft_refcount T = 1 then heap_free h t
                 else heap_put h t (T\<lparr>ft_refcount := ft_refcount T - 1\<rparr>))"

definition fdtable_get :: "fdtable \<Rightarrow> int \<Rightarrow> nat option" where
  "fdtable_get T f = (if f < 0 \<or> nat f \<ge> length (ft_files T) then None else ft_files T ! nat f)"

text \<open>Take a descriptor out of the table, then drop the reference and the process's locks.\<close>

definition fdtable_detach :: "fs_state \<Rightarrow> nat \<Rightarrow> int \<Rightarrow> fs_state \<times> nat option" where
  "fdtable_detach s t f =
     (let T = get_tab s t in
      case fdtable_get T f of
        None \<Rightarrow> (s, None)
      | Some a \<Rightarrow> (put_tab s t (T\<lparr>ft_files := (ft_files T)[nat f := None], ft_cloexec := bit_clear (nat f) (ft_cloexec T)\<rparr>), Some a))"

definition fdtable_finish_close :: "fs_state \<Rightarrow> nat \<Rightarrow> nat \<Rightarrow> fs_state \<times> int res" where
  "fdtable_finish_close s a t =
     (let s' = (case heap_get (fs_fds s) a of None \<Rightarrow> s
          | Some x \<Rightarrow> (case fo_inode x of None \<Rightarrow> s
              | Some ino \<Rightarrow> s\<lparr>fs_locks := file_lock_remove_owned_by (fs_locks s) ino (Files t)\<rparr>))
      in fd_close s' a)"

definition fdtable_close :: "fs_state \<Rightarrow> nat \<Rightarrow> int \<Rightarrow> fs_state \<times> int res" where
  "fdtable_close s t f =
     (case fdtable_detach s t f of
        (s', None) \<Rightarrow> (s', Inl EBADF)
      | (s', Some a) \<Rightarrow> fdtable_finish_close s' a t)"

text \<open>\<^verbatim>\<open>fdtable_release\<close>: the last reference closes every descriptor.\<close>

definition close_each :: "fs_state \<Rightarrow> nat \<Rightarrow> nat list \<Rightarrow> fs_state" where
  "close_each s t fs = foldl (\<lambda>s f. fst (fdtable_close s t (int f))) s fs"

definition fdtable_release :: "fs_state \<Rightarrow> nat \<Rightarrow> fs_state" where
  "fdtable_release s t =
     (let T = get_tab s t in
      if ft_refcount T \<noteq> 1 then s\<lparr>fs_tabs := fdtable_unref (fs_tabs s) t\<rparr>
      else let s' = close_each s t [0..<length (ft_files T)] in s'\<lparr>fs_tabs := fdtable_unref (fs_tabs s') t\<rparr>)"

definition retain_each :: "fd_obj heap \<Rightarrow> nat option list \<Rightarrow> fd_obj heap" where
  "retain_each h fs = foldl (\<lambda>h c. case c of None \<Rightarrow> h | Some a \<Rightarrow> fd_retain h a) h fs"

definition fdtable_copy :: "fs_state \<Rightarrow> bool \<Rightarrow> bool \<Rightarrow> nat \<Rightarrow> (fs_state \<times> nat) res" where
  "fdtable_copy s alloc_table alloc t =
     (let T = get_tab s t in
      case fdtable_new alloc_table alloc (length (ft_files T)) of
        Inl e \<Rightarrow> Inl e
      | Inr N \<Rightarrow>
          let N' = N\<lparr>ft_files := ft_files T, ft_cloexec := ft_cloexec T\<rparr>; (tabs, t') = heap_alloc (fs_tabs s) N' in
          Inr (s\<lparr>fs_tabs := tabs, fs_fds := retain_each (fs_fds s) (ft_files T)\<rparr>, t'))"

definition fdtable_unshare_current :: "fs_state \<Rightarrow> bool \<Rightarrow> bool \<Rightarrow> nat \<Rightarrow> fs_state \<times> unit res" where
  "fdtable_unshare_current s alloc_table alloc cur =
     (let t = fs_tasks s ! cur in
      if ft_refcount (get_tab s t) = 1 then (s, Inr ())
      else (case fdtable_copy s alloc_table alloc t of
          Inl e \<Rightarrow> (s, Inl e)
        | Inr (s1, t') \<Rightarrow> (fdtable_release (s1\<lparr>fs_tasks := (fs_tasks s1)[cur := t']\<rparr>) t, Inr ())))"

definition f_has_room :: "nat \<Rightarrow> fdtable \<Rightarrow> bool" where
  "f_has_room rlim T =
     (let limit = rlim mod 2 ^ 32; sz = min limit (length (ft_files T)) in
      sz < limit \<or> (\<exists>f \<in> set [0..<sz]. ft_files T ! f = None))"

definition f_get :: "fs_state \<Rightarrow> nat \<Rightarrow> int \<Rightarrow> nat option" where
  "f_get s cur f = fdtable_get (get_tab s (fs_tasks s ! cur)) f"

definition f_get_retain :: "fs_state \<Rightarrow> nat \<Rightarrow> int \<Rightarrow> fs_state \<times> nat option" where
  "f_get_retain s cur f =
     (case f_get s cur f of None \<Rightarrow> (s, None)
      | Some a \<Rightarrow> (s\<lparr>fs_fds := fd_retain (fs_fds s) a\<rparr>, Some a))"

section \<open>Installing\<close>

definition first_free :: "nat option list \<Rightarrow> nat \<Rightarrow> nat \<Rightarrow> nat" where
  "first_free files sz start =
     (case find (\<lambda>f. files ! f = None) [start..<sz] of Some f \<Rightarrow> f | None \<Rightarrow> max start sz)"

text \<open>\<open>env\<close>: the limit on descriptors and the fate of an allocation.\<close>

record fd_env =
  fe_rlimit :: nat
  fe_alloc :: bool

definition f_install_start :: "fs_state \<Rightarrow> nat \<Rightarrow> fd_env \<Rightarrow> nat \<Rightarrow> nat \<Rightarrow> fs_state \<times> nat res" where
  "f_install_start s cur env a start =
     (let t = fs_tasks s ! cur; T = get_tab s t;
          sz = min (fe_rlimit env mod 2 ^ 32) (length (ft_files T));
          f = first_free (ft_files T) sz start in
      case (if f \<ge> sz then fdtable_expand (fe_rlimit env) (fe_alloc env) T f else Inr T) of
        Inl e \<Rightarrow> (fst (fd_close s a), Inl e)
      | Inr T' \<Rightarrow> (put_tab s t (T'\<lparr>ft_files := (ft_files T')[f := Some a], ft_cloexec := bit_clear f (ft_cloexec T')\<rparr>), Inr f))"

definition set_cloexec :: "fs_state \<Rightarrow> nat \<Rightarrow> nat \<Rightarrow> fs_state" where
  "set_cloexec s t f = (let T = get_tab s t in put_tab s t (T\<lparr>ft_cloexec := bit_set f (ft_cloexec T)\<rparr>))"

definition clear_cloexec :: "fs_state \<Rightarrow> nat \<Rightarrow> nat \<Rightarrow> fs_state" where
  "clear_cloexec s t f = (let T = get_tab s t in put_tab s t (T\<lparr>ft_cloexec := bit_clear f (ft_cloexec T)\<rparr>))"

definition f_install :: "fs_state \<Rightarrow> nat \<Rightarrow> fd_env \<Rightarrow> nat \<Rightarrow> u32 \<Rightarrow> fs_state \<times> nat res" where
  "f_install s cur env a flags =
     (case f_install_start s cur env a 0 of
        (s1, Inl e) \<Rightarrow> (s1, Inl e)
      | (s1, Inr f) \<Rightarrow>
          let s2 = (if flags AND O_CLOEXEC \<noteq> 0 then set_cloexec s1 (fs_tasks s1 ! cur) f else s1);
              s3 = (if flags AND O_NONBLOCK \<noteq> 0 then
                      (case heap_get (fs_fds s2) a of None \<Rightarrow> s2 | Some x \<Rightarrow> put_fd s2 a (fst (fd_setflags x O_NONBLOCK)))
                    else s2)
          in (s3, Inr f))"

definition fdtable_install_at :: "fs_state \<Rightarrow> fd_env \<Rightarrow> nat \<Rightarrow> int \<Rightarrow> nat \<Rightarrow> bool \<Rightarrow> fs_state \<times> unit res" where
  "fdtable_install_at s env t f a cloexec =
     (if f < 0 then (fst (fd_close s a), Inl EBADF)
      else (case fdtable_expand (fe_rlimit env) (fe_alloc env) (get_tab s t) (nat f) of
          Inl e \<Rightarrow> (fst (fd_close s a), Inl e)
        | Inr T \<Rightarrow>
            let (s1, replaced) = fdtable_detach (put_tab s t T) t f; T1 = get_tab s1 t;
                s2 = put_tab s1 t (T1\<lparr>ft_files := (ft_files T1)[nat f := Some a]\<rparr>);
                s3 = (if cloexec then set_cloexec s2 t (nat f) else clear_cloexec s2 t (nat f)) in
            (case replaced of None \<Rightarrow> s3 | Some b \<Rightarrow> fst (fdtable_finish_close s3 b t), Inr ())))"

section \<open>The calls\<close>

definition f_close :: "fs_state \<Rightarrow> nat \<Rightarrow> int \<Rightarrow> fs_state \<times> int res" where
  "f_close s cur f =
     (let t = fs_tasks s ! cur in
      case fdtable_detach s t f of
        (s', None) \<Rightarrow> (s', Inl EBADF)
      | (s', Some a) \<Rightarrow> fdtable_finish_close s' a t)"

definition fdtable_do_cloexec :: "fs_state \<Rightarrow> nat \<Rightarrow> fs_state" where
  "fdtable_do_cloexec s t =
     foldl (\<lambda>s f. if bit_test f (ft_cloexec (get_tab s t)) then fst (fdtable_close s t (int f)) else s)
       s [0..<length (ft_files (get_tab s t))]"

definition sys_dup :: "fs_state \<Rightarrow> nat \<Rightarrow> fd_env \<Rightarrow> int \<Rightarrow> fs_state \<times> nat res" where
  "sys_dup s cur env f =
     (case f_get s cur f of None \<Rightarrow> (s, Inl EBADF)
      | Some a \<Rightarrow> f_install (s\<lparr>fs_fds := fd_retain (fs_fds s) a\<rparr>) cur env a 0)"

definition sys_dup3 :: "fs_state \<Rightarrow> nat \<Rightarrow> fd_env \<Rightarrow> int \<Rightarrow> int \<Rightarrow> u32 \<Rightarrow> fs_state \<times> nat res" where
  "sys_dup3 s cur env f new_f flags =
     (if flags AND NOT O_CLOEXEC \<noteq> 0 then (s, Inl EINVAL)
      else if new_f < 0 then (s, Inl EBADF)
      else if f = new_f then (s, Inl EINVAL)
      else let t = fs_tasks s ! cur in
        (case fdtable_get (get_tab s t) f of
           None \<Rightarrow> (s, Inl EBADF)
         | Some a \<Rightarrow>
             (case fdtable_expand (fe_rlimit env) (fe_alloc env) (get_tab s t) (nat new_f) of
                Inl e \<Rightarrow> (s, Inl e)
              | Inr T \<Rightarrow>
                  let s0 = (put_tab s t T)\<lparr>fs_fds := fd_retain (fs_fds s) a\<rparr>;
                      (s1, replaced) = fdtable_detach s0 t new_f; T1 = get_tab s1 t;
                      s2 = put_tab s1 t (T1\<lparr>ft_files := (ft_files T1)[nat new_f := Some a]\<rparr>);
                      s3 = clear_cloexec s2 t (nat new_f);
                      s4 = (if flags AND O_CLOEXEC \<noteq> 0 then set_cloexec s3 t (nat new_f) else s3) in
                  (case replaced of None \<Rightarrow> s4 | Some b \<Rightarrow> fst (fdtable_finish_close s4 b t), Inr (nat new_f)))))"

definition sys_dup2 :: "fs_state \<Rightarrow> nat \<Rightarrow> fd_env \<Rightarrow> int \<Rightarrow> int \<Rightarrow> fs_state \<times> nat res" where
  "sys_dup2 s cur env f new_f =
     (if new_f < 0 then (s, Inl EBADF)
      else if f = new_f then (s, if f_get s cur f = None then Inl EBADF else Inr (nat new_f))
      else sys_dup3 s cur env f new_f 0)"

abbreviation CLOSE_RANGE_UNSHARE :: u32 where "CLOSE_RANGE_UNSHARE \<equiv> 2"
abbreviation CLOSE_RANGE_CLOEXEC :: u32 where "CLOSE_RANGE_CLOEXEC \<equiv> 4"

text \<open>
  The walk of \<^verbatim>\<open>close_range\<close>; the table's lock is dropped for each close, and no other thread's
  step is put in between here.
\<close>

definition close_range_one :: "bool \<Rightarrow> nat \<Rightarrow> fs_state \<Rightarrow> nat \<Rightarrow> fs_state" where
  "close_range_one mark t s f =
     (if ft_files (get_tab s t) ! f = None then s
      else if mark then set_cloexec s t f
      else (case fdtable_detach s t (int f) of
          (s', None) \<Rightarrow> s'
        | (s', Some a) \<Rightarrow> fst (fdtable_finish_close s' a t)))"

definition sys_close_range :: "fs_state \<Rightarrow> bool \<Rightarrow> bool \<Rightarrow> nat \<Rightarrow> u32 \<Rightarrow> u32 \<Rightarrow> u32 \<Rightarrow> fs_state \<times> unit res" where
  "sys_close_range s alloc_table alloc cur first lst flags =
     (if flags AND NOT (CLOSE_RANGE_UNSHARE OR CLOSE_RANGE_CLOEXEC) \<noteq> 0 then (s, Inl EINVAL)
      else if lst < first then (s, Inl EINVAL)
      else (case (if flags AND CLOSE_RANGE_UNSHARE \<noteq> 0 then fdtable_unshare_current s alloc_table alloc cur else (s, Inr ())) of
          (s1, Inl e) \<Rightarrow> (s1, Inl e)
        | (s1, Inr _) \<Rightarrow>
            let t = fs_tasks s1 ! cur; sz = length (ft_files (get_tab s1 t)) in
            if sz = 0 \<or> unat first \<ge> sz then (s1, Inr ())
            else (foldl (close_range_one (flags AND CLOSE_RANGE_CLOEXEC \<noteq> 0) t) s1
                    [unat first ..< min (unat lst + 1) sz], Inr ())))"

end
