(* ===== verification/Fcntl.thy ===== *)
theory Fcntl
  imports FdTable
begin

text \<open>
  \<^verbatim>\<open>fcntl\<close> (\<^verbatim>\<open>fs/fd.c\<close>) with the three guest layouts of \<^verbatim>\<open>struct flock\<close> (\<^verbatim>\<open>fs/inode.h\<close>). The call holds a
  reference to the open file from start to end, also while a blocking lock request sleeps.
\<close>

section \<open>Guest layouts of struct flock\<close>

text \<open>\<^verbatim>\<open>struct flock_\<close> is packed; its \<^verbatim>\<open>comm\<close> does not cross the boundary.\<close>

definition flock_size :: nat where "flock_size = 24"

definition flock_read :: "u8 list \<Rightarrow> flock" where
  "flock_read bs = \<lparr>fk_type = of_nat (le_field 0 2 bs), fk_whence = of_nat (le_field 2 2 bs), fk_start = s64 (int (le_field 4 8 bs)),
     fk_len = s64 (int (le_field 12 8 bs)), fk_pid = s32 (int (le_field 20 4 bs)), fk_comm = []\<rparr>"

definition flock_write :: "flock \<Rightarrow> u8 list" where
  "flock_write fk = le_bytes 2 (fk_type fk) @ le_bytes 2 (fk_whence fk) @ le_bytes 8 (word_of_int (fk_start fk) :: u64) @
     le_bytes 8 (word_of_int (fk_len fk) :: u64) @ le_bytes 4 (word_of_int (fk_pid fk) :: u32)"

text \<open>The legacy layout has 32-bit fields, and the code reads them as unsigned.\<close>

definition flock32_size :: nat where "flock32_size = 16"

definition flock32_read :: "u8 list \<Rightarrow> flock" where
  "flock32_read bs = \<lparr>fk_type = of_nat (le_field 0 2 bs), fk_whence = of_nat (le_field 2 2 bs), fk_start = int (le_field 4 4 bs),
     fk_len = int (le_field 8 4 bs), fk_pid = s32 (int (le_field 12 4 bs)), fk_comm = []\<rparr>"

definition flock32_write :: "flock \<Rightarrow> u8 list" where
  "flock32_write fk = le_bytes 2 (fk_type fk) @ le_bytes 2 (fk_whence fk) @ le_bytes 4 (word_of_int (fk_start fk) :: u32) @
     le_bytes 4 (word_of_int (fk_len fk) :: u32) @ le_bytes 4 (word_of_int (fk_pid fk) :: u32)"

text \<open>The amd64 layout has four bytes of padding, written back as they were read.\<close>

definition flock_amd64_size :: nat where "flock_amd64_size = 28"

definition flock_amd64_read :: "u8 list \<Rightarrow> flock" where
  "flock_amd64_read bs = \<lparr>fk_type = of_nat (le_field 0 2 bs), fk_whence = of_nat (le_field 2 2 bs), fk_start = s64 (int (le_field 8 8 bs)),
     fk_len = s64 (int (le_field 16 8 bs)), fk_pid = s32 (int (le_field 24 4 bs)), fk_comm = []\<rparr>"

definition flock_amd64_write :: "u8 list \<Rightarrow> flock \<Rightarrow> u8 list" where
  "flock_amd64_write pad fk = le_bytes 2 (fk_type fk) @ le_bytes 2 (fk_whence fk) @ pad @ le_bytes 8 (word_of_int (fk_start fk) :: u64) @
     le_bytes 8 (word_of_int (fk_len fk) :: u64) @ le_bytes 4 (word_of_int (fk_pid fk) :: u32)"

datatype flock_layout = Flock64 | Flock32 | FlockAmd64

definition layout_size :: "flock_layout \<Rightarrow> nat" where
  "layout_size l = (case l of Flock64 \<Rightarrow> flock_size | Flock32 \<Rightarrow> flock32_size | FlockAmd64 \<Rightarrow> flock_amd64_size)"

definition layout_read :: "flock_layout \<Rightarrow> u8 list \<Rightarrow> flock" where
  "layout_read l bs = (case l of Flock64 \<Rightarrow> flock_read bs | Flock32 \<Rightarrow> flock32_read bs | FlockAmd64 \<Rightarrow> flock_amd64_read bs)"

definition layout_write :: "flock_layout \<Rightarrow> u8 list \<Rightarrow> flock \<Rightarrow> u8 list" where
  "layout_write l bs fk = (case l of Flock64 \<Rightarrow> flock_write fk | Flock32 \<Rightarrow> flock32_write fk
     | FlockAmd64 \<Rightarrow> flock_amd64_write (take 4 (drop 4 bs)) fk)"

section \<open>The call\<close>

text \<open>
  The caller: its limit, its identity, the pid tables and its memory. \<open>fc_pid_global\<close> and
  \<open>fc_pid_shown\<close> translate between its pid namespace and the machine's numbers.
\<close>

record fc_env = fd_env +
  fc_tid :: nat
  fc_tgid :: int
  fc_pid :: int
  fc_comm :: string
  fc_pid_shown :: "int \<Rightarrow> int"
  fc_pid_global :: "int \<Rightarrow> int"
  fc_task_exists :: "int \<Rightarrow> bool"
  fc_group_exists :: "int \<Rightarrow> bool"
  fc_read :: guest_mem
  fc_writable :: "u64 \<Rightarrow> nat \<Rightarrow> bool"

text \<open>
  How a command ends: with a value or an error and what it wrote to the guest, asleep on a
  lock, or in the assertion of \<^verbatim>\<open>f_install_start\<close> that \<^verbatim>\<open>start\<close> is not negative.
\<close>

datatype fc_out = FcRet "int res" "(u64 \<times> u8 list) option" | FcSleep | FcAssert

definition lk_env_of :: "fc_env \<Rightarrow> nat \<Rightarrow> lk_env" where
  "lk_env_of env t = \<lparr>le_files = t, le_tgid = fc_tgid env, le_pid = fc_pid env, le_comm = fc_comm env, le_pid_shown = fc_pid_shown env\<rparr>"

definition lk_fd_of :: "nat \<Rightarrow> fd_obj \<Rightarrow> lk_fd" where
  "lk_fd_of a x = \<lparr>lf_id = a, lf_flags = (case fd_getflags x of Inl e \<Rightarrow> word_of_int (errno_value e) | Inr fl \<Rightarrow> fl),
     lf_inode = fo_inode x, lf_seek = fo_seek x, lf_size = fo_size x\<rparr>"

definition fd_setown :: "fc_env \<Rightarrow> fd_obj \<Rightarrow> int \<Rightarrow> fd_obj \<times> int res" where
  "fd_setown env x who =
     (if who = 0 then (x\<lparr>fo_owner := 0\<rparr>, Inr 0)
      else if \<not> (if who > 0 then fc_task_exists env who else fc_group_exists env (- who)) then (x, Inl ESRCH)
      else (x\<lparr>fo_owner := (if who > 0 then fc_pid_global env who else - fc_pid_global env (- who))\<rparr>, Inr 0))"

definition fcntl_owner :: "fc_env \<Rightarrow> fd_obj \<Rightarrow> int" where
  "fcntl_owner env x = (if fo_owner x \<ge> 0 then fc_pid_shown env (fo_owner x) else - fc_pid_shown env (- fo_owner x))"

definition fcntl_dupfd :: "fs_state \<Rightarrow> nat \<Rightarrow> fc_env \<Rightarrow> nat \<Rightarrow> u64 \<Rightarrow> bool \<Rightarrow> fs_state \<times> fc_out" where
  "fcntl_dupfd s cur env a arg cloexec =
     (if unat arg \<ge> fe_rlimit env then (s, FcRet (Inl EINVAL) None)
      else let s0 = s\<lparr>fs_fds := fd_retain (fs_fds s) a\<rparr>; start = sint (ucast arg :: u32) in
        if start < 0 then (s0, FcAssert)
        else (case f_install_start s0 cur (fd_env.truncate env) a (nat start) of
            (s1, Inl e) \<Rightarrow> (s1, FcRet (Inl e) None)
          | (s1, Inr new_f) \<Rightarrow>
              (if cloexec then set_cloexec s1 (fs_tasks s1 ! cur) new_f else s1, FcRet (Inr (int new_f)) None)))"

definition fcntl_getown_ex :: "fc_env \<Rightarrow> fd_obj \<Rightarrow> u64 \<Rightarrow> fc_out" where
  "fcntl_getown_ex env x arg =
     (let who = fcntl_owner env x;
          bytes = (if who < 0 then le_bytes 4 (2 :: u32) @ le_bytes 4 (word_of_int (- who) :: u32)
                   else le_bytes 4 (if who > 0 then 1 else 0 :: u32) @ le_bytes 4 (word_of_int who :: u32)) in
      if fc_writable env arg 8 then FcRet (Inr 0) (Some (arg, bytes)) else FcRet (Inl EFAULT) None)"

definition fcntl_setown_ex :: "fc_env \<Rightarrow> fd_obj \<Rightarrow> u64 \<Rightarrow> fd_obj \<times> int res" where
  "fcntl_setown_ex env x arg =
     (case fc_read env arg 8 of
        None \<Rightarrow> (x, Inl EFAULT)
      | Some bs \<Rightarrow>
          let type = s32 (int (le_field 0 4 bs)); pid = s32 (int (le_field 4 4 bs)) in
          if type = 0 \<or> type = 1 then fd_setown env x pid
          else if type = 2 then fd_setown env x (- pid)
          else (x, Inl EINVAL))"

definition fcntl_do_getlk :: "fs_state \<Rightarrow> nat \<Rightarrow> fc_env \<Rightarrow> nat \<Rightarrow> fd_obj \<Rightarrow> u64 \<Rightarrow> flock_layout \<Rightarrow> bool \<Rightarrow> fc_out" where
  "fcntl_do_getlk s cur env a x arg l ofd =
     (case fc_read env arg (layout_size l) of
        None \<Rightarrow> FcRet (Inl EFAULT) None
      | Some bs \<Rightarrow>
          (case fcntl_getlk (fs_locks s) (lk_env_of env (fs_tasks s ! cur)) (lk_fd_of a x) (layout_read l bs) ofd of
             Inl e \<Rightarrow> FcRet (Inl e) None
           | Inr fk \<Rightarrow> if fc_writable env arg (layout_size l) then FcRet (Inr 0) (Some (arg, layout_write l bs fk))
                       else FcRet (Inl EFAULT) None))"

definition fcntl_do_setlk :: "fs_state \<Rightarrow> nat \<Rightarrow> fc_env \<Rightarrow> nat \<Rightarrow> fd_obj \<Rightarrow> u64 \<Rightarrow> flock_layout \<Rightarrow> bool \<Rightarrow> bool \<Rightarrow> fs_state \<times> fc_out" where
  "fcntl_do_setlk s cur env a x arg l blocking ofd =
     (case fc_read env arg (layout_size l) of
        None \<Rightarrow> (s, FcRet (Inl EFAULT) None)
      | Some bs \<Rightarrow>
          (case fcntl_setlk (fs_locks s) (fc_tid env) (lk_env_of env (fs_tasks s ! cur)) (lk_fd_of a x) (layout_read l bs) blocking ofd of
             (lk, LkDone r) \<Rightarrow> (s\<lparr>fs_locks := lk\<rparr>, FcRet (map_sum id (\<lambda>_. 0) r) None)
           | (lk, LkSleep) \<Rightarrow> (s\<lparr>fs_locks := lk\<rparr>, FcSleep)))"

abbreviation F_DUPFD :: u32 where "F_DUPFD \<equiv> 0"
abbreviation F_GETFD :: u32 where "F_GETFD \<equiv> 1"
abbreviation F_SETFD :: u32 where "F_SETFD \<equiv> 2"
abbreviation F_GETFL :: u32 where "F_GETFL \<equiv> 3"
abbreviation F_SETFL :: u32 where "F_SETFL \<equiv> 4"
abbreviation F_GETLK :: u32 where "F_GETLK \<equiv> 5"
abbreviation F_SETLK :: u32 where "F_SETLK \<equiv> 6"
abbreviation F_SETLKW :: u32 where "F_SETLKW \<equiv> 7"
abbreviation F_SETOWN :: u32 where "F_SETOWN \<equiv> 8"
abbreviation F_GETOWN :: u32 where "F_GETOWN \<equiv> 9"
abbreviation F_GETLK64 :: u32 where "F_GETLK64 \<equiv> 12"
abbreviation F_SETLK64 :: u32 where "F_SETLK64 \<equiv> 13"
abbreviation F_SETLKW64 :: u32 where "F_SETLKW64 \<equiv> 14"
abbreviation F_SETOWN_EX :: u32 where "F_SETOWN_EX \<equiv> 15"
abbreviation F_GETOWN_EX :: u32 where "F_GETOWN_EX \<equiv> 16"
abbreviation F_OFD_GETLK :: u32 where "F_OFD_GETLK \<equiv> 36"
abbreviation F_OFD_SETLK :: u32 where "F_OFD_SETLK \<equiv> 37"
abbreviation F_OFD_SETLKW :: u32 where "F_OFD_SETLKW \<equiv> 38"
abbreviation F_DUPFD_CLOEXEC :: u32 where "F_DUPFD_CLOEXEC \<equiv> 1030"
abbreviation F_ADD_SEALS :: u32 where "F_ADD_SEALS \<equiv> 1033"
abbreviation F_GET_SEALS :: u32 where "F_GET_SEALS \<equiv> 1034"

text \<open>The switch of \<^verbatim>\<open>sys_fcntl_common\<close>, for the open file \<open>x\<close> at \<open>a\<close>.\<close>

definition fcntl_switch :: "fs_state \<Rightarrow> nat \<Rightarrow> fc_env \<Rightarrow> nat \<Rightarrow> nat \<Rightarrow> fd_obj \<Rightarrow> u32 \<Rightarrow> u64 \<Rightarrow> bool \<Rightarrow> fs_state \<times> fc_out" where
  "fcntl_switch s cur env f a x cmd arg guest64 =
     (let t = fs_tasks s ! cur; native = (if guest64 then FlockAmd64 else Flock32);
          wide = (if guest64 then FlockAmd64 else Flock64) in
      if cmd = F_DUPFD then fcntl_dupfd s cur env a arg False
      else if cmd = F_DUPFD_CLOEXEC then fcntl_dupfd s cur env a arg True
      else if cmd = F_GETFD then (s, FcRet (Inr (if bit_test f (ft_cloexec (get_tab s t)) then 1 else 0)) None)
      else if cmd = F_SETFD then (if arg AND 1 \<noteq> 0 then set_cloexec s t f else clear_cloexec s t f, FcRet (Inr 0) None)
      else if cmd = F_GETFL then (s, FcRet (map_sum id uint (fd_getflags x)) None)
      else if cmd = F_SETFL then (case fd_setflags x (ucast arg) of (x', r) \<Rightarrow> (put_fd s a x', FcRet r None))
      else if cmd = F_GETOWN then (s, FcRet (Inr (fcntl_owner env x)) None)
      else if cmd = F_SETOWN then
        (case fd_setown env x (sint (ucast arg :: u32)) of (x', r) \<Rightarrow> (put_fd s a x', FcRet r None))
      else if cmd = F_GETOWN_EX then (s, fcntl_getown_ex env x arg)
      else if cmd = F_SETOWN_EX then (case fcntl_setown_ex env x arg of (x', r) \<Rightarrow> (put_fd s a x', FcRet r None))
      else if cmd = F_GETLK then (s, fcntl_do_getlk s cur env a x arg native False)
      else if cmd = F_GETLK64 then (s, fcntl_do_getlk s cur env a x arg Flock64 False)
      else if cmd = F_SETLK \<or> cmd = F_SETLKW then fcntl_do_setlk s cur env a x arg native (cmd = F_SETLKW) False
      else if cmd = F_SETLK64 \<or> cmd = F_SETLKW64 then fcntl_do_setlk s cur env a x arg Flock64 (cmd = F_SETLKW64) False
      else if cmd = F_OFD_GETLK then (s, fcntl_do_getlk s cur env a x arg wide True)
      else if cmd = F_OFD_SETLK \<or> cmd = F_OFD_SETLKW then fcntl_do_setlk s cur env a x arg wide (cmd = F_OFD_SETLKW) True
      else if cmd = F_ADD_SEALS then (s, FcRet (fo_add_seals x (ucast arg)) None)
      else if cmd = F_GET_SEALS then (s, FcRet (fo_get_seals x) None)
      else (s, FcRet (Inl EINVAL) None))"

definition fcntl_path_ok :: "u32 \<Rightarrow> bool" where
  "fcntl_path_ok cmd \<longleftrightarrow> cmd = F_DUPFD \<or> cmd = F_DUPFD_CLOEXEC \<or> cmd = F_GETFD \<or> cmd = F_SETFD \<or> cmd = F_GETFL"

definition sys_fcntl_common :: "fs_state \<Rightarrow> nat \<Rightarrow> fc_env \<Rightarrow> int \<Rightarrow> u32 \<Rightarrow> u64 \<Rightarrow> bool \<Rightarrow> fs_state \<times> fc_out" where
  "sys_fcntl_common s cur env f cmd arg guest64 =
     (case f_get_retain s cur f of
        (s1, None) \<Rightarrow> (s1, FcRet (Inl EBADF) None)
      | (s1, Some a) \<Rightarrow>
          (case heap_get (fs_fds s1) a of
             None \<Rightarrow> (s1, FcRet (Inl EBADF) None)
           | Some x \<Rightarrow>
               if fo_flags x AND O_PATH \<noteq> 0 \<and> \<not> fcntl_path_ok cmd then (fst (fd_close s1 a), FcRet (Inl EBADF) None)
               else (case fcntl_switch s1 cur env (nat f) a x cmd arg guest64 of
                   (s2, FcRet r w) \<Rightarrow> (fst (fd_close s2 a), FcRet r w)
                 | (s2, z) \<Rightarrow> (s2, z))))"

text \<open>The waits of a blocking request: woken, or interrupted. The reference goes with the end.\<close>

definition fcntl_wake :: "fs_state \<Rightarrow> nat \<Rightarrow> sleeper \<Rightarrow> bool \<Rightarrow> fs_state \<times> fc_out" where
  "fcntl_wake s a w interrupted =
     (case setlk_wake (fs_locks s) w interrupted of
        (lk, LkDone r) \<Rightarrow> (fst (fd_close (s\<lparr>fs_locks := lk\<rparr>) a), FcRet (map_sum id (\<lambda>_. 0) r) None)
      | (lk, LkSleep) \<Rightarrow> (s\<lparr>fs_locks := lk\<rparr>, FcSleep))"

definition sys_fcntl32 :: "fs_state \<Rightarrow> nat \<Rightarrow> fc_env \<Rightarrow> int \<Rightarrow> u32 \<Rightarrow> u32 \<Rightarrow> fs_state \<times> fc_out" where
  "sys_fcntl32 s cur env f cmd arg =
     (if cmd \<in> {F_GETLK64, F_SETLK64, F_SETLKW64, F_OFD_GETLK, F_OFD_SETLK, F_OFD_SETLKW} then (s, FcRet (Inl EINVAL) None)
      else sys_fcntl_common s cur env f cmd (ucast arg) False)"

text \<open>
  \<^verbatim>\<open>flock\<close> (\<^verbatim>\<open>kernel/fs.c\<close>) holds the open file in the same way. Without an inode the call goes to the
  filesystem, whose answer is \<open>fs_flock\<close>, \<open>None\<close> when it has no such operation.
\<close>

definition sys_flock :: "fs_state \<Rightarrow> nat \<Rightarrow> fc_env \<Rightarrow> (nat \<Rightarrow> int res option) \<Rightarrow> int \<Rightarrow> u32 \<Rightarrow> fs_state \<times> fc_out" where
  "sys_flock s cur env fs_flock f operation =
     (case f_get_retain s cur f of
        (s1, None) \<Rightarrow> (s1, FcRet (Inl EBADF) None)
      | (s1, Some a) \<Rightarrow>
          (case heap_get (fs_fds s1) a of
             None \<Rightarrow> (s1, FcRet (Inl EBADF) None)
           | Some x \<Rightarrow>
               if fo_inode x = None then
                 (fst (fd_close s1 a), FcRet (case fs_flock a of None \<Rightarrow> Inl EBADF | Some r \<Rightarrow> r) None)
               else (case flock_lock (fs_locks s1) (fc_tid env) (lk_env_of env (fs_tasks s1 ! cur)) (lk_fd_of a x) operation of
                   (lk, LkDone r) \<Rightarrow> (fst (fd_close (s1\<lparr>fs_locks := lk\<rparr>) a), FcRet (map_sum id (\<lambda>_. 0) r) None)
                 | (lk, LkSleep) \<Rightarrow> (s1\<lparr>fs_locks := lk\<rparr>, FcSleep))))"

definition sys_flock_wake :: "fs_state \<Rightarrow> nat \<Rightarrow> sleeper \<Rightarrow> bool \<Rightarrow> fs_state \<times> fc_out" where
  "sys_flock_wake s a w interrupted =
     (case flock_wake (fs_locks s) w interrupted of
        (lk, LkDone r) \<Rightarrow> (fst (fd_close (s\<lparr>fs_locks := lk\<rparr>) a), FcRet (map_sum id (\<lambda>_. 0) r) None)
      | (lk, LkSleep) \<Rightarrow> (s\<lparr>fs_locks := lk\<rparr>, FcSleep))"

end
