(* ===== verification/FdTable_Inv.thy ===== *)
theory FdTable_Inv
  imports FdTable
begin

text \<open>
  The invariant of open files and descriptor tables: the count of an open file is the number
  of slots of live tables that hold it plus the references callers hold meanwhile; the
  count of a table is the number of tasks that use it; every mark of close-on-exec has a
  place. Every operation keeps it, handing references over as it goes.
\<close>

section \<open>Bit sets\<close>

locale bitset =
  fixes test :: "nat \<Rightarrow> 'b \<Rightarrow> bool" and mark :: "nat \<Rightarrow> 'b \<Rightarrow> 'b" and clear :: "nat \<Rightarrow> 'b \<Rightarrow> 'b"
    and cap :: "'b \<Rightarrow> nat"
  assumes test_mark: "i < cap b \<Longrightarrow> j < cap b \<Longrightarrow> test j (mark i b) \<longleftrightarrow> j = i \<or> test j b"
    and test_clear: "i < cap b \<Longrightarrow> j < cap b \<Longrightarrow> test j (clear i b) \<longleftrightarrow> j \<noteq> i \<and> test j b"
    and cap_mark: "cap (mark i b) = cap b"
    and cap_clear: "cap (clear i b) = cap b"
begin

lemma test_mark_clear: "i < cap b \<Longrightarrow> j < cap b \<Longrightarrow> test j (mark i (clear i b)) \<longleftrightarrow> j = i \<or> test j b"
  by (auto simp: test_mark test_clear cap_clear)

lemma test_clear_mark: "i < cap b \<Longrightarrow> j < cap b \<Longrightarrow> test j (clear i (mark i b)) \<longleftrightarrow> j \<noteq> i \<and> test j b"
  by (auto simp: test_mark test_clear cap_mark)

end

lemma bit_test_bit: "bit_test i data \<longleftrightarrow> bit (data ! (i div 8)) (i mod 8)"
  using and_exp_eq_0_iff_not_bit [of "data ! (i div 8)" "i mod 8"]
  by (simp add: bit_test_def push_bit_of_1)

lemma div_mod_8_eq: "i div 8 = j div 8 \<Longrightarrow> i mod 8 = j mod 8 \<longleftrightarrow> i = (j::nat)"
  by (metis mult_div_mod_eq)

lemma bit_one_shift: "n < 8 \<Longrightarrow> bit (2 ^ m :: u8) n \<longleftrightarrow> n = m"
  by (auto simp: bit_exp_iff)

interpretation bs: bitset bit_test bit_set bit_clear "\<lambda>b. 8 * length b"
proof
  fix i j :: nat and b :: "u8 list"
  assume ij: "i < 8 * length b" "j < 8 * length b"
  then have d: "i div 8 < length b" "j div 8 < length b" by auto
  show "bit_test j (bit_set i b) \<longleftrightarrow> j = i \<or> bit_test j b"
    using d div_mod_8_eq [of j i]
    by (cases "i div 8 = j div 8") (auto simp: bit_test_bit bit_set_def bit_or_iff bit_one_shift nth_list_update)
  show "bit_test j (bit_clear i b) \<longleftrightarrow> j \<noteq> i \<and> bit_test j b"
    using d div_mod_8_eq [of j i]
    by (cases "i div 8 = j div 8")
      (auto simp: bit_test_bit bit_clear_def bit_and_iff bit_not_iff bit_one_shift nth_list_update)
qed (simp_all add: bit_set_def bit_clear_def)

lemma bits_length [simp]: "length (bit_set i b) = length b" "length (bit_clear i b) = length b"
  by (simp_all add: bit_set_def bit_clear_def)

section \<open>Counts\<close>

interpretation fdr: refcounted fo_refcount fd_retain fd_unref
proof
  fix h a and x :: fd_obj
  assume x: "heap_get h a = Some x"
  show "\<exists>y. fo_refcount y = fo_refcount x + 1 \<and> (\<forall>b. heap_get (fd_retain h a) b = (if b = a then Some y else heap_get h b))"
    using x by (intro exI [of _ "x\<lparr>fo_refcount := fo_refcount x + 1\<rparr>"]) (simp add: fd_retain_def)
  show "\<exists>y. fo_refcount y = fo_refcount x - 1 \<and> (\<forall>b. heap_get (fd_unref h a) b =
      (if b = a then if fo_refcount x = 1 then None else Some y else heap_get h b))"
    using x by (intro exI [of _ "x\<lparr>fo_refcount := fo_refcount x - 1\<rparr>"]) (simp add: fd_unref_def)
qed

interpretation ftr: refcounted ft_refcount fdtable_retain fdtable_unref
proof
  fix h a and x :: fdtable
  assume x: "heap_get h a = Some x"
  show "\<exists>y. ft_refcount y = ft_refcount x + 1 \<and> (\<forall>b. heap_get (fdtable_retain h a) b = (if b = a then Some y else heap_get h b))"
    using x by (intro exI [of _ "x\<lparr>ft_refcount := ft_refcount x + 1\<rparr>"]) (simp add: fdtable_retain_def)
  show "\<exists>y. ft_refcount y = ft_refcount x - 1 \<and> (\<forall>b. heap_get (fdtable_unref h a) b =
      (if b = a then if ft_refcount x = 1 then None else Some y else heap_get h b))"
    using x by (intro exI [of _ "x\<lparr>ft_refcount := ft_refcount x - 1\<rparr>"]) (simp add: fdtable_unref_def)
qed

text \<open>References from the slots of the live tables.\<close>

definition tab_refs :: "nat option list \<Rightarrow> nat \<Rightarrow> nat" where
  "tab_refs files a = count_where (\<lambda>c. c = Some a) files"

definition slot_refs :: "fdtable heap \<Rightarrow> nat \<Rightarrow> nat" where
  "slot_refs tabs a = (\<Sum>T \<leftarrow> tabs. case T of None \<Rightarrow> 0 | Some T \<Rightarrow> tab_refs (ft_files T) a)"

lemma tab_refs_update:
  "n < length files \<Longrightarrow> tab_refs (files[n := c]) a + ref1 (files ! n) a = tab_refs files a + ref1 c a"
  using count_where_update [of n files "\<lambda>c. c = Some a" c] by (simp add: tab_refs_def ref1_def)

lemma tab_refs_simps [simp]:
  "tab_refs [] a = 0" "tab_refs (c # cs) a = ref1 c a + tab_refs cs a" "tab_refs (xs @ ys) a = tab_refs xs a + tab_refs ys a"
  "tab_refs (replicate n None) a = 0"
  by (auto simp: tab_refs_def ref1_def count_where_def)

lemma slot_refs_put:
  "heap_get tabs t = Some T \<Longrightarrow> slot_refs (heap_put tabs t T') a + tab_refs (ft_files T) a = slot_refs tabs a + tab_refs (ft_files T') a"
  using sum_list_update_nat [of t tabs "\<lambda>T. case T of None \<Rightarrow> 0 | Some T \<Rightarrow> tab_refs (ft_files T) a" "Some T'"]
  by (simp add: slot_refs_def heap_put_def heap_get_def split: if_splits)

lemma slot_refs_free:
  "heap_get tabs t = Some T \<Longrightarrow> slot_refs (heap_free tabs t) a + tab_refs (ft_files T) a = slot_refs tabs a"
  using sum_list_update_nat [of t tabs "\<lambda>T. case T of None \<Rightarrow> 0 | Some T \<Rightarrow> tab_refs (ft_files T) a" None]
  by (simp add: slot_refs_def heap_free_def heap_get_def split: if_splits)

lemma slot_refs_alloc: "slot_refs (fst (heap_alloc tabs T)) a = slot_refs tabs a + tab_refs (ft_files T) a"
  by (simp add: slot_refs_def heap_alloc_def)

section \<open>The invariant\<close>

definition tab_ok :: "fdtable \<Rightarrow> bool" where
  "tab_ok T \<longleftrightarrow> 0 < length (ft_files T) \<and> length (ft_files T) \<le> 8 * length (ft_cloexec T)"

definition tasks_of :: "fs_state \<Rightarrow> nat \<Rightarrow> nat" where
  "tasks_of s t = count_where (\<lambda>u. u = t) (fs_tasks s)"

text \<open>\<open>X\<close> and \<open>Y\<close> are references held by callers: to open files and to tables.\<close>

definition fs_inv :: "fs_state \<Rightarrow> (nat \<Rightarrow> nat) \<Rightarrow> (nat \<Rightarrow> nat) \<Rightarrow> bool" where
  "fs_inv s X Y \<longleftrightarrow> counted fo_refcount (fs_fds s) (\<lambda>a. slot_refs (fs_tabs s) a + X a) \<and>
     counted ft_refcount (fs_tabs s) (\<lambda>t. tasks_of s t + Y t) \<and>
     (\<forall>t T. heap_get (fs_tabs s) t = Some T \<longrightarrow> tab_ok T)"

lemma fs_invD:
  assumes "fs_inv s X Y"
  shows "counted fo_refcount (fs_fds s) (\<lambda>a. slot_refs (fs_tabs s) a + X a)"
    and "counted ft_refcount (fs_tabs s) (\<lambda>t. tasks_of s t + Y t)"
    and "heap_get (fs_tabs s) t = Some T \<Longrightarrow> tab_ok T"
  using assms by (auto simp: fs_inv_def)

lemma task_tab_live:
  assumes "fs_inv s X Y" and "cur < length (fs_tasks s)"
  obtains T where "heap_get (fs_tabs s) (fs_tasks s ! cur) = Some T"
proof -
  have "0 < tasks_of s (fs_tasks s ! cur)"
    unfolding tasks_of_def by (rule count_where_pos [OF assms(2)]) simp
  then show thesis using countedD(3) [OF fs_invD(2) [OF assms(1)], of "fs_tasks s ! cur"] that by auto
qed

lemma get_tab_live: "heap_get (fs_tabs s) t = Some T \<Longrightarrow> get_tab s t = T"
  by (simp add: get_tab_def)

lemma slot_live:
  assumes "fs_inv s X Y" and "heap_get (fs_tabs s) t = Some T" and "n < length (ft_files T)" and "ft_files T ! n = Some a"
  shows "\<exists>x. heap_get (fs_fds s) a = Some x"
proof -
  have "0 < tab_refs (ft_files T) a" unfolding tab_refs_def by (rule count_where_pos [OF assms(3)]) (simp add: assms(4))
  then have "0 < slot_refs (fs_tabs s) a" using slot_refs_free [OF assms(2), of a] by simp
  then show ?thesis using countedD(3) [OF fs_invD(1) [OF assms(1)], of a] by simp
qed

text \<open>Open files: a reference taken, dropped, or an object changed in place.\<close>

lemma fs_inv_retain:
  assumes "fs_inv s X Y" and "heap_get (fs_fds s) a = Some x"
  shows "fs_inv (s\<lparr>fs_fds := fd_retain (fs_fds s) a\<rparr>) (\<lambda>b. X b + ref1 (Some a) b) Y"
  using assms(1) counted_cong [OF fdr.counted_retain [OF fs_invD(1) [OF assms(1)] assms(2)]]
  by (auto simp: fs_inv_def tasks_of_def)

lemma fd_close_tabs [simp]: "fs_tabs (fst (fd_close s a)) = fs_tabs s" "fs_tasks (fst (fd_close s a)) = fs_tasks s"
  by (auto simp: fd_close_def split: option.splits)

lemma fd_close_fds: "fs_fds (fst (fd_close s a)) = fd_unref (fs_fds s) a"
  by (auto simp: fd_close_def fd_unref_def split: option.splits)

lemma fs_inv_close:
  assumes "fs_inv s (\<lambda>b. X b + ref1 (Some a) b) Y"
  shows "fs_inv (fst (fd_close s a)) X Y"
proof -
  have "counted fo_refcount (fs_fds s) (\<lambda>b. (slot_refs (fs_tabs s) b + X b) + ref1 (Some a) b)"
    by (rule counted_cong [OF fs_invD(1) [OF assms]]) simp
  from fdr.counted_release [OF this] show ?thesis
    using assms by (auto simp: fs_inv_def tasks_of_def fd_close_fds)
qed

lemma finish_close_tabs [simp]:
  "fs_tabs (fst (fdtable_finish_close s a t)) = fs_tabs s" "fs_tasks (fst (fdtable_finish_close s a t)) = fs_tasks s"
  by (auto simp: fdtable_finish_close_def Let_def split: option.splits)

lemma fs_inv_locks [simp]: "fs_inv (s\<lparr>fs_locks := l\<rparr>) X Y = fs_inv s X Y"
  by (simp add: fs_inv_def tasks_of_def)

lemma fs_inv_finish_close:
  "fs_inv s (\<lambda>b. X b + ref1 (Some a) b) Y \<Longrightarrow> fs_inv (fst (fdtable_finish_close s a t)) X Y"
  by (auto simp: fdtable_finish_close_def Let_def split: option.splits intro: fs_inv_close)

lemma fs_inv_put_fd:
  "fs_inv s X Y \<Longrightarrow> heap_get (fs_fds s) a = Some x \<Longrightarrow> fo_refcount y = fo_refcount x \<Longrightarrow> fs_inv (put_fd s a y) X Y"
  by (auto simp: fs_inv_def put_fd_def tasks_of_def intro: counted_put)

text \<open>Tables: what goes into a slot and what comes out of it.\<close>

lemma fs_inv_put_tab:
  assumes "fs_inv s X Y" and T: "heap_get (fs_tabs s) t = Some T" and "ft_refcount T' = ft_refcount T" and "tab_ok T'"
    and refs: "\<And>a. tab_refs (ft_files T') a + X' a = tab_refs (ft_files T) a + X a"
  shows "fs_inv (put_tab s t T') X' Y"
proof -
  have "counted fo_refcount (fs_fds s) (\<lambda>a. slot_refs (heap_put (fs_tabs s) t T') a + X' a)"
  proof (rule counted_cong [OF fs_invD(1) [OF assms(1)]])
    fix a
    show "slot_refs (fs_tabs s) a + X a = slot_refs (heap_put (fs_tabs s) t T') a + X' a"
      using slot_refs_put [OF T, of T' a] refs [of a] by linarith
  qed
  moreover have "counted ft_refcount (heap_put (fs_tabs s) t T') (\<lambda>t. tasks_of s t + Y t)"
    by (rule counted_put [OF fs_invD(2) [OF assms(1)] T assms(3)])
  ultimately show ?thesis
    using assms(1,4) T by (auto simp: fs_inv_def put_tab_def tasks_of_def split: if_splits)
qed

lemma tab_ok_update:
  "tab_ok T \<Longrightarrow> length files = length (ft_files T) \<Longrightarrow> length bits = length (ft_cloexec T) \<Longrightarrow>
     tab_ok (T\<lparr>ft_files := files, ft_cloexec := bits\<rparr>)"
  by (simp add: tab_ok_def)

lemma put_tab_get [simp]:
  "heap_get (fs_tabs s) t = Some T \<Longrightarrow> heap_get (fs_tabs (put_tab s t T')) u = (if u = t then Some T' else heap_get (fs_tabs s) u)"
  by (simp add: put_tab_def)

lemma put_tab_simps [simp]:
  "fs_fds (put_tab s t T) = fs_fds s" "fs_tasks (put_tab s t T) = fs_tasks s" "fs_locks (put_tab s t T) = fs_locks s"
  by (simp_all add: put_tab_def)

lemma fs_inv_detach:
  assumes "fs_inv s X Y" and T: "heap_get (fs_tabs s) t = Some T" and d: "fdtable_detach s t f = (s', r)"
  shows "fs_inv s' (\<lambda>a. X a + ref1 r a) Y"
proof (cases "fdtable_get T f")
  case None
  then show ?thesis using assms by (simp add: fdtable_detach_def get_tab_live [OF T] Let_def)
next
  case (Some a)
  then have f: "nat f < length (ft_files T)" "ft_files T ! nat f = Some a"
    by (auto simp: fdtable_get_def split: if_splits)
  let ?T = "T\<lparr>ft_files := (ft_files T)[nat f := None], ft_cloexec := bit_clear (nat f) (ft_cloexec T)\<rparr>"
  have "fs_inv (put_tab s t ?T) (\<lambda>b. X b + ref1 (Some a) b) Y"
    by (rule fs_inv_put_tab [OF assms(1) T])
      (use tab_refs_update [OF f(1), of None] f(2) fs_invD(3) [OF assms(1) T] in \<open>auto simp: tab_ok_def\<close>)
  moreover have "s' = put_tab s t ?T" "r = Some a" using Some d by (simp_all add: fdtable_detach_def get_tab_live [OF T])
  ultimately show ?thesis by simp
qed

lemma detach_tab:
  assumes T: "heap_get (fs_tabs s) t = Some T" and d: "fdtable_detach s t f = (s', r)"
  shows "r = fdtable_get T f" and "fs_tasks s' = fs_tasks s" and "fs_fds s' = fs_fds s" and "fs_locks s' = fs_locks s"
    and "heap_get (fs_tabs s') u = (if u = t then Some (if fdtable_get T f = None then T else
      T\<lparr>ft_files := (ft_files T)[nat f := None], ft_cloexec := bit_clear (nat f) (ft_cloexec T)\<rparr>) else heap_get (fs_tabs s) u)"
  using d T by (auto simp: fdtable_detach_def get_tab_live [OF T] Let_def split: option.splits)

lemma fdtable_close_eq:
  "fdtable_close s t f = (case fdtable_detach s t f of (s', None) \<Rightarrow> (s', Inl EBADF) | (s', Some a) \<Rightarrow> fdtable_finish_close s' a t)"
  by (simp add: fdtable_close_def)

lemma fs_inv_fdtable_close:
  assumes "fs_inv s X Y" and "heap_get (fs_tabs s) t = Some T"
  shows "fs_inv (fst (fdtable_close s t f)) X Y"
proof -
  obtain s' r where d: "fdtable_detach s t f = (s', r)" by fastforce
  from fs_inv_detach [OF assms d] show ?thesis
    by (cases r) (auto simp: fdtable_close_def d intro: fs_inv_finish_close)
qed

text \<open>What a close leaves: the slot is empty, everything else in the tables is as it was.\<close>

lemma fdtable_close_tab:
  assumes T: "heap_get (fs_tabs s) t = Some T"
  shows "fs_tasks (fst (fdtable_close s t f)) = fs_tasks s"
    and "heap_get (fs_tabs (fst (fdtable_close s t f))) u = (if u = t then Some (if fdtable_get T f = None then T else
      T\<lparr>ft_files := (ft_files T)[nat f := None], ft_cloexec := bit_clear (nat f) (ft_cloexec T)\<rparr>) else heap_get (fs_tabs s) u)"
proof -
  obtain s' r where d: "fdtable_detach s t f = (s', r)" by fastforce
  note dt = detach_tab [OF T d]
  show "fs_tasks (fst (fdtable_close s t f)) = fs_tasks s"
    using dt(2) by (cases r) (simp_all add: fdtable_close_def d)
  show "heap_get (fs_tabs (fst (fdtable_close s t f))) u = (if u = t then Some (if fdtable_get T f = None then T else
      T\<lparr>ft_files := (ft_files T)[nat f := None], ft_cloexec := bit_clear (nat f) (ft_cloexec T)\<rparr>) else heap_get (fs_tabs s) u)"
    using dt(5) by (cases r) (simp_all add: fdtable_close_def d)
qed

text \<open>The view of a table: which open file each number names, and whether it is marked.\<close>

definition ft_view :: "fdtable \<Rightarrow> nat \<Rightarrow> (nat \<times> bool) option" where
  "ft_view T n = (if n < length (ft_files T) then map_option (\<lambda>a. (a, bit_test n (ft_cloexec T))) (ft_files T ! n) else None)"

lemma fdtable_get_view: "fdtable_get T f = (if f < 0 then None else map_option fst (ft_view T (nat f)))"
  by (auto simp: fdtable_get_def ft_view_def option.map_comp comp_def option.map_ident)

lemma view_detach:
  assumes "tab_ok T"
  shows "ft_view (if fdtable_get T f = None then T else
      T\<lparr>ft_files := (ft_files T)[nat f := None], ft_cloexec := bit_clear (nat f) (ft_cloexec T)\<rparr>)
    = (if f < 0 then ft_view T else (ft_view T)(nat f := None))"
proof (cases "fdtable_get T f = None")
  case True
  then show ?thesis by (auto simp: fdtable_get_view fun_eq_iff)
next
  case False
  then have f: "0 \<le> f" "nat f < length (ft_files T)" by (auto simp: fdtable_get_def split: if_splits)
  have "ft_view (T\<lparr>ft_files := (ft_files T)[nat f := None], ft_cloexec := bit_clear (nat f) (ft_cloexec T)\<rparr>) n
      = ((ft_view T)(nat f := None)) n" for n
    using f assms bs.test_clear [of "nat f" "ft_cloexec T" n] by (auto simp: ft_view_def tab_ok_def nth_list_update)
  then show ?thesis using False f(1) by auto
qed

section \<open>Growing a table and filling a slot\<close>

lemma BITS_SIZE_enough: "n \<le> 8 * BITS_SIZE n"
  by (simp add: BITS_SIZE_def)

lemma bit_test_append: "n < 8 * length b \<Longrightarrow> bit_test n (b @ c) = bit_test n b"
  using less_mult_imp_div_less [of n "length b" 8] by (simp add: bit_test_def nth_append mult.commute)

lemma fdtable_expandD:
  assumes "fdtable_expand rlim alloc T mx = Inr T'" and "tab_ok T"
  shows "tab_ok T'" and "ft_view T' = ft_view T" and "mx < length (ft_files T')" and "mx < rlim"
    and "ft_refcount T' = ft_refcount T" and "tab_refs (ft_files T') a = tab_refs (ft_files T) a"
    and "length (ft_files T) \<le> length (ft_files T')"
proof -
  consider "T' = T" "mx < length (ft_files T)" | "length (ft_files T) \<le> mx"
      "T' = T\<lparr>ft_files := ft_files T @ replicate (mx + 1 - length (ft_files T)) None,
            ft_cloexec := ft_cloexec T @ replicate (BITS_SIZE (mx + 1) - length (ft_cloexec T)) 0\<rparr>"
    using assms(1) by (auto simp: fdtable_expand_def fdtable_resize_def split: if_splits)
  then have "tab_ok T' \<and> ft_view T' = ft_view T \<and> mx < length (ft_files T') \<and> ft_refcount T' = ft_refcount T \<and>
      tab_refs (ft_files T') a = tab_refs (ft_files T) a \<and> length (ft_files T) \<le> length (ft_files T')"
  proof cases
    case 2
    have "tab_ok T'" using 2(2) BITS_SIZE_enough [of "mx + 1"] 2(1) by (simp add: tab_ok_def)
    moreover have "ft_view T' = ft_view T"
      using assms(2) 2 by (auto simp: ft_view_def fun_eq_iff nth_append bit_test_append tab_ok_def)
    ultimately show ?thesis using 2 by simp
  qed (use assms(2) in auto)
  then show "tab_ok T'" "ft_view T' = ft_view T" "mx < length (ft_files T')" "ft_refcount T' = ft_refcount T"
      "tab_refs (ft_files T') a = tab_refs (ft_files T) a" "length (ft_files T) \<le> length (ft_files T')"
    by blast+
  show "mx < rlim" using assms(1) by (auto simp: fdtable_expand_def split: if_splits)
qed

text \<open>A slot that is empty takes over a reference.\<close>

lemma fs_inv_fill:
  assumes "fs_inv s (\<lambda>b. X b + ref1 (Some a) b) Y" and T: "heap_get (fs_tabs s) t = Some T"
    and T': "ft_refcount T' = ft_refcount T" "tab_ok T'" "\<And>b. tab_refs (ft_files T') b = tab_refs (ft_files T) b"
    and n: "n < length (ft_files T')" "ft_files T' ! n = None" and "length bits = length (ft_cloexec T')"
  shows "fs_inv (put_tab s t (T'\<lparr>ft_files := (ft_files T')[n := Some a], ft_cloexec := bits\<rparr>)) X Y"
  by (rule fs_inv_put_tab [OF assms(1) T])
    (use tab_refs_update [OF n(1), of "Some a"] n(2) T' assms(8) in \<open>auto simp: tab_ok_def\<close>)

lemma view_fill:
  assumes "tab_ok T" and "n < length (ft_files T)"
  shows "ft_view (T\<lparr>ft_files := (ft_files T)[n := Some a], ft_cloexec := bit_clear n (ft_cloexec T)\<rparr>) = (ft_view T)(n \<mapsto> (a, False))"
    and "ft_view (T\<lparr>ft_files := (ft_files T)[n := Some a], ft_cloexec := bit_set n (ft_cloexec T)\<rparr>) = (ft_view T)(n \<mapsto> (a, True))"
  using assms bs.test_clear [of n "ft_cloexec T"] bs.test_mark [of n "ft_cloexec T"]
  by (auto simp: ft_view_def tab_ok_def fun_eq_iff nth_list_update)

lemma view_mark:
  assumes "tab_ok T" and "n < length (ft_files T)"
  shows "ft_view (T\<lparr>ft_cloexec := bit_set n (ft_cloexec T)\<rparr>) = (ft_view T)(n := map_option (\<lambda>(a, _). (a, True)) (ft_view T n))"
    and "ft_view (T\<lparr>ft_cloexec := bit_clear n (ft_cloexec T)\<rparr>) = (ft_view T)(n := map_option (\<lambda>(a, _). (a, False)) (ft_view T n))"
  using assms bs.test_clear [of n "ft_cloexec T"] bs.test_mark [of n "ft_cloexec T"]
  by (auto simp: ft_view_def tab_ok_def fun_eq_iff option.map_comp comp_def intro!: option.map_cong)

lemma fs_inv_mark:
  assumes "fs_inv s X Y" and T: "heap_get (fs_tabs s) t = Some T" and "length bits = length (ft_cloexec T)"
  shows "fs_inv (put_tab s t (T\<lparr>ft_cloexec := bits\<rparr>)) X Y"
  by (rule fs_inv_put_tab [OF assms(1) T]) (use fs_invD(3) [OF assms(1) T] assms(3) in \<open>auto simp: tab_ok_def\<close>)

lemma fs_inv_set_cloexec:
  assumes "fs_inv s X Y" and "heap_get (fs_tabs s) t = Some T"
  shows "fs_inv (set_cloexec s t f) X Y" and "fs_inv (clear_cloexec s t f) X Y"
  using fs_inv_mark [OF assms] by (simp_all add: set_cloexec_def clear_cloexec_def get_tab_live [OF assms(2)] Let_def)

text \<open>The search for a number.\<close>

lemma first_free:
  assumes "sz \<le> length files"
  shows "start \<le> first_free files sz start"
    and "first_free files sz start < sz \<Longrightarrow> files ! first_free files sz start = None"
    and "start \<le> n \<Longrightarrow> n < sz \<Longrightarrow> n < first_free files sz start \<Longrightarrow> files ! n \<noteq> None"
    and "sz \<le> first_free files sz start \<Longrightarrow> first_free files sz start = max start sz"
proof -
  consider "find (\<lambda>f. files ! f = None) [start..<sz] = None" "first_free files sz start = max start sz" "\<forall>n \<in> {start..<sz}. files ! n \<noteq> None"
    | f where "find (\<lambda>f. files ! f = None) [start..<sz] = Some f" "first_free files sz start = f" "start \<le> f" "f < sz"
        "files ! f = None" "\<forall>n. start \<le> n \<and> n < f \<longrightarrow> files ! n \<noteq> None"
  proof (cases "find (\<lambda>f. files ! f = None) [start..<sz]")
    case None
    then have "first_free files sz start = max start sz" by (simp add: first_free_def)
    then show thesis using that(1) [OF None] None by (auto simp: find_None_iff)
  next
    case (Some f)
    then obtain i where i: "i < sz - start" "files ! (start + i) = None" "f = start + i"
        "\<forall>j < i. files ! (start + j) \<noteq> None"
      by (auto simp: find_Some_iff)
    have "files ! n \<noteq> None" if "start \<le> n" "n < f" for n
      using i(3,4) that by (metis add_diff_inverse_nat diff_less_mono not_less add_diff_cancel_left')
    then show thesis using that(2) [OF Some] Some i by (auto simp: first_free_def)
  qed
  then show "start \<le> first_free files sz start" "first_free files sz start < sz \<Longrightarrow> files ! first_free files sz start = None"
    "start \<le> n \<Longrightarrow> n < sz \<Longrightarrow> n < first_free files sz start \<Longrightarrow> files ! n \<noteq> None"
    "sz \<le> first_free files sz start \<Longrightarrow> first_free files sz start = max start sz"
    by (cases; auto)+
qed

end
