(* ===== verification/FdTable_Ops.thy ===== *)
theory FdTable_Ops
  imports FdTable_Inv
begin

text \<open>
  What each call on descriptors does to the invariant and to the view of the tables. A view
  maps a number to the open file and the close-on-exec mark; all but the table in use keep
  theirs.
\<close>

definition tab_view :: "fs_state \<Rightarrow> nat \<Rightarrow> nat \<Rightarrow> (nat \<times> bool) option" where
  "tab_view s t = ft_view (get_tab s t)"

lemma tab_view_live: "heap_get (fs_tabs s) t = Some T \<Longrightarrow> tab_view s t = ft_view T"
  by (simp add: tab_view_def get_tab_live)

lemma tab_view_cong: "fs_tabs s' = fs_tabs s \<Longrightarrow> tab_view s' = tab_view s"
  by (simp add: tab_view_def get_tab_def fun_eq_iff)

lemma tab_view_put:
  "heap_get (fs_tabs s) t = Some T \<Longrightarrow> tab_view (put_tab s t T') u = (if u = t then ft_view T' else tab_view s u)"
  by (auto simp: tab_view_def get_tab_def put_tab_def)

text \<open>\<open>live s t\<close>: the table is there.\<close>

definition live_tab :: "fs_state \<Rightarrow> nat \<Rightarrow> bool" where
  "live_tab s t \<longleftrightarrow> heap_get (fs_tabs s) t \<noteq> None"

lemma live_tabE: "live_tab s t \<Longrightarrow> (\<And>T. heap_get (fs_tabs s) t = Some T \<Longrightarrow> get_tab s t = T \<Longrightarrow> P) \<Longrightarrow> P"
  by (auto simp: live_tab_def get_tab_live)

lemma live_tab_put [simp]: "live_tab s t \<Longrightarrow> live_tab (put_tab s t T) u = live_tab s u"
  by (auto simp: live_tab_def put_tab_def split: if_splits)

section \<open>Closing\<close>

lemma detach_ok:
  assumes "fs_inv s X Y" and "live_tab s t" and d: "fdtable_detach s t f = (s', r)"
  shows "fs_inv s' (\<lambda>a. X a + ref1 r a) Y"
    and "tab_view s' u = (if u = t \<and> 0 \<le> f then (tab_view s t)(nat f := None) else tab_view s u)"
    and "live_tab s' u = live_tab s u"
    and "r = fdtable_get (get_tab s t) f" and "fs_tasks s' = fs_tasks s" and "fs_fds s' = fs_fds s" and "fs_locks s' = fs_locks s"
    and "length (ft_files (get_tab s' u)) = length (ft_files (get_tab s u))"
proof -
  obtain T where T: "heap_get (fs_tabs s) t = Some T" "get_tab s t = T" using assms(2) by (rule live_tabE)
  note dt = detach_tab [OF T(1) d]
  show "fs_inv s' (\<lambda>a. X a + ref1 r a) Y" by (rule fs_inv_detach [OF assms(1) T(1) d])
  show "r = fdtable_get (get_tab s t) f" "fs_tasks s' = fs_tasks s" "fs_fds s' = fs_fds s" "fs_locks s' = fs_locks s"
    using dt T(2) by simp_all
  show "live_tab s' u = live_tab s u" "length (ft_files (get_tab s' u)) = length (ft_files (get_tab s u))"
    using dt(5) [of u] T(1) by (auto simp: live_tab_def get_tab_def)
  show "tab_view s' u = (if u = t \<and> 0 \<le> f then (tab_view s t)(nat f := None) else tab_view s u)"
    using view_detach [OF fs_invD(3) [OF assms(1) T(1)], of f] dt(5) [of u] T
    by (auto simp: tab_view_def get_tab_def)
qed

lemma finish_close_view [simp]:
  "tab_view (fst (fdtable_finish_close s a t)) = tab_view s" "live_tab (fst (fdtable_finish_close s a t)) = live_tab s"
  "get_tab (fst (fdtable_finish_close s a t)) = get_tab s"
  by (simp_all add: tab_view_def live_tab_def get_tab_def fun_eq_iff)

lemma fd_close_view [simp]:
  "tab_view (fst (fd_close s a)) = tab_view s" "live_tab (fst (fd_close s a)) = live_tab s" "get_tab (fst (fd_close s a)) = get_tab s"
  by (simp_all add: tab_view_def live_tab_def get_tab_def fun_eq_iff)

text \<open>One descriptor closed, by whichever path.\<close>

lemma fdtable_close_ok:
  assumes "fs_inv s X Y" and "live_tab s t"
  shows "fs_inv (fst (fdtable_close s t f)) X Y"
    and "tab_view (fst (fdtable_close s t f)) u = (if u = t \<and> 0 \<le> f then (tab_view s t)(nat f := None) else tab_view s u)"
    and "live_tab (fst (fdtable_close s t f)) u = live_tab s u" and "fs_tasks (fst (fdtable_close s t f)) = fs_tasks s"
    and "length (ft_files (get_tab (fst (fdtable_close s t f)) u)) = length (ft_files (get_tab s u))"
proof -
  obtain s' r where d: "fdtable_detach s t f = (s', r)" by fastforce
  note dt = detach_ok [OF assms d]
  have c: "fdtable_close s t f = (case r of None \<Rightarrow> (s', Inl EBADF) | Some a \<Rightarrow> fdtable_finish_close s' a t)"
    by (simp add: fdtable_close_def d)
  show "fs_inv (fst (fdtable_close s t f)) X Y"
    using dt(1) by (cases r) (auto simp: c intro: fs_inv_finish_close)
  show "tab_view (fst (fdtable_close s t f)) u = (if u = t \<and> 0 \<le> f then (tab_view s t)(nat f := None) else tab_view s u)"
    "live_tab (fst (fdtable_close s t f)) u = live_tab s u" "fs_tasks (fst (fdtable_close s t f)) = fs_tasks s"
    "length (ft_files (get_tab (fst (fdtable_close s t f)) u)) = length (ft_files (get_tab s u))"
    using dt(2,3,5,8) by (cases r; simp add: c)+
qed

lemma f_close_eq: "f_close s cur f = fdtable_close s (fs_tasks s ! cur) f"
  by (simp add: f_close_def fdtable_close_def Let_def)

text \<open>
  A walk over slots of a table with a step that changes at most the slot it is at: closing
  every slot, closing the marked ones, and the two walks of \<^verbatim>\<open>close_range\<close>.
\<close>

locale slot_walk =
  fixes visit :: "nat \<Rightarrow> fs_state \<Rightarrow> nat \<Rightarrow> fs_state" and upd :: "(nat \<times> bool) option \<Rightarrow> (nat \<times> bool) option"
  assumes visit: "fs_inv s X Y \<Longrightarrow> live_tab s t \<Longrightarrow> n < length (ft_files (get_tab s t)) \<Longrightarrow>
      fs_inv (visit t s n) X Y \<and> live_tab (visit t s n) = live_tab s \<and> fs_tasks (visit t s n) = fs_tasks s \<and>
      length (ft_files (get_tab (visit t s n) t)) = length (ft_files (get_tab s t)) \<and>
      tab_view (visit t s n) = (tab_view s)(t := (tab_view s t)(n := upd (tab_view s t n)))"
begin

lemma walk:
  assumes "fs_inv s X Y" and "live_tab s t" and "\<And>n. n \<in> set ns \<Longrightarrow> n < length (ft_files (get_tab s t))" and "distinct ns"
  shows "fs_inv (foldl (visit t) s ns) X Y \<and> live_tab (foldl (visit t) s ns) = live_tab s \<and>
    fs_tasks (foldl (visit t) s ns) = fs_tasks s \<and>
    length (ft_files (get_tab (foldl (visit t) s ns) t)) = length (ft_files (get_tab s t)) \<and>
    tab_view (foldl (visit t) s ns) = (tab_view s)(t := (\<lambda>n. if n \<in> set ns then upd (tab_view s t n) else tab_view s t n))"
  using assms
proof (induction ns arbitrary: s)
  case (Cons n ns)
  note v = visit [OF Cons.prems(1,2), of n]
  have "fs_inv (visit t s n) X Y" "live_tab (visit t s n) t" "\<And>m. m \<in> set ns \<Longrightarrow> m < length (ft_files (get_tab (visit t s n) t))"
      "distinct ns" using v Cons.prems by simp_all
  note ih = Cons.IH [OF this]
  show ?case using ih v Cons.prems(3) [of n] Cons.prems(4) by (auto simp: fun_eq_iff)
qed simp

lemma walk_all:
  assumes "fs_inv s X Y" and "live_tab s t" and "upd None = None"
  shows "tab_view (foldl (visit t) s [0..<length (ft_files (get_tab s t))]) t = (\<lambda>n. upd (tab_view s t n))"
proof -
  have "\<not> n < length (ft_files (get_tab s t)) \<Longrightarrow> tab_view s t n = None" for n by (simp add: tab_view_def ft_view_def)
  then show ?thesis using walk [OF assms(1,2), of "[0..<length (ft_files (get_tab s t))]"] assms(3) by fastforce
qed

end

interpretation closing: slot_walk "\<lambda>t s n. fst (fdtable_close s t (int n))" "\<lambda>_. None"
  by unfold_locales (simp add: fdtable_close_ok fun_eq_iff)

section \<open>Releasing a table\<close>

lemma fdtable_release_ok:
  assumes inv: "fs_inv s X (\<lambda>u. Y u + ref1 (Some t) u)"
  shows "fs_inv (fdtable_release s t) X Y" and "fs_tasks (fdtable_release s t) = fs_tasks s"
    and "u \<noteq> t \<or> 0 < tasks_of s t + Y t \<Longrightarrow> tab_view (fdtable_release s t) u = tab_view s u"
proof -
  have cnt: "counted ft_refcount (fs_tabs s) (\<lambda>u. (tasks_of s u + Y u) + ref1 (Some t) u)"
    by (rule counted_cong [OF fs_invD(2) [OF inv]]) simp
  obtain T where T: "heap_get (fs_tabs s) t = Some T" using countedD(3) [OF cnt, of t] by auto
  then have live: "live_tab s t" and get: "get_tab s t = T" by (auto simp: live_tab_def get_tab_def)
  have rc: "ft_refcount T = tasks_of s t + Y t + 1" using countedD(1) [OF cnt T] by simp
  have "fs_inv (fdtable_release s t) X Y \<and> fs_tasks (fdtable_release s t) = fs_tasks s \<and>
    (u \<noteq> t \<or> 0 < tasks_of s t + Y t \<longrightarrow> tab_view (fdtable_release s t) u = tab_view s u)"
  proof (cases "ft_refcount T = 1")
    case False
    let ?tabs = "fdtable_unref (fs_tabs s) t"
    have u: "?tabs = heap_put (fs_tabs s) t (T\<lparr>ft_refcount := ft_refcount T - 1\<rparr>)" using T False by (simp add: fdtable_unref_def)
    have "slot_refs ?tabs a = slot_refs (fs_tabs s) a" for a using slot_refs_put [OF T, of "T\<lparr>ft_refcount := ft_refcount T - 1\<rparr>" a] u by simp
    moreover have "heap_get ?tabs v = Some V \<Longrightarrow> tab_ok V" for v V
      using fs_invD(3) [OF inv, of v] fs_invD(3) [OF inv T] T by (auto simp: u tab_ok_def split: if_splits)
    ultimately have "fs_inv (s\<lparr>fs_tabs := ?tabs\<rparr>) X Y"
      using fs_invD(1) [OF inv] ftr.counted_release [OF cnt] by (simp add: fs_inv_def tasks_of_def)
    moreover have "tab_view (s\<lparr>fs_tabs := ?tabs\<rparr>) u = tab_view s u"
      using T by (auto simp: tab_view_def get_tab_def u ft_view_def)
    ultimately show ?thesis using False get by (simp add: fdtable_release_def Let_def)
  next
    case True
    let ?s = "close_each s t [0..<length (ft_files T)]"
    have c: "fs_inv ?s X (\<lambda>u. Y u + ref1 (Some t) u)" "live_tab ?s = live_tab s" "fs_tasks ?s = fs_tasks s"
      and view: "tab_view ?s u = (if u = t then Map.empty else tab_view s u)" for u
      using closing.walk [OF inv live, of "[0..<length (ft_files T)]"] closing.walk_all [OF inv live] get
      by (auto simp: close_each_def)
    have "live_tab ?s t" using c(2) live by simp
    then obtain T' where T': "heap_get (fs_tabs ?s) t = Some T'" "get_tab ?s t = T'" by (rule live_tabE)
    have "ft_files T' ! n = None" if "n < length (ft_files T')" for n
      using view [of t] that T' by (auto simp: tab_view_def fun_eq_iff ft_view_def split: if_splits)
    then have none: "tab_refs (ft_files T') a = 0" for a by (auto simp: tab_refs_def count_where_0_iff in_set_conv_nth)
    have cnt': "counted ft_refcount (fs_tabs ?s) (\<lambda>u. (tasks_of s u + Y u) + ref1 (Some t) u)"
      by (rule counted_cong [OF fs_invD(2) [OF c(1)]]) (simp add: tasks_of_def c(3))
    have rc': "ft_refcount T' = 1" using countedD(1) [OF cnt' T'(1)] rc True by simp
    have u: "fdtable_unref (fs_tabs ?s) t = heap_free (fs_tabs ?s) t" using T' rc' by (simp add: fdtable_unref_def)
    have "slot_refs (heap_free (fs_tabs ?s) t) a = slot_refs (fs_tabs ?s) a" for a
      using slot_refs_free [OF T'(1), of a] none by simp
    then have "fs_inv (?s\<lparr>fs_tabs := fdtable_unref (fs_tabs ?s) t\<rparr>) X Y"
      using fs_invD(1,3) [OF c(1)] ftr.counted_release [OF cnt']
      by (auto simp: fs_inv_def tasks_of_def c(3) u split: if_splits)
    moreover have "u \<noteq> t \<Longrightarrow> tab_view (?s\<lparr>fs_tabs := fdtable_unref (fs_tabs ?s) t\<rparr>) u = tab_view s u" for u
      using view [of u] by (simp add: tab_view_def get_tab_def u)
    ultimately show ?thesis using True rc get c(3) by (auto simp: fdtable_release_def Let_def)
  qed
  then show "fs_inv (fdtable_release s t) X Y" "fs_tasks (fdtable_release s t) = fs_tasks s"
    "u \<noteq> t \<or> 0 < tasks_of s t + Y t \<Longrightarrow> tab_view (fdtable_release s t) u = tab_view s u" by auto
qed

section \<open>Installing\<close>

lemma expand_fresh:
  assumes "fdtable_expand rlim alloc T mx = Inr T'" and "length (ft_files T) \<le> n" and "n < length (ft_files T')"
  shows "ft_files T' ! n = None"
  using assms by (auto simp: fdtable_expand_def fdtable_resize_def nth_append split: if_splits)

lemma view_None: "n < length (ft_files T) \<Longrightarrow> ft_view T n = None \<longleftrightarrow> ft_files T ! n = None"
  by (simp add: ft_view_def)

text \<open>The lowest free number from \<open>start\<close>, as long as it is below the limit.\<close>

definition lowest_free :: "(nat \<Rightarrow> (nat \<times> bool) option) \<Rightarrow> nat \<Rightarrow> nat \<Rightarrow> nat \<Rightarrow> bool" where
  "lowest_free v start limit f \<longleftrightarrow> start \<le> f \<and> f < limit \<and> v f = None \<and> (\<forall>n. start \<le> n \<and> n < f \<longrightarrow> v n \<noteq> None)"

lemma f_install_startE:
  assumes inv: "fs_inv s (\<lambda>b. X b + ref1 (Some a) b) Y" and live: "live_tab s (fs_tasks s ! cur)"
    and lim: "fe_rlimit env < 2 ^ 32" and i: "f_install_start s cur env a start = (s', r)"
  obtains (fail) e where "r = Inl e" "s' = fst (fd_close s a)" "fs_inv s' X Y"
      "e = EMFILE \<and> (\<forall>n. start \<le> n \<and> n < fe_rlimit env \<longrightarrow> tab_view s (fs_tasks s ! cur) n \<noteq> None) \<or> e = ENOMEM \<and> \<not> fe_alloc env"
    | (ok) f T where "r = Inr f" "fs_inv s' X Y" "lowest_free (tab_view s (fs_tasks s ! cur)) start (fe_rlimit env) f"
      "s' = put_tab s (fs_tasks s ! cur) T" "ft_view T = (tab_view s (fs_tasks s ! cur))(f \<mapsto> (a, False))"
      "f < length (ft_files T)"
proof -
  define t where "t = fs_tasks s ! cur"
  obtain T where T: "heap_get (fs_tabs s) t = Some T" "get_tab s t = T" using live unfolding t_def by (rule live_tabE)
  define sz where "sz = min (fe_rlimit env) (length (ft_files T))"
  define f where "f = first_free (ft_files T) sz start"
  have szl: "sz \<le> length (ft_files T)" by (simp add: sz_def)
  note ff = first_free [OF szl, of start, folded f_def]
  have view: "tab_view s t = ft_view T" by (rule tab_view_live [OF T(1)])
  have used: "tab_view s t n \<noteq> None" if "start \<le> n" "n < f" "n < sz" for n
    using ff(3) [of n] that szl by (simp add: view ft_view_def)
  have lim': "fe_rlimit env mod 2 ^ 32 = fe_rlimit env" using lim by simp
  define g where "g = (if f \<ge> sz then fdtable_expand (fe_rlimit env) (fe_alloc env) T f else Inr T)"
  have i': "(s', r) = (case g of Inl e \<Rightarrow> (fst (fd_close s a), Inl e)
      | Inr T' \<Rightarrow> (put_tab s t (T'\<lparr>ft_files := (ft_files T')[f := Some a], ft_cloexec := bit_clear f (ft_cloexec T')\<rparr>), Inr f))"
    using i unfolding f_install_start_def Let_def lim' t_def [symmetric] T(2) sz_def [symmetric] f_def [symmetric] g_def [symmetric]
    by (rule sym)
  show thesis
  proof (cases g)
    case (Inl e)
    then have "sz \<le> f" and e: "e = EMFILE \<and> fe_rlimit env < f + 1 \<or> e = ENOMEM \<and> \<not> fe_alloc env"
      by (auto simp: g_def fdtable_expand_def fdtable_resize_def split: if_splits)
    have "\<forall>n. start \<le> n \<and> n < fe_rlimit env \<longrightarrow> tab_view s t n \<noteq> None" if "fe_rlimit env < f + 1"
    proof (cases "fe_rlimit env \<le> length (ft_files T)")
      case True then show ?thesis using used that by (auto simp: sz_def)
    next
      case False
      then have "start \<ge> fe_rlimit env" using ff(4) [OF \<open>sz \<le> f\<close>] that by (auto simp: sz_def max_def split: if_splits)
      then show ?thesis by auto
    qed
    then show thesis using fail [of e] i' Inl fs_inv_close [OF inv] e by (auto simp: t_def)
  next
    case (Inr T')
    let ?T = "T'\<lparr>ft_files := (ft_files T')[f := Some a], ft_cloexec := bit_clear f (ft_cloexec T')\<rparr>"
    have tok: "tab_ok T" by (rule fs_invD(3) [OF inv T(1)])
    have "tab_ok T' \<and> ft_view T' = ft_view T \<and> ft_refcount T' = ft_refcount T \<and> f < length (ft_files T') \<and> f < fe_rlimit env \<and>
        ft_files T' ! f = None \<and> (\<forall>n. start \<le> n \<and> n < f \<longrightarrow> ft_view T n \<noteq> None) \<and> (\<forall>b. tab_refs (ft_files T') b = tab_refs (ft_files T) b)"
    proof (cases "f \<ge> sz")
      case False
      then have "T' = T" and f: "f < sz" using Inr by (auto simp: g_def)
      moreover have "f < length (ft_files T)" "f < fe_rlimit env" using f by (auto simp: sz_def)
      moreover have "\<forall>n. start \<le> n \<and> n < f \<longrightarrow> ft_view T n \<noteq> None" using used f by (auto simp: view [symmetric])
      ultimately show ?thesis using tok ff(2) [OF f] by blast
    next
      case True
      then have e: "fdtable_expand (fe_rlimit env) (fe_alloc env) T f = Inr T'" using Inr by (simp add: g_def)
      note x = fdtable_expandD [OF e tok]
      have szT: "sz = length (ft_files T)" using x(4) True by (auto simp: sz_def)
      have "\<forall>n. start \<le> n \<and> n < f \<longrightarrow> ft_view T n \<noteq> None" using ff(4) [OF True] used view szT by (auto simp: max_def split: if_splits)
      then show ?thesis using x expand_fresh [OF e _ x(3)] True szT by blast
    qed
    then show thesis
      using ff(1) i' Inr fs_inv_fill [OF inv T(1), of T' f "bit_clear f (ft_cloexec T')"] view_fill(1) [of T' f a]
        view_None [of f T'] view by (auto simp: t_def lowest_free_def intro!: ok [of f ?T])
  qed
qed

lemma put_tab_ok:
  assumes "live_tab s t"
  shows "fs_tasks (put_tab s t T) = fs_tasks s" "fs_fds (put_tab s t T) = fs_fds s" "get_tab (put_tab s t T) t = T"
  using assms by (auto simp: put_tab_def get_tab_def live_tab_def)

text \<open>Setting or clearing the mark of a slot of the table.\<close>

lemma mark_ok:
  assumes "fs_inv s X Y" and live: "live_tab s t" and n: "n < length (ft_files (get_tab s t))"
    and s': "s' = (if b then set_cloexec s t n else clear_cloexec s t n)"
  shows "fs_inv s' X Y" and "fs_tasks s' = fs_tasks s" and "fs_fds s' = fs_fds s" and "live_tab s' u = live_tab s u"
    and "tab_view s' u = (if u = t then (tab_view s t)(n := map_option (\<lambda>(a, _). (a, b)) (tab_view s t n)) else tab_view s u)"
    and "length (ft_files (get_tab s' u)) = length (ft_files (get_tab s u))"
proof -
  obtain T where T: "heap_get (fs_tabs s) t = Some T" "get_tab s t = T" using live by (rule live_tabE)
  have s'': "s' = put_tab s t (T\<lparr>ft_cloexec := (if b then bit_set n else bit_clear n) (ft_cloexec T)\<rparr>)"
    by (simp add: s' set_cloexec_def clear_cloexec_def T(2) Let_def)
  show "fs_inv s' X Y" using fs_inv_set_cloexec [OF assms(1) T(1), of n] s' by simp
  show "fs_tasks s' = fs_tasks s" "fs_fds s' = fs_fds s" "live_tab s' u = live_tab s u" using put_tab_ok [OF live] live by (simp_all add: s'')
  show "tab_view s' u = (if u = t then (tab_view s t)(n := map_option (\<lambda>(a, _). (a, b)) (tab_view s t n)) else tab_view s u)"
    using view_mark [OF fs_invD(3) [OF assms(1) T(1)], of n] n T by (simp add: s'' tab_view_put [OF T(1)] tab_view_live [OF T(1)])
  show "length (ft_files (get_tab s' u)) = length (ft_files (get_tab s u))"
    using T by (auto simp: s'' get_tab_def put_tab_def)
qed

text \<open>
  What \<^verbatim>\<open>f_install\<close> does: the lowest free number is bound, the mark follows the flags, and the
  caller's reference has become the table's; or the file is closed.
\<close>

lemma put_fd_view [simp]:
  "tab_view (put_fd s a x) = tab_view s" "live_tab (put_fd s a x) = live_tab s" "fs_tasks (put_fd s a x) = fs_tasks s"
  by (simp_all add: put_fd_def tab_view_def get_tab_def live_tab_def fun_eq_iff)

lemma fs_inv_setflags: "fs_inv s X Y \<Longrightarrow> heap_get (fs_fds s) a = Some x \<Longrightarrow> fs_inv (put_fd s a (fst (fd_setflags x fl))) X Y"
  by (erule (1) fs_inv_put_fd) (auto simp: fd_setflags_def split: option.splits)

lemma f_installE:
  assumes inv: "fs_inv s (\<lambda>b. X b + ref1 (Some a) b) Y" and live: "live_tab s (fs_tasks s ! cur)"
    and lim: "fe_rlimit env < 2 ^ 32" and i: "f_install s cur env a flags = (s', r)"
  obtains (fail) e where "r = Inl e" "fs_inv s' X Y" "fs_tasks s' = fs_tasks s" "live_tab s' = live_tab s" "tab_view s' = tab_view s"
      "e = EMFILE \<and> (\<forall>n < fe_rlimit env. tab_view s (fs_tasks s ! cur) n \<noteq> None) \<or> e = ENOMEM \<and> \<not> fe_alloc env"
    | (ok) f where "r = Inr f" "fs_inv s' X Y" "fs_tasks s' = fs_tasks s" "live_tab s' = live_tab s"
      "lowest_free (tab_view s (fs_tasks s ! cur)) 0 (fe_rlimit env) f"
      "tab_view s' = (tab_view s)(fs_tasks s ! cur := (tab_view s (fs_tasks s ! cur))(f \<mapsto> (a, flags AND O_CLOEXEC \<noteq> 0)))"
proof -
  obtain s1 r1 where st: "f_install_start s cur env a 0 = (s1, r1)" by fastforce
  from inv live lim st show thesis
  proof (cases rule: f_install_startE)
    case (fail e)
    then show thesis using i st by (intro that(1) [of e]) (auto simp: f_install_def)
  next
    case (ok f T)
    define t where "t = fs_tasks s ! cur"
    obtain S where S: "heap_get (fs_tabs s) t = Some S" using live unfolding t_def by (rule live_tabE)
    have t1: "fs_tasks s1 = fs_tasks s" "get_tab s1 t = T" "live_tab s1 = live_tab s"
      using put_tab_ok [of s t T] live by (auto simp: ok(4) t_def)
    define s2 where "s2 = (if flags AND O_CLOEXEC \<noteq> 0 then set_cloexec s1 t f else s1)"
    have v1: "tab_view s1 = (tab_view s)(t := (tab_view s t)(f \<mapsto> (a, False)))"
      using ok(5) by (simp add: ok(4) t_def [symmetric] tab_view_put [OF S] fun_eq_iff)
    have "fs_inv s2 X Y \<and> fs_tasks s2 = fs_tasks s \<and> live_tab s2 = live_tab s \<and>
        tab_view s2 = (tab_view s)(t := (tab_view s t)(f \<mapsto> (a, flags AND O_CLOEXEC \<noteq> 0)))"
    proof (cases "flags AND O_CLOEXEC \<noteq> 0")
      case True
      note m = mark_ok [OF ok(2), of t f s2 True]
      show ?thesis using m live True t1 ok(6) by (simp add: s2_def t_def [symmetric] v1 fun_eq_iff)
    qed (use ok(2) t1 v1 in \<open>auto simp: s2_def\<close>)
    moreover have "s' = (if flags AND O_NONBLOCK \<noteq> 0 then
          (case heap_get (fs_fds s2) a of None \<Rightarrow> s2 | Some x \<Rightarrow> put_fd s2 a (fst (fd_setflags x O_NONBLOCK))) else s2)" "r = Inr f"
      using i unfolding f_install_def st ok(1) prod.case sum.case t1(1) t_def [symmetric] s2_def [symmetric] Let_def by simp_all
    ultimately show thesis using ok(3) by (intro that(2) [of f]) (auto simp: t_def split: option.splits intro: fs_inv_setflags)
  qed
qed

text \<open>A slot that may be taken is replaced: its old file is handed to the caller.\<close>

lemma replace_slot:
  assumes inv: "fs_inv s (\<lambda>b. X b + ref1 (Some a) b) Y" and live: "live_tab s t"
    and n: "n < length (ft_files (get_tab s t))" and d: "fdtable_detach s t (int n) = (s1, rep)"
    and s2: "s2 = put_tab s1 t ((get_tab s1 t)\<lparr>ft_files := (ft_files (get_tab s1 t))[n := Some a]\<rparr>)"
    and s3: "s3 = (if b then set_cloexec s2 t n else clear_cloexec s2 t n)"
  shows "fs_inv s3 (\<lambda>b. X b + ref1 rep b) Y" and "live_tab s3 = live_tab s" and "fs_tasks s3 = fs_tasks s"
    and "tab_view s3 = (tab_view s)(t := (tab_view s t)(n \<mapsto> (a, b)))"
    and "length (ft_files (get_tab s3 t)) = length (ft_files (get_tab s t))"
proof -
  note dt = detach_ok [OF inv live d]
  have live1: "live_tab s1 t" using live dt(3) by simp
  obtain T where T: "heap_get (fs_tabs s1) t = Some T" "get_tab s1 t = T" using live1 by (rule live_tabE)
  have n1: "n < length (ft_files T)" using dt(8) [of t] T n by simp
  have empty: "ft_files T ! n = None"
    using dt(2) [of t] n1 by (simp add: tab_view_live [OF T(1)] fun_eq_iff view_None [symmetric])
  have s2': "s2 = put_tab s1 t (T\<lparr>ft_files := (ft_files T)[n := Some a], ft_cloexec := ft_cloexec T\<rparr>)" using s2 T by simp
  have i2: "fs_inv s2 (\<lambda>b. X b + ref1 rep b) Y"
    unfolding s2' by (rule fs_inv_fill [OF _ T(1)]) (use dt(1) n1 empty fs_invD(3) [OF dt(1) T(1)] in \<open>auto simp: ac_simps\<close>)
  have live2: "live_tab s2 = live_tab s" and t2: "fs_tasks s2 = fs_tasks s" "length (ft_files (get_tab s2 t)) = length (ft_files T)"
    using put_tab_ok [OF live1] dt(3,5) live1 by (auto simp: s2' fun_eq_iff)
  have v2: "tab_view s2 u = (if u = t then (tab_view s1 t)(n \<mapsto> (a, bit_test n (ft_cloexec T))) else tab_view s1 u)" for u
    using n1 by (auto simp: s2' tab_view_put [OF T(1)] tab_view_live [OF T(1)] ft_view_def fun_eq_iff)
  note m = mark_ok [OF i2, of t n s3 b]
  show "fs_inv s3 (\<lambda>b. X b + ref1 rep b) Y" "live_tab s3 = live_tab s" "fs_tasks s3 = fs_tasks s"
      "length (ft_files (get_tab s3 t)) = length (ft_files (get_tab s t))"
    using m s3 n1 t2 live live2 dt(8) [of t] T(2) by (simp_all add: fun_eq_iff)
  show "tab_view s3 = (tab_view s)(t := (tab_view s t)(n \<mapsto> (a, b)))"
    using m(5) s3 n1 t2 live live2 dt(2) v2 by (simp add: fun_eq_iff)
qed

text \<open>The table as it is after growing.\<close>

lemma expand_ok:
  assumes inv: "fs_inv s X Y" and live: "live_tab s t" and e: "fdtable_expand rlim alloc (get_tab s t) n = Inr T"
  shows "fs_inv (put_tab s t T) X Y" and "tab_view (put_tab s t T) = tab_view s" and "live_tab (put_tab s t T) = live_tab s"
    and "n < length (ft_files (get_tab (put_tab s t T) t))" and "n < rlim"
proof -
  obtain S where S: "heap_get (fs_tabs s) t = Some S" "get_tab s t = S" using live by (rule live_tabE)
  note x = fdtable_expandD [OF e [unfolded S(2)] fs_invD(3) [OF inv S(1)]]
  show "fs_inv (put_tab s t T) X Y" by (rule fs_inv_put_tab [OF inv S(1)]) (use x in auto)
  show "tab_view (put_tab s t T) = tab_view s" using x(2) by (simp add: fun_eq_iff tab_view_put [OF S(1)] tab_view_live [OF S(1)])
  show "live_tab (put_tab s t T) = live_tab s" "n < length (ft_files (get_tab (put_tab s t T) t))" "n < rlim"
    using live x put_tab_ok [OF live, of T] by (simp_all add: fun_eq_iff)
qed

lemma finish_opt:
  assumes "fs_inv s (\<lambda>b. X b + ref1 rep b) Y"
    and "s' = (case rep of None \<Rightarrow> s | Some b \<Rightarrow> fst (fdtable_finish_close s b t))"
  shows "fs_inv s' X Y" "tab_view s' = tab_view s" "live_tab s' = live_tab s" "fs_tasks s' = fs_tasks s"
  using assms by (auto split: option.splits intro: fs_inv_finish_close)

text \<open>\<^verbatim>\<open>fdtable_install_at\<close> and \<^verbatim>\<open>dup3\<close>.\<close>

lemma install_atE:
  assumes inv: "fs_inv s (\<lambda>b. X b + ref1 (Some a) b) Y" and live: "live_tab s t"
    and i: "fdtable_install_at s env t f a c = (s', r)"
  obtains (fail) e where "r = Inl e" "fs_inv s' X Y" "fs_tasks s' = fs_tasks s" "live_tab s' = live_tab s" "tab_view s' = tab_view s"
      "e = EBADF \<and> f < 0 \<or> e = EMFILE \<and> int (fe_rlimit env) \<le> f \<or> e = ENOMEM \<and> \<not> fe_alloc env"
    | (ok) "r = Inr ()" "0 \<le> f" "f < int (fe_rlimit env)" "fs_inv s' X Y" "fs_tasks s' = fs_tasks s" "live_tab s' = live_tab s"
      "tab_view s' = (tab_view s)(t := (tab_view s t)(nat f \<mapsto> (a, c)))"
proof (cases "f < 0")
  case True
  then show thesis using that(1) [of EBADF] i fs_inv_close [OF inv] by (auto simp: fdtable_install_at_def)
next
  case False
  show thesis
  proof (cases "fdtable_expand (fe_rlimit env) (fe_alloc env) (get_tab s t) (nat f)")
    case (Inl e)
    then have "e = EMFILE \<and> int (fe_rlimit env) \<le> f \<or> e = ENOMEM \<and> \<not> fe_alloc env"
      using False by (auto simp: fdtable_expand_def fdtable_resize_def split: if_splits)
    then show thesis using that(1) [of e] i fs_inv_close [OF inv] False Inl by (auto simp: fdtable_install_at_def)
  next
    case (Inr T)
    note x = expand_ok [OF inv live Inr]
    have lx: "live_tab (put_tab s t T) t" using live x(3) by simp
    obtain s1 rep where d: "fdtable_detach (put_tab s t T) t (int (nat f)) = (s1, rep)" by fastforce
    define s2 where "s2 = put_tab s1 t ((get_tab s1 t)\<lparr>ft_files := (ft_files (get_tab s1 t))[nat f := Some a]\<rparr>)"
    define s3 where "s3 = (if c then set_cloexec s2 t (nat f) else clear_cloexec s2 t (nat f))"
    note rs = replace_slot [OF x(1) lx x(4) d s2_def s3_def]
    have "s' = (case rep of None \<Rightarrow> s3 | Some b \<Rightarrow> fst (fdtable_finish_close s3 b t))" and r: "r = Inr ()"
      using i False Inr d by (cases rep; auto simp: fdtable_install_at_def Let_def s3_def s2_def)+
    note fo = finish_opt [OF rs(1) this(1)]
    show thesis by (rule that(2)) (use r False fo rs x put_tab_ok [OF live] in auto)
  qed
qed

lemma retain_view [simp]:
  "tab_view (s\<lparr>fs_fds := h\<rparr>) = tab_view s" "live_tab (s\<lparr>fs_fds := h\<rparr>) = live_tab s" "get_tab (s\<lparr>fs_fds := h\<rparr>) = get_tab s"
  by (simp_all add: tab_view_def get_tab_def live_tab_def fun_eq_iff)

lemma get_retain_ok:
  assumes inv: "fs_inv s X Y" and live: "live_tab s t" and a: "fdtable_get (get_tab s t) f = Some a"
  shows "fs_inv (s\<lparr>fs_fds := fd_retain (fs_fds s) a\<rparr>) (\<lambda>b. X b + ref1 (Some a) b) Y"
    and "0 \<le> f" and "\<exists>b. tab_view s t (nat f) = Some (a, b)"
proof -
  obtain T where T: "heap_get (fs_tabs s) t = Some T" "get_tab s t = T" using live by (rule live_tabE)
  have n: "0 \<le> f" "nat f < length (ft_files T)" "ft_files T ! nat f = Some a"
    using a T(2) by (auto simp: fdtable_get_def split: if_splits)
  then show "0 \<le> f" "\<exists>b. tab_view s t (nat f) = Some (a, b)" by (auto simp: tab_view_live [OF T(1)] ft_view_def)
  show "fs_inv (s\<lparr>fs_fds := fd_retain (fs_fds s) a\<rparr>) (\<lambda>b. X b + ref1 (Some a) b) Y"
    using slot_live [OF inv T(1) n(2,3)] fs_inv_retain [OF inv] by blast
qed

lemma sys_dup3E:
  assumes inv: "fs_inv s X Y" and live: "live_tab s (fs_tasks s ! cur)"
    and i: "sys_dup3 s cur env f new_f flags = (s', r)"
  obtains (fail) e where "r = Inl e" "s' = s"
    | (ok) a b where "r = Inr (nat new_f)" "f \<noteq> new_f" "0 \<le> f" "0 \<le> new_f" "new_f < int (fe_rlimit env)"
      "fs_inv s' X Y" "fs_tasks s' = fs_tasks s" "live_tab s' = live_tab s"
      "tab_view s (fs_tasks s ! cur) (nat f) = Some (a, b)"
      "tab_view s' = (tab_view s)(fs_tasks s ! cur := (tab_view s (fs_tasks s ! cur))(nat new_f \<mapsto> (a, flags AND O_CLOEXEC \<noteq> 0)))"
proof -
  define t where "t = fs_tasks s ! cur"
  show thesis
  proof (cases "flags AND NOT O_CLOEXEC \<noteq> 0 \<or> new_f < 0 \<or> f = new_f \<or> fdtable_get (get_tab s t) f = None")
    case True
    then show thesis using i that(1) by (auto simp: sys_dup3_def Let_def t_def split: if_splits option.splits sum.splits)
  next
    case False
    then obtain a where a: "fdtable_get (get_tab s t) f = Some a" by auto
    show thesis
    proof (cases "fdtable_expand (fe_rlimit env) (fe_alloc env) (get_tab s t) (nat new_f)")
      case (Inl e)
      then show thesis using i that(1) False a by (auto simp: sys_dup3_def Let_def t_def split: if_splits)
    next
      case (Inr T)
      have livet: "live_tab s t" using live by (simp add: t_def)
      define s0 where "s0 = s\<lparr>fs_fds := fd_retain (fs_fds s) a\<rparr>"
      note g = get_retain_ok [OF inv livet a, folded s0_def]
      have l0: "live_tab s0 t" and e0: "fdtable_expand (fe_rlimit env) (fe_alloc env) (get_tab s0 t) (nat new_f) = Inr T"
        using livet Inr by (simp_all add: s0_def)
      note x = expand_ok [OF g(1) l0 e0]
      have lx: "live_tab (put_tab s0 t T) t" using l0 x(3) by simp
      obtain s1 rep where d: "fdtable_detach (put_tab s0 t T) t (int (nat new_f)) = (s1, rep)" by fastforce
      define s2 where "s2 = put_tab s1 t ((get_tab s1 t)\<lparr>ft_files := (ft_files (get_tab s1 t))[nat new_f := Some a]\<rparr>)"
      define s3 where "s3 = (if False then set_cloexec s2 t (nat new_f) else clear_cloexec s2 t (nat new_f))"
      note rs = replace_slot [OF x(1) lx x(4) d s2_def s3_def]
      define s4 where "s4 = (if flags AND O_CLOEXEC \<noteq> 0 then set_cloexec s3 t (nat new_f) else s3)"
      have n3: "nat new_f < length (ft_files (get_tab s3 t))" and l3: "live_tab s3 t" using rs(2,5) x(4) lx by simp_all
      have m: "fs_inv s4 (\<lambda>b. X b + ref1 rep b) Y \<and> live_tab s4 = live_tab s \<and> fs_tasks s4 = fs_tasks s \<and>
          tab_view s4 = (tab_view s)(t := (tab_view s t)(nat new_f \<mapsto> (a, flags AND O_CLOEXEC \<noteq> 0)))"
      proof (cases "flags AND O_CLOEXEC \<noteq> 0")
        case True
        then have "s4 = (if True then set_cloexec s3 t (nat new_f) else clear_cloexec s3 t (nat new_f))" by (simp add: s4_def)
        note mk = mark_ok [OF rs(1) l3 n3 this]
        show ?thesis using mk(1,2,4,5) True rs(2-4) x(2,3) by (simp add: s0_def fun_eq_iff)
      next
        case False
        then show ?thesis using rs(1-4) x(2,3) by (simp add: s4_def s0_def)
      qed
      have "put_tab s0 t T = (put_tab s t T)\<lparr>fs_fds := fd_retain (fs_fds s) a\<rparr>" by (simp add: s0_def put_tab_def)
      then have d': "fdtable_detach ((put_tab s t T)\<lparr>fs_fds := fd_retain (fs_fds s) a\<rparr>) t new_f = (s1, rep)"
        using d False by simp
      have "(s', r) = (case rep of None \<Rightarrow> s4 | Some b \<Rightarrow> fst (fdtable_finish_close s4 b t), Inr (nat new_f))"
        using False unfolding i [symmetric] sys_dup3_def t_def [symmetric] Let_def a Inr
        by (simp add: d' s4_def s3_def s2_def cong: option.case_cong)
      then have s': "s' = (case rep of None \<Rightarrow> s4 | Some b \<Rightarrow> fst (fdtable_finish_close s4 b t))" and r: "r = Inr (nat new_f)"
        by simp_all
      note fo = finish_opt [OF m [THEN conjunct1] s']
      obtain b where "tab_view s t (nat f) = Some (a, b)" using g(3) by blast
      then have v: "tab_view s (fs_tasks s ! cur) (nat f) = Some (a, b)" by (simp add: t_def)
      show thesis
        by (rule that(2) [OF r _ g(2) _ _ fo(1) _ _ v]) (use False fo m x(5) in \<open>simp_all add: t_def\<close>)
    qed
  qed
qed

section \<open>Close-on-exec and close_range\<close>

definition unmarked :: "(nat \<times> bool) option \<Rightarrow> (nat \<times> bool) option" where
  "unmarked v = (case v of Some (a, True) \<Rightarrow> None | x \<Rightarrow> x)"

lemma mark_of_view: "tab_view s t n = Some (a, b) \<Longrightarrow> b = bit_test n (ft_cloexec (get_tab s t))"
  by (auto simp: tab_view_def ft_view_def split: if_splits)

interpretation cloexec: slot_walk
  "\<lambda>t s n. if bit_test n (ft_cloexec (get_tab s t)) then fst (fdtable_close s t (int n)) else s" unmarked
proof
  fix s X Y t n
  assume a: "fs_inv s X Y" "live_tab s t" "n < length (ft_files (get_tab s t))"
  note c = closing.visit [OF a]
  have "unmarked (tab_view s t n) = (if bit_test n (ft_cloexec (get_tab s t)) then None else tab_view s t n)"
    using mark_of_view [of s t n] by (auto simp: unmarked_def split: option.splits bool.splits)
  then show "fs_inv (if bit_test n (ft_cloexec (get_tab s t)) then fst (fdtable_close s t (int n)) else s) X Y \<and>
      live_tab (if bit_test n (ft_cloexec (get_tab s t)) then fst (fdtable_close s t (int n)) else s) = live_tab s \<and>
      fs_tasks (if bit_test n (ft_cloexec (get_tab s t)) then fst (fdtable_close s t (int n)) else s) = fs_tasks s \<and>
      length (ft_files (get_tab (if bit_test n (ft_cloexec (get_tab s t)) then fst (fdtable_close s t (int n)) else s) t)) =
        length (ft_files (get_tab s t)) \<and>
      tab_view (if bit_test n (ft_cloexec (get_tab s t)) then fst (fdtable_close s t (int n)) else s) =
        (tab_view s)(t := (tab_view s t)(n := unmarked (tab_view s t n)))"
    using c a by auto
qed

lemma do_cloexec_ok:
  assumes "fs_inv s X Y" and "live_tab s t"
  shows "fs_inv (fdtable_do_cloexec s t) X Y" "live_tab (fdtable_do_cloexec s t) = live_tab s"
    "fs_tasks (fdtable_do_cloexec s t) = fs_tasks s"
    "tab_view (fdtable_do_cloexec s t) = (tab_view s)(t := (\<lambda>n. unmarked (tab_view s t n)))"
  using cloexec.walk [OF assms, of "[0..<length (ft_files (get_tab s t))]"] cloexec.walk_all [OF assms]
  by (auto simp: fdtable_do_cloexec_def unmarked_def)

text \<open>What \<^verbatim>\<open>close_range\<close> does at one number.\<close>

definition range_upd :: "bool \<Rightarrow> (nat \<times> bool) option \<Rightarrow> (nat \<times> bool) option" where
  "range_upd mark v = (if mark then map_option (\<lambda>(a, _). (a, True)) v else None)"

lemma close_range_one_eq:
  "n < length (ft_files (get_tab s t)) \<Longrightarrow> close_range_one mark t s n =
     (if ft_files (get_tab s t) ! n = None then s else if mark then set_cloexec s t n else fst (fdtable_close s t (int n)))"
  by (cases "fdtable_detach s t (int n)") (auto simp: close_range_one_def fdtable_close_def split: option.splits)

interpretation ranged: slot_walk "close_range_one mark" "range_upd mark" for mark
proof
  fix s X Y t n
  assume a: "fs_inv s X Y" "live_tab s t" "n < length (ft_files (get_tab s t))"
  note c = closing.visit [OF a] and m = mark_ok [OF a, of "set_cloexec s t n" True, simplified]
  have none: "tab_view s t n = None \<longleftrightarrow> ft_files (get_tab s t) ! n = None" using a(3) by (simp add: tab_view_def view_None)
  show "fs_inv (close_range_one mark t s n) X Y \<and> live_tab (close_range_one mark t s n) = live_tab s \<and>
      fs_tasks (close_range_one mark t s n) = fs_tasks s \<and>
      length (ft_files (get_tab (close_range_one mark t s n) t)) = length (ft_files (get_tab s t)) \<and>
      tab_view (close_range_one mark t s n) = (tab_view s)(t := (tab_view s t)(n := range_upd mark (tab_view s t n)))"
    using c m a none by (auto simp: close_range_one_eq [OF a(3)] range_upd_def fun_eq_iff)
qed

section \<open>Copying and unsharing a table\<close>

lemma retain_each_counted:
  assumes "counted fo_refcount h R" and "\<And>a. Some a \<in> set fs \<Longrightarrow> heap_get h a \<noteq> None"
  shows "counted fo_refcount (retain_each h fs) (\<lambda>a. R a + tab_refs fs a)"
  using assms unfolding retain_each_def
proof (induction fs arbitrary: h R)
  case (Cons c fs)
  show ?case
  proof (cases c)
    case None
    then show ?thesis using Cons.IH [OF Cons.prems(1)] Cons.prems(2) by simp
  next
    case (Some a)
    then obtain x where x: "heap_get h a = Some x" using Cons.prems(2) [of a] by auto
    have "heap_get (fd_retain h a) b \<noteq> None" if "heap_get h b \<noteq> None" for b using that x by (auto simp: fd_retain_def)
    then show ?thesis
      using Cons.IH [OF fdr.counted_retain [OF Cons.prems(1) x]] Cons.prems(2)
      by (auto simp: Some ac_simps ref1_def intro: counted_cong)
  qed
qed simp

lemma fdtable_copyE:
  assumes inv: "fs_inv s X Y" and live: "live_tab s t" and c: "fdtable_copy s at al t = Inr (s', t')"
  shows "fs_inv s' X (\<lambda>u. Y u + ref1 (Some t') u)" and "fs_tasks s' = fs_tasks s" and "\<not> live_tab s t'"
    and "tab_view s' = (tab_view s)(t' := tab_view s t)" and "live_tab s' u = (u = t' \<or> live_tab s u)"
proof -
  obtain T where T: "heap_get (fs_tabs s) t = Some T" "get_tab s t = T" using live by (rule live_tabE)
  define N where "N = \<lparr>ft_refcount = 1, ft_files = ft_files T, ft_cloexec = ft_cloexec T\<rparr>"
  have s': "s' = s\<lparr>fs_tabs := fst (heap_alloc (fs_tabs s) N), fs_fds := retain_each (fs_fds s) (ft_files T)\<rparr>"
    and t': "t' = length (fs_tabs s)"
    using c by (auto simp: fdtable_copy_def T(2) fdtable_new_def fdtable_resize_def N_def Let_def heap_alloc_def split: if_splits)
  have sl: "Some a \<in> set (ft_files T) \<Longrightarrow> heap_get (fs_fds s) a \<noteq> None" for a
    using slot_live [OF inv T(1)] by (auto simp: in_set_conv_nth)
  have "counted fo_refcount (fs_fds s') (\<lambda>a. slot_refs (fs_tabs s') a + X a)"
    using counted_cong [OF retain_each_counted [OF fs_invD(1) [OF inv], of "ft_files T"]] sl
    by (simp add: s' slot_refs_alloc N_def)
  moreover have "counted ft_refcount (fs_tabs s') (\<lambda>u. tasks_of s' u + (Y u + ref1 (Some t') u))"
    using counted_alloc [OF fs_invD(2) [OF inv], of N] by (simp add: s' t' tasks_of_def N_def add.assoc)
  moreover have "tab_ok V" if "heap_get (fs_tabs s') v = Some V" for v V
    using that fs_invD(3) [OF inv, of v V] fs_invD(3) [OF inv T(1)] by (auto simp: s' N_def tab_ok_def heap_get_alloc split: if_splits)
  ultimately show "fs_inv s' X (\<lambda>u. Y u + ref1 (Some t') u)" by (simp add: fs_inv_def)
  show "fs_tasks s' = fs_tasks s" by (simp add: s')
  show "\<not> live_tab s t'" "live_tab s' u = (u = t' \<or> live_tab s u)" by (auto simp: live_tab_def s' t' heap_get_alloc)
  have "ft_view N = ft_view T" by (simp add: N_def ft_view_def fun_eq_iff)
  then show "tab_view s' = (tab_view s)(t' := tab_view s t)"
    using T(2) by (auto simp: fun_eq_iff tab_view_def get_tab_def s' t' heap_get_alloc)
qed

lemma fs_inv_move_task:
  assumes inv: "fs_inv s X (\<lambda>u. Y u + ref1 (Some t') u)" and "cur < length (fs_tasks s)"
  shows "fs_inv (s\<lparr>fs_tasks := (fs_tasks s)[cur := t']\<rparr>) X (\<lambda>u. Y u + ref1 (Some (fs_tasks s ! cur)) u)"
proof -
  have "tasks_of s u + (Y u + ref1 (Some t') u) = tasks_of (s\<lparr>fs_tasks := (fs_tasks s)[cur := t']\<rparr>) u + (Y u + ref1 (Some (fs_tasks s ! cur)) u)" for u
    using count_where_update [OF assms(2), of "\<lambda>v. v = u" t'] by (auto simp: tasks_of_def ref1_def split: if_splits)
  then show ?thesis using inv counted_cong [OF fs_invD(2) [OF inv]] by (auto simp: fs_inv_def)
qed

lemma tasks_of_drop:
  assumes "cur < length (fs_tasks s)"
  shows "tasks_of s u = tasks_of (s\<lparr>fs_tasks := take cur (fs_tasks s) @ drop (Suc cur) (fs_tasks s)\<rparr>) u + ref1 (Some (fs_tasks s ! cur)) u"
  using assms by (subst tasks_of_def, subst id_take_nth_drop [OF assms]) (auto simp: tasks_of_def)

lemma fs_inv_drop_task:
  assumes inv: "fs_inv s X Y" and "s' = s\<lparr>fs_tasks := take cur (fs_tasks s) @ drop (Suc cur) (fs_tasks s)\<rparr>" and "cur < length (fs_tasks s)"
  shows "fs_inv s' X (\<lambda>u. Y u + ref1 (Some (fs_tasks s ! cur)) u)"
  using inv counted_cong [OF fs_invD(2) [OF inv]] tasks_of_drop [OF assms(3)] assms(2) by (auto simp: fs_inv_def)

lemma tasks_live:
  assumes "fs_inv s X Y" and "i < length (fs_tasks s)"
  shows "live_tab s (fs_tasks s ! i)" and "0 < tasks_of s (fs_tasks s ! i)"
  using task_tab_live [OF assms] count_where_pos [OF assms(2), of "\<lambda>u. u = fs_tasks s ! i"] by (auto simp: live_tab_def tasks_of_def)

lemma tasks_of_2:
  assumes "i < length (fs_tasks s)" and "j < length (fs_tasks s)" and "i \<noteq> j" and "fs_tasks s ! i = t" and "fs_tasks s ! j = t"
  shows "1 < tasks_of s t"
proof -
  have "0 < count_where (\<lambda>u. u = t) ((fs_tasks s)[i := Suc t])"
    by (rule count_where_pos [of j]) (use assms in auto)
  then show ?thesis using count_where_update [OF assms(1), of "\<lambda>u. u = t" "Suc t"] assms(4) by (simp add: tasks_of_def)
qed

text \<open>A task of its own table keeps its view, and the others keep theirs.\<close>

definition task_view :: "fs_state \<Rightarrow> nat \<Rightarrow> nat \<Rightarrow> (nat \<times> bool) option" where
  "task_view s i = tab_view s (fs_tasks s ! i)"

lemma unshare_ok:
  assumes inv: "fs_inv s X (\<lambda>_. 0)" and cur: "cur < length (fs_tasks s)" and u: "fdtable_unshare_current s at al cur = (s', r)"
  shows "fs_inv s' X (\<lambda>_. 0)" and "length (fs_tasks s') = length (fs_tasks s)"
    and "i < length (fs_tasks s) \<Longrightarrow> task_view s' i = task_view s i"
    and "r = Inl e \<Longrightarrow> s' = s \<and> e = ENOMEM"
    and "r = Inr () \<Longrightarrow> i < length (fs_tasks s) \<Longrightarrow> i \<noteq> cur \<Longrightarrow> fs_tasks s' ! i \<noteq> fs_tasks s' ! cur"
proof -
  define t where "t = fs_tasks s ! cur"
  have live: "live_tab s t" unfolding t_def by (rule tasks_live(1) [OF inv cur])
  then obtain T where T: "heap_get (fs_tabs s) t = Some T" "get_tab s t = T" by (rule live_tabE)
  have rc: "ft_refcount T = tasks_of s t" using countedD(1) [OF fs_invD(2) [OF inv] T(1)] by simp
  consider (own) "s' = s" "r = Inr ()" "ft_refcount T = 1" | (err) "s' = s" "r = Inl ENOMEM"
    | (copy) s1 t' where "r = Inr ()" "fdtable_copy s at al t = Inr (s1, t')" "s' = fdtable_release (s1\<lparr>fs_tasks := (fs_tasks s1)[cur := t']\<rparr>) t"
    using u by (auto simp: fdtable_unshare_current_def Let_def t_def [symmetric] T(2) fdtable_copy_def fdtable_new_def fdtable_resize_def
        split: if_splits sum.splits prod.splits)
  then have "fs_inv s' X (\<lambda>_. 0) \<and> length (fs_tasks s') = length (fs_tasks s) \<and>
    (\<forall>i < length (fs_tasks s). task_view s' i = task_view s i) \<and> (r = Inl e \<longrightarrow> s' = s \<and> e = ENOMEM) \<and>
    (\<forall>i < length (fs_tasks s). r = Inr () \<longrightarrow> i \<noteq> cur \<longrightarrow> fs_tasks s' ! i \<noteq> fs_tasks s' ! cur)"
  proof cases
    case own
    then show ?thesis using inv rc cur tasks_of_2 [of _ s cur t] by (fastforce simp: t_def)
  next
    case copy
    note c = fdtable_copyE [OF inv live copy(2)]
    define s2 where "s2 = s1\<lparr>fs_tasks := (fs_tasks s1)[cur := t']\<rparr>"
    have i2: "fs_inv s2 X (\<lambda>u. 0 + ref1 (Some t) u)"
      using fs_inv_move_task [OF c(1), of cur] cur c(2) by (simp add: s2_def t_def)
    note rel = fdtable_release_ok [OF i2]
    have s': "s' = fdtable_release s2 t" and tasks: "fs_tasks s2 = (fs_tasks s)[cur := t']" using copy(3) c(2) by (simp_all add: s2_def)
    have v2: "tab_view s2 = (tab_view s)(t' := tab_view s t)" using c(4) by (simp add: s2_def tab_view_def get_tab_def fun_eq_iff)
    have fresh: "i < length (fs_tasks s) \<Longrightarrow> fs_tasks s ! i \<noteq> t'" for i using tasks_live(1) [OF inv, of i] c(3) by auto
    have "task_view s' i = task_view s i" if i: "i < length (fs_tasks s)" for i
    proof (cases "i = cur")
      case True
      then show ?thesis using rel(2) rel(3) [of t'] fresh [OF cur] cur v2 by (simp add: task_view_def s' tasks t_def)
    next
      case False
      then have "fs_tasks s ! i \<noteq> t \<or> 0 < tasks_of s2 t + 0"
        using count_where_pos [of i "fs_tasks s2" "\<lambda>u. u = t"] i by (auto simp: tasks tasks_of_def)
      then show ?thesis using rel(2) rel(3) [of "fs_tasks s ! i"] fresh [OF i] v2 False by (simp add: task_view_def s' tasks)
    qed
    then show ?thesis using rel(1,2) fresh cur copy(1) by (auto simp: s' tasks)
  qed (use inv in auto)
  then show "fs_inv s' X (\<lambda>_. 0)" "length (fs_tasks s') = length (fs_tasks s)"
    "i < length (fs_tasks s) \<Longrightarrow> task_view s' i = task_view s i" "r = Inl e \<Longrightarrow> s' = s \<and> e = ENOMEM"
    "r = Inr () \<Longrightarrow> i < length (fs_tasks s) \<Longrightarrow> i \<noteq> cur \<Longrightarrow> fs_tasks s' ! i \<noteq> fs_tasks s' ! cur" by auto
qed

end
