(* ===== verification/Fcntl_Inv.thy ===== *)
theory Fcntl_Inv
  imports Fcntl FdTable_Ops
begin

text \<open>
  The layouts of \<^verbatim>\<open>struct flock\<close> are read back as they were written, and \<^verbatim>\<open>fcntl\<close> keeps the
  invariant of the descriptor tables.
\<close>

section \<open>Layouts\<close>

lemma signed_mod:
  "in_s64 z \<Longrightarrow> s64 (z mod 18446744073709551616) = z"
  "- (2 ^ 31) \<le> y \<Longrightarrow> y < 2 ^ 31 \<Longrightarrow> s32 (y mod 4294967296) = y"
  by (simp_all add: s64_def s32_def in_s64_def mod_simps)

definition fits_layout :: "flock_layout \<Rightarrow> flock \<Rightarrow> bool" where
  "fits_layout l fk \<longleftrightarrow> - (2 ^ 31) \<le> fk_pid fk \<and> fk_pid fk < 2 ^ 31 \<and>
     (if l = Flock32 then 0 \<le> fk_start fk \<and> fk_start fk < 2 ^ 32 \<and> 0 \<le> fk_len fk \<and> fk_len fk < 2 ^ 32
      else in_s64 (fk_start fk) \<and> in_s64 (fk_len fk))"

lemmas layout_defs = layout_write_def layout_read_def layout_size_def flock_size_def flock_write_def flock_read_def
  flock32_size_def flock32_write_def flock32_read_def flock_amd64_size_def flock_amd64_write_def flock_amd64_read_def

section \<open>fcntl and the invariant\<close>

lemma locks_view [simp]:
  "tab_view (s\<lparr>fs_locks := l\<rparr>) = tab_view s" "live_tab (s\<lparr>fs_locks := l\<rparr>) = live_tab s"
  by (simp_all add: tab_view_def get_tab_def live_tab_def fun_eq_iff)

lemma truncate_limit [simp]: "fe_rlimit (fd_env.truncate env) = fe_rlimit env" "fe_alloc (fd_env.truncate env) = fe_alloc env"
  by (simp_all add: fd_env.truncate_def)

text \<open>A call that keeps the invariant, the tasks and which tables there are.\<close>

definition keeps :: "(nat \<Rightarrow> nat) \<Rightarrow> (nat \<Rightarrow> nat) \<Rightarrow> fs_state \<Rightarrow> fs_state \<Rightarrow> bool" where
  "keeps X Y s s' \<longleftrightarrow> fs_inv s' X Y \<and> fs_tasks s' = fs_tasks s \<and> live_tab s' = live_tab s"

lemma start_of_arg:
  assumes "unat (arg :: u64) < 2 ^ 31"
  shows "sint (ucast arg :: u32) = int (unat arg)"
proof -
  have a: "uint arg < 2 ^ 31" using assms by (metis nat_less_numeral_power_cancel_iff unat_eq_nat_uint)
  have "uint (ucast arg :: u32) = take_bit 32 (uint arg)" by (simp only: unsigned_ucast_eq) simp
  also have "\<dots> = uint arg" by (rule take_bit_int_eq_self) (use a in auto)
  finally have "sint (ucast arg :: u32) = signed_take_bit 31 (uint arg)" by (simp only: sint_uint) simp
  also have "\<dots> = uint arg" 
    by (rule signed_take_bit_int_eq_self) (use a in \<open>auto intro: order_trans [of _ 0]\<close>)
  finally show ?thesis by simp
qed

lemma fcntl_dupfdE:
  assumes inv: "fs_inv s X Y" and live: "live_tab s (fs_tasks s ! cur)" and x: "heap_get (fs_fds s) a = Some x"
    and lim: "fe_rlimit env \<le> 2 ^ 31" and d: "fcntl_dupfd s cur env a arg c = (s', out)"
  obtains (fail) e where "out = FcRet (Inl e) None" "keeps X Y s s'" "tab_view s' = tab_view s"
      "e = EINVAL \<and> fe_rlimit env \<le> unat arg \<or> e = EMFILE \<or> e = ENOMEM"
    | (ok) f where "out = FcRet (Inr (int f)) None" "keeps X Y s s'" "lowest_free (tab_view s (fs_tasks s ! cur)) (unat arg) (fe_rlimit env) f"
      "tab_view s' = (tab_view s)(fs_tasks s ! cur := (tab_view s (fs_tasks s ! cur))(f \<mapsto> (a, c)))"
proof (cases "fe_rlimit env \<le> unat arg")
  case True
  then show thesis using d inv by (intro that(1) [of EINVAL]) (auto simp: fcntl_dupfd_def keeps_def)
next
  case False
  define t where "t = fs_tasks s ! cur"
  define s0 where "s0 = s\<lparr>fs_fds := fd_retain (fs_fds s) a\<rparr>"
  have i0: "fs_inv s0 (\<lambda>b. X b + ref1 (Some a) b) Y" unfolding s0_def by (rule fs_inv_retain [OF inv x])
  have s0: "live_tab s0 = live_tab s" "tab_view s0 = tab_view s" "fs_tasks s0 = fs_tasks s" by (simp_all add: s0_def)
  have st: "sint (ucast arg :: u32) = int (unat arg)" by (rule start_of_arg) (use False lim in simp)
  obtain s1 r where i: "f_install_start s0 cur (fd_env.truncate env) a (unat arg) = (s1, r)" by fastforce
  have d': "(s', out) = (case r of Inl e \<Rightarrow> (s1, FcRet (Inl e) None)
      | Inr new_f \<Rightarrow> (if c then set_cloexec s1 (fs_tasks s1 ! cur) new_f else s1, FcRet (Inr (int new_f)) None))"
  proof -
    have "fcntl_dupfd s cur env a arg c = (case f_install_start s0 cur (fd_env.truncate env) a (nat (sint (ucast arg :: u32))) of
            (s1, Inl e) \<Rightarrow> (s1, FcRet (Inl e) None)
          | (s1, Inr new_f) \<Rightarrow> (if c then set_cloexec s1 (fs_tasks s1 ! cur) new_f else s1, FcRet (Inr (int new_f)) None))"
      unfolding fcntl_dupfd_def Let_def s0_def [symmetric] using False st by simp
    also have "nat (sint (ucast arg :: u32)) = unat arg" using st by simp
    finally show ?thesis using d i by simp
  qed
  have "live_tab s0 (fs_tasks s0 ! cur)" "fe_rlimit (fd_env.truncate env) < 2 ^ 32" using live lim s0 by simp_all
  from i0 this i show thesis
  proof (cases rule: f_install_startE)
    case (fail e)
    have "s' = s1" "out = FcRet (Inl e) None" using d' fail(1) by simp_all
    then show thesis by (intro that(1) [of e]) (use fail(2-4) s0 in \<open>auto simp: keeps_def\<close>)
  next
    case (ok f T)
    have l0: "live_tab s0 t" using live s0 by (simp add: t_def)
    obtain S where S: "heap_get (fs_tabs s0) t = Some S" using l0 by (rule live_tabE)
    note pt = put_tab_ok [OF l0, of T]
    have s1: "s1 = put_tab s0 t T" "fs_tasks s1 = fs_tasks s" "live_tab s1 = live_tab s" "live_tab s1 t" "get_tab s1 t = T"
      "tab_view s1 = (tab_view s)(t := (tab_view s t)(f \<mapsto> (a, False)))"
      using ok(4,5) l0 s0 pt tab_view_put [OF S, of T] by (auto simp: t_def fun_eq_iff)
    have n: "f < length (ft_files (get_tab s1 t))" using ok(6) s1(5) by simp
    note m = mark_ok [OF ok(2) s1(4) n, of "set_cloexec s1 t f" True]
    have out: "out = FcRet (Inr (int f)) None" "s' = (if c then set_cloexec s1 t f else s1)" using d' ok(1) s1(2) by (simp_all add: t_def)
    have "keeps X Y s s' \<and> tab_view s' = (tab_view s)(t := (tab_view s t)(f \<mapsto> (a, c)))"
      using out(2) ok(2) m s1(2,3,6) by (cases c) (simp_all add: keeps_def fun_eq_iff)
    then show thesis by (intro that(2) [of f]) (use out(1) ok(3) s0 in \<open>simp_all add: t_def\<close>)
  qed
qed

lemma keeps_refl: "fs_inv s X Y \<Longrightarrow> keeps X Y s s"
  by (simp add: keeps_def)

lemma keeps_put_fd:
  "fs_inv s X Y \<Longrightarrow> heap_get (fs_fds s) a = Some x \<Longrightarrow> fo_refcount y = fo_refcount x \<Longrightarrow> keeps X Y s (put_fd s a y)"
  by (auto simp: keeps_def intro: fs_inv_put_fd)

lemma setters_refcount [simp]:
  "fo_refcount (fst (fd_setflags x fl)) = fo_refcount x" "fo_refcount (fst (fd_setown env x who)) = fo_refcount x"
  "fo_refcount (fst (fcntl_setown_ex env x arg)) = fo_refcount x"
  by (auto simp: fd_setflags_def fd_setown_def fcntl_setown_ex_def Let_def split: option.splits)

lemma keeps_setlk:
  "fs_inv s X Y \<Longrightarrow> keeps X Y s (fst (fcntl_do_setlk s cur env a x arg l b ofd))"
  by (auto simp: fcntl_do_setlk_def keeps_def split: option.splits prod.splits lk_out.splits)

lemma setlk_no_assert: "snd (fcntl_do_setlk s cur env a x arg l b ofd) \<noteq> FcAssert"
  "fcntl_do_getlk s cur env a x arg l ofd \<noteq> FcAssert" "fcntl_getown_ex env x arg \<noteq> FcAssert"
  by (auto simp: fcntl_do_setlk_def fcntl_do_getlk_def fcntl_getown_ex_def Let_def split: option.splits prod.splits lk_out.splits sum.splits)

text \<open>Every command keeps the invariant, and the assertion is not reached.\<close>

lemma fcntl_switch_ok:
  assumes inv: "fs_inv s X Y" and live: "live_tab s (fs_tasks s ! cur)" and x: "heap_get (fs_fds s) a = Some x"
    and f: "f < length (ft_files (get_tab s (fs_tasks s ! cur)))" and lim: "fe_rlimit env \<le> 2 ^ 31"
  shows "keeps X Y s (fst (fcntl_switch s cur env f a x cmd arg g)) \<and> snd (fcntl_switch s cur env f a x cmd arg g) \<noteq> FcAssert"
proof -
  have dup: "keeps X Y s (fst (fcntl_dupfd s cur env a arg c)) \<and> snd (fcntl_dupfd s cur env a arg c) \<noteq> FcAssert" for c
  proof (cases "fcntl_dupfd s cur env a arg c")
    case (Pair s' out)
    show ?thesis by (rule fcntl_dupfdE [OF inv live x lim Pair]) (simp_all add: Pair)
  qed
  have mark: "keeps X Y s (if b then set_cloexec s (fs_tasks s ! cur) f else clear_cloexec s (fs_tasks s ! cur) f)" for b
    using mark_ok [OF inv live f refl, of b] by (simp add: keeps_def fun_eq_iff)
  note put = keeps_put_fd [OF inv x]
  show ?thesis
    unfolding fcntl_switch_def Let_def
    by (simp add: dup mark [of True, simplified] mark [of False, simplified] keeps_refl [OF inv] put keeps_setlk [OF inv] setlk_no_assert case_prod_beta)
qed

text \<open>The whole call, and the end of a wait.\<close>

lemma fcntl_ok:
  assumes inv: "fs_inv s X Y" and cur: "cur < length (fs_tasks s)" and lim: "fe_rlimit env \<le> 2 ^ 31"
    and c: "sys_fcntl_common s cur env f cmd arg g = (s', out)"
  shows "out \<noteq> FcAssert" and "out = FcRet r w \<Longrightarrow> fs_inv s' X Y" and "fs_tasks s' = fs_tasks s"
    and "out = FcSleep \<Longrightarrow> \<exists>a. f_get s cur f = Some a \<and> fs_inv s' (\<lambda>b. X b + ref1 (Some a) b) Y"
proof -
  define t where "t = fs_tasks s ! cur"
  have live: "live_tab s t" unfolding t_def by (rule tasks_live(1) [OF inv cur])
  have "out \<noteq> FcAssert \<and> (out = FcRet r w \<longrightarrow> fs_inv s' X Y) \<and> fs_tasks s' = fs_tasks s \<and>
    (out = FcSleep \<longrightarrow> (\<exists>a. f_get s cur f = Some a \<and> fs_inv s' (\<lambda>b. X b + ref1 (Some a) b) Y))"
  proof (cases "f_get s cur f")
    case None
    then show ?thesis using c inv by (auto simp: sys_fcntl_common_def f_get_retain_def)
  next
    case (Some a)
    define s1 where "s1 = s\<lparr>fs_fds := fd_retain (fs_fds s) a\<rparr>"
    have ga: "fdtable_get (get_tab s t) f = Some a" using Some by (simp add: f_get_def t_def)
    note g1 = get_retain_ok [OF inv live ga, folded s1_def]
    have s1: "f_get_retain s cur f = (s1, Some a)" "fs_tasks s1 = fs_tasks s" "live_tab s1 (fs_tasks s1 ! cur)"
      using Some live by (simp_all add: f_get_retain_def s1_def t_def)
    have f: "nat f < length (ft_files (get_tab s1 (fs_tasks s1 ! cur)))"
      using ga by (auto simp: fdtable_get_def s1_def t_def split: if_splits)
    obtain x where x: "heap_get (fs_fds s1) a = Some x" using countedD(3) [OF fs_invD(1) [OF g1(1)], of a] by auto
    note sw = fcntl_switch_ok [OF g1(1) s1(3) x f lim, of cmd arg g]
    show ?thesis
      using c sw fs_inv_close [of _ X a Y] g1(1) s1(2) Some
      by (auto simp: sys_fcntl_common_def s1(1) x keeps_def split: if_splits prod.splits fc_out.splits)
  qed
  then show "out \<noteq> FcAssert" "out = FcRet r w \<Longrightarrow> fs_inv s' X Y" "fs_tasks s' = fs_tasks s"
    "out = FcSleep \<Longrightarrow> \<exists>a. f_get s cur f = Some a \<and> fs_inv s' (\<lambda>b. X b + ref1 (Some a) b) Y" by blast+
qed

lemma fcntl_wake_ok:
  assumes "fs_inv s (\<lambda>b. X b + ref1 (Some a) b) Y" and "fcntl_wake s a w i = (s', out)"
  shows "out \<noteq> FcAssert" and "out = FcRet r wr \<Longrightarrow> fs_inv s' X Y" and "fs_tasks s' = fs_tasks s"
    and "out = FcSleep \<Longrightarrow> fs_inv s' (\<lambda>b. X b + ref1 (Some a) b) Y"
  using assms fs_inv_close [of "s\<lparr>fs_locks := l\<rparr>" X a Y for l]
  by (auto simp: fcntl_wake_def split: prod.splits lk_out.splits)

lemma flock_ok:
  assumes inv: "fs_inv s X Y" and cur: "cur < length (fs_tasks s)" and c: "sys_flock s cur env fl f operation = (s', out)"
  shows "out = FcRet r w \<Longrightarrow> fs_inv s' X Y" and "fs_tasks s' = fs_tasks s"
    and "out = FcSleep \<Longrightarrow> \<exists>a. f_get s cur f = Some a \<and> fs_inv s' (\<lambda>b. X b + ref1 (Some a) b) Y"
proof -
  have "(out = FcRet r w \<longrightarrow> fs_inv s' X Y) \<and> fs_tasks s' = fs_tasks s \<and>
    (out = FcSleep \<longrightarrow> (\<exists>a. f_get s cur f = Some a \<and> fs_inv s' (\<lambda>b. X b + ref1 (Some a) b) Y))"
  proof (cases "f_get s cur f")
    case None
    then show ?thesis using c inv by (auto simp: sys_flock_def f_get_retain_def)
  next
    case (Some a)
    define s1 where "s1 = s\<lparr>fs_fds := fd_retain (fs_fds s) a\<rparr>"
    note g1 = get_retain_ok [OF inv tasks_live(1) [OF inv cur] Some [unfolded f_get_def], folded s1_def]
    have s1: "f_get_retain s cur f = (s1, Some a)" "fs_tasks s1 = fs_tasks s" using Some by (simp_all add: f_get_retain_def s1_def)
    obtain x where x: "heap_get (fs_fds s1) a = Some x" using countedD(3) [OF fs_invD(1) [OF g1(1)], of a] by auto
    have cl: "fs_inv (fst (fd_close (s1\<lparr>fs_locks := l\<rparr>) a)) X Y" "fs_inv (fst (fd_close s1 a)) X Y" for l
      using fs_inv_close [of "s1\<lparr>fs_locks := l\<rparr>" X a Y] fs_inv_close [OF g1(1)] g1(1) by simp_all
    show ?thesis using c cl g1(1) s1(2) Some by (auto simp: sys_flock_def s1(1) x split: if_splits prod.splits lk_out.splits)
  qed
  then show "out = FcRet r w \<Longrightarrow> fs_inv s' X Y" "fs_tasks s' = fs_tasks s"
    "out = FcSleep \<Longrightarrow> \<exists>a. f_get s cur f = Some a \<and> fs_inv s' (\<lambda>b. X b + ref1 (Some a) b) Y" by blast+
qed

lemma flock_wake_ok:
  assumes "fs_inv s (\<lambda>b. X b + ref1 (Some a) b) Y" and "sys_flock_wake s a w i = (s', out)"
  shows "out = FcRet r wr \<Longrightarrow> fs_inv s' X Y" and "fs_tasks s' = fs_tasks s"
    and "out = FcSleep \<Longrightarrow> fs_inv s' (\<lambda>b. X b + ref1 (Some a) b) Y"
  using assms fs_inv_close [of "s\<lparr>fs_locks := l\<rparr>" X a Y for l]
  by (auto simp: sys_flock_wake_def split: prod.splits lk_out.splits)

end
