(* ===== verification/FdTable_Props.thy ===== *)
theory FdTable_Props
  imports Fcntl_Inv
begin

text \<open>
  The descriptor calls of all tasks as a step relation, with the references callers hold in
  flight, and the properties of \<^verbatim>\<open>fs/fd.c\<close>.
\<close>

section \<open>The system of tasks, tables and open files\<close>

definition CLONE_FILES :: u32 where "CLONE_FILES = 0x400"

text \<open>The part of \<^verbatim>\<open>copy_task\<close> (\<^verbatim>\<open>kernel/fork.c\<close>) on descriptors.\<close>

definition clone_files :: "fs_state \<Rightarrow> bool \<Rightarrow> bool \<Rightarrow> nat \<Rightarrow> u32 \<Rightarrow> fs_state res" where
  "clone_files s alloc_table alloc cur flags =
     (let t = fs_tasks s ! cur in
      if flags AND CLONE_FILES \<noteq> 0 then Inr (s\<lparr>fs_tabs := fdtable_retain (fs_tabs s) t, fs_tasks := fs_tasks s @ [t]\<rparr>)
      else (case fdtable_copy s alloc_table alloc t of
          Inl e \<Rightarrow> Inl e
        | Inr (s', t') \<Rightarrow> Inr (s'\<lparr>fs_tasks := fs_tasks s' @ [t']\<rparr>)))"

text \<open>The end of a task.\<close>

definition exit_files :: "fs_state \<Rightarrow> nat \<Rightarrow> fs_state" where
  "exit_files s cur =
     fdtable_release (s\<lparr>fs_tasks := take cur (fs_tasks s) @ drop (Suc cur) (fs_tasks s)\<rparr>) (fs_tasks s ! cur)"

definition held_refs :: "nat list \<Rightarrow> nat \<Rightarrow> nat" where
  "held_refs H a = count_where (\<lambda>b. b = a) H"

definition limit_ok :: "fd_env \<Rightarrow> bool" where
  "limit_ok env \<longleftrightarrow> fe_rlimit env \<le> 2 ^ 31"

text \<open>
  \<open>H\<close> is what callers hold: an open file made by \<^verbatim>\<open>fd_create\<close> and not installed yet, the result of
  \<^verbatim>\<open>f_get_retain\<close>, and the file of an \<^verbatim>\<open>fcntl\<close> asleep.
\<close>

inductive fd_step :: "fs_state \<times> nat list \<Rightarrow> fs_state \<times> nat list \<Rightarrow> bool" where
  create: "fo_refcount x = 1 \<Longrightarrow> heap_alloc (fs_fds s) x = (fds, a) \<Longrightarrow> fd_step (s, H) (s\<lparr>fs_fds := fds\<rparr>, a # H)"
| get: "cur < length (fs_tasks s) \<Longrightarrow> f_get_retain s cur f = (s', Some a) \<Longrightarrow> fd_step (s, H) (s', a # H)"
| put: "a \<in> set H \<Longrightarrow> fd_step (s, H) (fst (fd_close s a), remove1 a H)"
| install: "a \<in> set H \<Longrightarrow> cur < length (fs_tasks s) \<Longrightarrow> limit_ok env \<Longrightarrow>
    fd_step (s, H) (fst (f_install s cur env a flags), remove1 a H)"
| install_at: "a \<in> set H \<Longrightarrow> cur < length (fs_tasks s) \<Longrightarrow>
    fd_step (s, H) (fst (fdtable_install_at s env (fs_tasks s ! cur) f a c), remove1 a H)"
| dup: "cur < length (fs_tasks s) \<Longrightarrow> limit_ok env \<Longrightarrow> fd_step (s, H) (fst (sys_dup s cur env f), H)"
| dup2: "cur < length (fs_tasks s) \<Longrightarrow> fd_step (s, H) (fst (sys_dup2 s cur env f g), H)"
| dup3: "cur < length (fs_tasks s) \<Longrightarrow> fd_step (s, H) (fst (sys_dup3 s cur env f g flags), H)"
| close: "cur < length (fs_tasks s) \<Longrightarrow> fd_step (s, H) (fst (f_close s cur f), H)"
| close_range: "cur < length (fs_tasks s) \<Longrightarrow> fd_step (s, H) (fst (sys_close_range s at al cur first lst flags), H)"
| exec: "cur < length (fs_tasks s) \<Longrightarrow> fd_step (s, H) (fdtable_do_cloexec s (fs_tasks s ! cur), H)"
| unshare: "cur < length (fs_tasks s) \<Longrightarrow> fd_step (s, H) (fst (fdtable_unshare_current s at al cur), H)"
| clone: "cur < length (fs_tasks s) \<Longrightarrow> clone_files s at al cur flags = Inr s' \<Longrightarrow> fd_step (s, H) (s', H)"
| exit: "cur < length (fs_tasks s) \<Longrightarrow> fd_step (s, H) (exit_files s cur, H)"
| fcntl: "cur < length (fs_tasks s) \<Longrightarrow> limit_ok (fd_env.truncate env) \<Longrightarrow>
    sys_fcntl_common s cur env f cmd arg g = (s', FcRet r w) \<Longrightarrow> fd_step (s, H) (s', H)"
| fcntl_sleep: "cur < length (fs_tasks s) \<Longrightarrow> limit_ok (fd_env.truncate env) \<Longrightarrow>
    sys_fcntl_common s cur env f cmd arg g = (s', FcSleep) \<Longrightarrow> f_get s cur f = Some a \<Longrightarrow> fd_step (s, H) (s', a # H)"
| fcntl_wake: "a \<in> set H \<Longrightarrow> fcntl_wake s a w i = (s', FcRet r wr) \<Longrightarrow> fd_step (s, H) (s', remove1 a H)"
| flock: "cur < length (fs_tasks s) \<Longrightarrow> sys_flock s cur env fl f operation = (s', FcRet r w) \<Longrightarrow> fd_step (s, H) (s', H)"
| flock_sleep: "cur < length (fs_tasks s) \<Longrightarrow> sys_flock s cur env fl f operation = (s', FcSleep) \<Longrightarrow> f_get s cur f = Some a \<Longrightarrow>
    fd_step (s, H) (s', a # H)"
| flock_wake: "a \<in> set H \<Longrightarrow> sys_flock_wake s a w i = (s', FcRet r wr) \<Longrightarrow> fd_step (s, H) (s', remove1 a H)"
| flock_again: "a \<in> set H \<Longrightarrow> sys_flock_wake s a w i = (s', FcSleep) \<Longrightarrow> fd_step (s, H) (s', H)"
| fcntl_again: "a \<in> set H \<Longrightarrow> fcntl_wake s a w i = (s', FcSleep) \<Longrightarrow> fd_step (s, H) (s', H)"

text \<open>One task with an empty table of three slots (\<^verbatim>\<open>fdtable_new(3)\<close> in \<^verbatim>\<open>kernel/init.c\<close>).\<close>

definition fs_init :: fs_state where
  "fs_init = \<lparr>fs_fds = [], fs_tabs = [Some \<lparr>ft_refcount = 1, ft_files = [None, None, None], ft_cloexec = [0]\<rparr>],
     fs_locks = \<lparr>ls_inodes = (\<lambda>_. \<lparr>il_posix = [], il_flock = []\<rparr>), ls_waiters = [], ls_flock_waiters = []\<rparr>, fs_tasks = [0]\<rparr>"

inductive fd_reachable :: "fs_state \<times> nat list \<Rightarrow> bool" where
  init: "fd_reachable (fs_init, [])"
| step: "fd_reachable c \<Longrightarrow> fd_step c c' \<Longrightarrow> fd_reachable c'"

section \<open>The invariant of the system\<close>

abbreviation sys_inv :: "fs_state \<Rightarrow> nat list \<Rightarrow> bool" where
  "sys_inv s H \<equiv> fs_inv s (held_refs H) (\<lambda>_. 0)"

lemma held_refs_Cons: "held_refs (a # H) = (\<lambda>b. held_refs H b + ref1 (Some a) b)"
  by (auto simp: held_refs_def fun_eq_iff)

lemma held_refs_remove: "a \<in> set H \<Longrightarrow> held_refs H = (\<lambda>b. held_refs (remove1 a H) b + ref1 (Some a) b)"
proof (induction H)
  case (Cons c H)
  then show ?case by (cases "c = a") (auto simp: held_refs_Cons fun_eq_iff)
qed simp

lemma sys_inv_take: "a \<in> set H \<Longrightarrow> sys_inv s H \<Longrightarrow> fs_inv s (\<lambda>b. held_refs (remove1 a H) b + ref1 (Some a) b) (\<lambda>_. 0)"
  using held_refs_remove [of a H] by simp

lemma fs_inv_create:
  assumes inv: "fs_inv s X Y" and "fo_refcount x = 1" and "heap_alloc (fs_fds s) x = (fds, a)"
  shows "fs_inv (s\<lparr>fs_fds := fds\<rparr>) (\<lambda>b. X b + ref1 (Some a) b) Y"
  using counted_alloc [OF fs_invD(1) [OF inv] assms(2)] assms(3) inv
  by (simp add: fs_inv_def heap_alloc_def tasks_of_def add.assoc)

lemma f_install_inv:
  "fs_inv s (\<lambda>b. X b + ref1 (Some a) b) Y \<Longrightarrow> cur < length (fs_tasks s) \<Longrightarrow> limit_ok env \<Longrightarrow>
     fs_inv (fst (f_install s cur env a flags)) X Y"
  by (cases "f_install s cur env a flags", rule f_installE [of s X a Y cur env flags])
    (auto simp: limit_ok_def intro: tasks_live(1))

lemma install_at_inv:
  "fs_inv s (\<lambda>b. X b + ref1 (Some a) b) Y \<Longrightarrow> live_tab s t \<Longrightarrow> fs_inv (fst (fdtable_install_at s env t f a c)) X Y"
  by (cases "fdtable_install_at s env t f a c", rule install_atE [of s X a Y t env f c]) auto

lemma sys_dup3_inv:
  "fs_inv s X Y \<Longrightarrow> cur < length (fs_tasks s) \<Longrightarrow> fs_inv (fst (sys_dup3 s cur env f g flags)) X Y"
  by (cases "sys_dup3 s cur env f g flags", rule sys_dup3E [of s X Y cur env f g flags]) (auto intro: tasks_live(1))

lemma sys_dup2_inv:
  "fs_inv s X Y \<Longrightarrow> cur < length (fs_tasks s) \<Longrightarrow> fs_inv (fst (sys_dup2 s cur env f g)) X Y"
  by (simp add: sys_dup2_def sys_dup3_inv)

lemma sys_dup_inv:
  assumes "fs_inv s X Y" and "cur < length (fs_tasks s)" and "limit_ok env"
  shows "fs_inv (fst (sys_dup s cur env f)) X Y"
proof (cases "f_get s cur f")
  case (Some a)
  note g = get_retain_ok(1) [OF assms(1) tasks_live(1) [OF assms(1,2)] Some [unfolded f_get_def]]
  show ?thesis using f_install_inv [OF g] assms(2,3) by (simp add: sys_dup_def Some)
qed (simp add: sys_dup_def assms)

text \<open>What \<^verbatim>\<open>close_range\<close> does to a view.\<close>

definition range_view :: "u32 \<Rightarrow> u32 \<Rightarrow> u32 \<Rightarrow> (nat \<Rightarrow> (nat \<times> bool) option) \<Rightarrow> nat \<Rightarrow> (nat \<times> bool) option" where
  "range_view first lst flags v n =
     (if unat first \<le> n \<and> n \<le> unat lst then range_upd (flags AND CLOSE_RANGE_CLOEXEC \<noteq> 0) (v n) else v n)"

lemma range_walk:
  assumes inv: "fs_inv s X Y" and live: "live_tab s t" and sz: "sz = length (ft_files (get_tab s t))"
    and s': "s' = (if sz = 0 \<or> unat first \<ge> sz then s
        else foldl (close_range_one (flags AND CLOSE_RANGE_CLOEXEC \<noteq> 0) t) s [unat first ..< min (unat lst + 1) sz])"
  shows "fs_inv s' X Y \<and> fs_tasks s' = fs_tasks s \<and> tab_view s' = (tab_view s)(t := range_view first lst flags (tab_view s t))"
proof -
  have none: "sz \<le> n \<Longrightarrow> tab_view s t n = None" for n by (simp add: tab_view_def ft_view_def sz)
  have upd: "range_upd m None = None" for m by (simp add: range_upd_def)
  show ?thesis
  proof (cases "sz = 0 \<or> unat first \<ge> sz")
    case True
    have "range_view first lst flags (tab_view s t) n = tab_view s t n" for n
      using True none [of n] upd by (auto simp: range_view_def)
    then show ?thesis using True inv s' by (auto simp: fun_eq_iff)
  next
    case False
    note w = ranged.walk [OF inv live, of "[unat first ..< min (unat lst + 1) sz]" "flags AND CLOSE_RANGE_CLOEXEC \<noteq> 0"]
    have "range_view first lst flags (tab_view s t) = (\<lambda>n. if n \<in> set [unat first ..< min (unat lst + 1) sz]
        then range_upd (flags AND CLOSE_RANGE_CLOEXEC \<noteq> 0) (tab_view s t n) else tab_view s t n)"
      using none upd by (auto simp: range_view_def fun_eq_iff)
    moreover have "s' = foldl (close_range_one (flags AND CLOSE_RANGE_CLOEXEC \<noteq> 0) t) s [unat first ..< min (unat lst + 1) sz]"
      using False s' by simp
    moreover have "n \<in> set [unat first ..< min (unat lst + 1) sz] \<Longrightarrow> n < length (ft_files (get_tab s t))" for n using sz by simp
    ultimately show ?thesis using w by (simp only: distinct_upt)
  qed
qed

lemma close_range_ok:
  assumes inv: "fs_inv s X (\<lambda>_. 0)" and cur: "cur < length (fs_tasks s)" and c: "sys_close_range s at al cur first lst flags = (s', r)"
  shows "fs_inv s' X (\<lambda>_. 0) \<and> length (fs_tasks s') = length (fs_tasks s) \<and> (\<forall>e. r = Inl e \<longrightarrow> s' = s) \<and>
    (r = Inr () \<longrightarrow> (\<forall>i < length (fs_tasks s). task_view s' i =
      (if i = cur \<or> flags AND CLOSE_RANGE_UNSHARE = 0 \<and> fs_tasks s ! i = fs_tasks s ! cur
       then range_view first lst flags (task_view s i) else task_view s i)))"
proof (cases "flags AND NOT (CLOSE_RANGE_UNSHARE OR CLOSE_RANGE_CLOEXEC) \<noteq> 0 \<or> lst < first")
  case True
  then have "s' = s" "\<exists>e. r = Inl e" using c by (auto simp: sys_close_range_def split: if_splits)
  then show ?thesis using inv by auto
next
  case False
  define sh where "sh = (if flags AND CLOSE_RANGE_UNSHARE \<noteq> 0 then fdtable_unshare_current s at al cur else (s, Inr ()))"
  obtain s1 r1 where sh1: "sh = (s1, r1)" by fastforce
  have u: "fs_inv s1 X (\<lambda>_. 0) \<and> length (fs_tasks s1) = length (fs_tasks s) \<and> (\<forall>i < length (fs_tasks s). task_view s1 i = task_view s i) \<and>
      (\<forall>e. r1 = Inl e \<longrightarrow> s1 = s) \<and> (r1 = Inr () \<longrightarrow> (\<forall>i < length (fs_tasks s). i \<noteq> cur \<longrightarrow>
        fs_tasks s1 ! i = fs_tasks s1 ! cur \<longrightarrow> flags AND CLOSE_RANGE_UNSHARE = 0 \<and> fs_tasks s ! i = fs_tasks s ! cur)) \<and>
      (flags AND CLOSE_RANGE_UNSHARE = 0 \<longrightarrow> s1 = s)"
  proof (cases "flags AND CLOSE_RANGE_UNSHARE = 0")
    case True
    then have "s1 = s" "r1 = Inr ()" using sh1 by (simp_all add: sh_def)
    then show ?thesis using inv True by simp
  next
    case False
    then have "fdtable_unshare_current s at al cur = (s1, r1)" using sh1 by (simp add: sh_def)
    note us = unshare_ok [OF inv cur this]
    show ?thesis using us(1-3) us(4) us(5) False by blast
  qed
  show ?thesis
  proof (cases r1)
    case (Inl e)
    then have "s' = s1" "r = Inl e" using c False sh1 by (auto simp: sys_close_range_def sh_def [symmetric])
    then show ?thesis using u Inl by auto
  next
    case (Inr z)
    define t where "t = fs_tasks s1 ! cur"
    define sz where "sz = length (ft_files (get_tab s1 t))"
    have live: "live_tab s1 t" unfolding t_def by (rule tasks_live(1)) (use u cur in auto)
    have s': "s' = (if sz = 0 \<or> unat first \<ge> sz then s1
        else foldl (close_range_one (flags AND CLOSE_RANGE_CLOEXEC \<noteq> 0) t) s1 [unat first ..< min (unat lst + 1) sz])" and r: "r = Inr ()"
      using c False unfolding sys_close_range_def sh_def [symmetric] sh1 Inr prod.case sum.case Let_def t_def [symmetric] sz_def [symmetric]
      by (auto split: if_splits)
    note w = range_walk [OF _ live sz_def s', of X "\<lambda>_. 0"]
    have "task_view s' i = (if i = cur \<or> flags AND CLOSE_RANGE_UNSHARE = 0 \<and> fs_tasks s ! i = fs_tasks s ! cur
       then range_view first lst flags (task_view s i) else task_view s i)" if i: "i < length (fs_tasks s)" for i
    proof -
      have "task_view s' i = (if fs_tasks s1 ! i = t then range_view first lst flags (task_view s1 i) else task_view s1 i)"
        using w u by (simp add: task_view_def)
      moreover have "fs_tasks s1 ! i = t \<longleftrightarrow> i = cur \<or> flags AND CLOSE_RANGE_UNSHARE = 0 \<and> fs_tasks s ! i = fs_tasks s ! cur"
        using u i Inr by (auto simp: t_def)
      moreover have "task_view s1 i = task_view s i" using u i by blast
      ultimately show ?thesis by simp
    qed
    then show ?thesis using w u r by simp
  qed
qed

lemma clone_ok:
  assumes inv: "fs_inv s X Y" and cur: "cur < length (fs_tasks s)" and c: "clone_files s at al cur flags = Inr s'"
  shows "fs_inv s' X Y" and "length (fs_tasks s') = Suc (length (fs_tasks s))"
    and "task_view s' (length (fs_tasks s)) = task_view s cur" and "i < length (fs_tasks s) \<Longrightarrow> task_view s' i = task_view s i"
    and "i < length (fs_tasks s) \<Longrightarrow> fs_tasks s' ! i = fs_tasks s ! i"
    and "flags AND CLONE_FILES = 0 \<Longrightarrow> i < length (fs_tasks s) \<Longrightarrow> fs_tasks s' ! i \<noteq> fs_tasks s' ! length (fs_tasks s)"
proof -
  define t where "t = fs_tasks s ! cur"
  have live: "live_tab s t" unfolding t_def by (rule tasks_live(1) [OF inv cur])
  obtain T where T: "heap_get (fs_tabs s) t = Some T" using live by (rule live_tabE)
  have "fs_inv s' X Y \<and> length (fs_tasks s') = Suc (length (fs_tasks s)) \<and> task_view s' (length (fs_tasks s)) = task_view s cur \<and>
    (\<forall>i < length (fs_tasks s). task_view s' i = task_view s i \<and> fs_tasks s' ! i = fs_tasks s ! i \<and>
      (flags AND CLONE_FILES = 0 \<longrightarrow> fs_tasks s' ! i \<noteq> fs_tasks s' ! length (fs_tasks s)))"
  proof (cases "flags AND CLONE_FILES = 0")
    case False
    then have s': "s' = s\<lparr>fs_tabs := fdtable_retain (fs_tabs s) t, fs_tasks := fs_tasks s @ [t]\<rparr>" using c by (simp add: clone_files_def Let_def t_def)
    have tabs: "fdtable_retain (fs_tabs s) t = heap_put (fs_tabs s) t (T\<lparr>ft_refcount := ft_refcount T + 1\<rparr>)" using T by (simp add: fdtable_retain_def)
    have view: "tab_view s' = tab_view s" using T by (auto simp: s' tabs tab_view_def get_tab_def ft_view_def fun_eq_iff)
    have "counted ft_refcount (fs_tabs s') (\<lambda>u. tasks_of s' u + Y u)"
      using counted_cong [OF ftr.counted_retain [OF fs_invD(2) [OF inv] T]] by (simp add: s' tasks_of_def)
    moreover have "slot_refs (fs_tabs s') a = slot_refs (fs_tabs s) a" for a
      using slot_refs_put [OF T, of "T\<lparr>ft_refcount := ft_refcount T + 1\<rparr>" a] by (simp add: s' tabs)
    moreover have "tab_ok V" if "heap_get (fs_tabs s') v = Some V" for v V
      using that fs_invD(3) [OF inv, of v] fs_invD(3) [OF inv T] T by (auto simp: s' tabs tab_ok_def split: if_splits)
    ultimately have "fs_inv s' X Y" using fs_invD(1) [OF inv] by (simp add: fs_inv_def s')
    then show ?thesis using False view by (simp add: task_view_def s' t_def nth_append)
  next
    case True
    then obtain s1 t' where cp: "fdtable_copy s at al t = Inr (s1, t')" and s': "s' = s1\<lparr>fs_tasks := fs_tasks s1 @ [t']\<rparr>"
      using c by (auto simp: clone_files_def Let_def t_def split: sum.splits)
    note e = fdtable_copyE [OF inv live cp]
    have "counted ft_refcount (fs_tabs s') (\<lambda>u. tasks_of s' u + Y u)"
      using counted_cong [OF fs_invD(2) [OF e(1)]] by (simp add: s' tasks_of_def)
    then have "fs_inv s' X Y" using fs_invD(1,3) [OF e(1)] by (auto simp: fs_inv_def s')
    moreover have "tab_view s' = tab_view s1" by (simp add: s' tab_view_def get_tab_def fun_eq_iff)
    moreover have "i < length (fs_tasks s) \<Longrightarrow> fs_tasks s ! i \<noteq> t'" for i using tasks_live(1) [OF inv, of i] e(3) by auto
    ultimately show ?thesis using e(2,4) by (simp add: task_view_def s' t_def nth_append)
  qed
  then show "fs_inv s' X Y" "length (fs_tasks s') = Suc (length (fs_tasks s))"
    "task_view s' (length (fs_tasks s)) = task_view s cur" "i < length (fs_tasks s) \<Longrightarrow> task_view s' i = task_view s i"
    "i < length (fs_tasks s) \<Longrightarrow> fs_tasks s' ! i = fs_tasks s ! i"
    "flags AND CLONE_FILES = 0 \<Longrightarrow> i < length (fs_tasks s) \<Longrightarrow> fs_tasks s' ! i \<noteq> fs_tasks s' ! length (fs_tasks s)" by blast+
qed

lemma exit_ok:
  assumes inv: "fs_inv s X (\<lambda>_. 0)" and cur: "cur < length (fs_tasks s)"
  shows "fs_inv (exit_files s cur) X (\<lambda>_. 0)"
    and "i < length (fs_tasks s) \<Longrightarrow> i \<noteq> cur \<Longrightarrow> tab_view (exit_files s cur) (fs_tasks s ! i) = tab_view s (fs_tasks s ! i)"
proof -
  define s1 where "s1 = s\<lparr>fs_tasks := take cur (fs_tasks s) @ drop (Suc cur) (fs_tasks s)\<rparr>"
  have i1: "fs_inv s1 X (\<lambda>u. 0 + ref1 (Some (fs_tasks s ! cur)) u)" by (rule fs_inv_drop_task [OF inv s1_def cur])
  note rel = fdtable_release_ok [OF i1]
  have e: "exit_files s cur = fdtable_release s1 (fs_tasks s ! cur)" by (simp add: exit_files_def s1_def)
  show "fs_inv (exit_files s cur) X (\<lambda>_. 0)" using rel(1) by (simp add: e)
  assume i: "i < length (fs_tasks s)" "i \<noteq> cur"
  have "fs_tasks s ! i \<noteq> fs_tasks s ! cur \<or> 0 < tasks_of s1 (fs_tasks s ! cur) + 0"
    using tasks_of_2 [OF i(1) cur i(2), of "fs_tasks s ! cur"] tasks_of_drop [OF cur, of "fs_tasks s ! cur"] by (auto simp: s1_def)
  then show "tab_view (exit_files s cur) (fs_tasks s ! i) = tab_view s (fs_tasks s ! i)"
    using rel(3) [of "fs_tasks s ! i"] by (simp add: e s1_def tab_view_def get_tab_def)
qed

lemma fd_step_inv:
  assumes "fd_step (s, H) (s', H')" and "sys_inv s H"
  shows "sys_inv s' H'"
  using assms
proof (cases rule: fd_step.cases)
  case (create x fds a)
  then show ?thesis using fs_inv_create [OF assms(2)] by (simp add: held_refs_Cons)
next
  case (get cur f a)
  then show ?thesis using get_retain_ok(1) [OF assms(2) tasks_live(1) [OF assms(2)], of cur f a]
    by (auto simp: f_get_retain_def f_get_def held_refs_Cons split: option.splits)
next
  case (put a)
  then show ?thesis using fs_inv_close [OF sys_inv_take [OF _ assms(2)]] by simp
next
  case (install a cur env flags)
  then show ?thesis using f_install_inv [OF sys_inv_take [OF _ assms(2)]] by simp
next
  case (install_at a cur env f c)
  then show ?thesis using install_at_inv [OF sys_inv_take [OF _ assms(2)]] tasks_live(1) [OF assms(2)] by simp
next
  case (close cur f)
  then show ?thesis using fdtable_close_ok(1) [OF assms(2) tasks_live(1) [OF assms(2)], of cur f] by (simp add: f_close_eq)
next
  case (close_range cur at al first lst flags)
  then show ?thesis using close_range_ok [OF assms(2), of cur at al first lst flags] by (cases "sys_close_range s at al cur first lst flags") simp
next
  case (unshare cur at al)
  then show ?thesis using unshare_ok(1) [OF assms(2), of cur at al] by (cases "fdtable_unshare_current s at al cur") simp
next
  case (fcntl cur env f cmd arg g r w)
  then show ?thesis using fcntl_ok(2) [OF assms(2), of cur env] by (simp add: limit_ok_def)
next
  case (fcntl_sleep cur env f cmd arg g a)
  then have "\<exists>b. f_get s cur f = Some b \<and> fs_inv s' (\<lambda>c. held_refs H c + ref1 (Some b) c) (\<lambda>_. 0)"
    using fcntl_ok(4) [OF assms(2), of cur env f cmd arg g s' FcSleep] by (simp add: limit_ok_def)
  then show ?thesis using fcntl_sleep by (auto simp: held_refs_Cons)
next
  case (fcntl_wake a w i r wr)
  then show ?thesis using fcntl_wake_ok(2) [OF sys_inv_take [OF _ assms(2)]] by blast
next
  case (flock cur env fl f operation r w)
  then show ?thesis using flock_ok(1) [OF assms(2), of cur env] by simp
next
  case (flock_sleep cur env fl f operation a)
  then have "\<exists>b. f_get s cur f = Some b \<and> fs_inv s' (\<lambda>c. held_refs H c + ref1 (Some b) c) (\<lambda>_. 0)"
    using flock_ok(3) [OF assms(2), of cur env fl f operation s' FcSleep] by simp
  then show ?thesis using flock_sleep by (auto simp: held_refs_Cons)
next
  case (flock_wake a w i r wr)
  then show ?thesis using flock_wake_ok(1) [OF sys_inv_take [OF _ assms(2)]] by blast
next
  case (flock_again a w i)
  then show ?thesis using flock_wake_ok(3) [OF sys_inv_take [OF _ assms(2)]] held_refs_remove [of a H] by simp
next
  case (fcntl_again a w i)
  then show ?thesis using fcntl_wake_ok(4) [OF sys_inv_take [OF _ assms(2)]] held_refs_remove [of a H] by simp
qed (use assms in \<open>auto simp: exit_ok do_cloexec_ok tasks_live sys_dup_inv sys_dup2_inv sys_dup3_inv intro: clone_ok(1)\<close>)

lemma fs_inv_init: "sys_inv fs_init []"
  by (auto simp: fs_inv_def fs_init_def counted_def heap_get_def held_refs_def slot_refs_def tab_refs_def tab_ok_def tasks_of_def less_Suc_eq)

lemma fd_reachable_inv: "fd_reachable c \<Longrightarrow> sys_inv (fst c) (snd c)"
proof (induction rule: fd_reachable.induct)
  case (step c c')
  then show ?case using fd_step_inv [of "fst c" "snd c" "fst c'" "snd c'"] by simp
qed (simp add: fs_inv_init)

section \<open>Properties\<close>


definition ex_file :: fd_obj where
  "ex_file = \<lparr>fo_refcount = 1, fo_flags = 2, fo_inode = Some 7, fo_owner = 0, fo_getflags = None, fo_setflags = None,
     fo_seek = Some (Inr 0), fo_size = Some (Inr 100), fo_close = Inr 0, fo_add_seals = (\<lambda>_. Inl EINVAL), fo_get_seals = Inl EINVAL\<rparr>"

definition ex_env :: fd_env where "ex_env = \<lparr>fe_rlimit = 1024, fe_alloc = True\<rparr>"

text \<open>An open file made and installed, then duplicated.\<close>

definition ex_made :: fs_state where "ex_made = fs_init\<lparr>fs_fds := [Some ex_file]\<rparr>"
definition ex_open :: fs_state where "ex_open = fst (f_install ex_made 0 ex_env 0 0)"
definition ex_duped :: fs_state where "ex_duped = fst (sys_dup3 ex_open 0 ex_env 0 1 O_CLOEXEC)"

lemma ex_reachable: "fd_reachable (ex_made, [0])" "fd_reachable (ex_open, [])" "fd_reachable (ex_duped, [])"
proof -
  have "fd_step (fs_init, []) (ex_made, [0])"
    using fd_step.create [of ex_file fs_init "[Some ex_file]" 0 "[]"] by (simp add: ex_made_def ex_file_def heap_alloc_def fs_init_def)
  then show m: "fd_reachable (ex_made, [0])" by (rule fd_reachable.step [OF fd_reachable.init])
  have "fd_step (ex_made, [0]) (ex_open, [])"
    using fd_step.install [of 0 "[0]" 0 ex_made ex_env 0] by (simp add: ex_open_def ex_made_def fs_init_def limit_ok_def ex_env_def)
  then show r: "fd_reachable (ex_open, [])" by (rule fd_reachable.step [OF m])
  have "fs_tasks ex_open = [0]" by (simp add: ex_open_def f_install_def f_install_start_def ex_made_def fs_init_def ex_env_def get_tab_def
        heap_get_def first_free_def fdtable_expand_def fdtable_resize_def put_tab_def heap_put_def)
  then have "fd_step (ex_open, []) (ex_duped, [])"
    using fd_step.dup3 [of 0 ex_open "[]" ex_env 0 1 O_CLOEXEC] by (simp add: ex_duped_def)
  then show "fd_reachable (ex_duped, [])" by (rule fd_reachable.step [OF r])
qed

lemmas ex_eval = ex_made_def fs_init_def ex_env_def get_tab_def put_tab_def heap_get_def heap_put_def first_free_def fdtable_expand_def
  fdtable_resize_def BITS_SIZE_def bit_clear_def bit_set_def bit_test_def f_install_def f_install_start_def set_cloexec_def
  clear_cloexec_def fdtable_detach_def fdtable_get_def fd_retain_def

lemma ex_open_eq: "ex_open = fs_init\<lparr>fs_fds := [Some ex_file], fs_tabs := [Some \<lparr>ft_refcount = 1, ft_files = [Some 0, None, None], ft_cloexec = [0]\<rparr>]\<rparr>"
  by (simp add: ex_open_def ex_eval)

lemma ex_dup_eval: "sys_dup3 ex_open 0 ex_env 0 1 O_CLOEXEC = (fs_init\<lparr>fs_fds := [Some (ex_file\<lparr>fo_refcount := 2\<rparr>)],
    fs_tabs := [Some \<lparr>ft_refcount = 1, ft_files = [Some 0, Some 0, None], ft_cloexec = [2]\<rparr>]\<rparr>, Inr 1)"
  by (simp add: ex_open_eq sys_dup3_def ex_eval ex_file_def)

lemma ex_duped_eq: "ex_duped = fs_init\<lparr>fs_fds := [Some (ex_file\<lparr>fo_refcount := 2\<rparr>)],
    fs_tabs := [Some \<lparr>ft_refcount = 1, ft_files = [Some 0, Some 0, None], ft_cloexec = [2]\<rparr>]\<rparr>"
  by (simp add: ex_duped_def ex_dup_eval)

lemma ex_values: "fs_tasks ex_duped = [0]" "fs_tasks ex_open = [0]" "fs_tasks ex_made = [0]" "limit_ok ex_env"
  by (simp_all add: ex_duped_eq ex_open_eq ex_made_def fs_init_def limit_ok_def ex_env_def)

lemma ex_views: "task_view ex_duped 0 0 = Some (0, False)" "task_view ex_duped 0 1 = Some (0, True)"
  by (simp_all add: task_view_def tab_view_def ex_duped_eq fs_init_def get_tab_def heap_get_def ft_view_def bit_test_def)




text \<open>
  C17 (functional). \<^verbatim>\<open>dup3\<close> on two numbers binds the second to the open file of the first, marked as the
  flags say, whether or not the second was in use, and returns it; the first keeps its
  binding and every other task keeps its view unless it shares the table. An error, among
  them equal numbers, a bad flag and a number beyond the limit, changes nothing.
\<close>

theorem dup3_semantics:
  assumes "fd_reachable (s, H)" and "cur < length (fs_tasks s)" and "sys_dup3 s cur env f new_f flags = (s', r)"
  shows "(case r of
       Inr g \<Rightarrow> int g = new_f \<and> f \<noteq> new_f \<and> 0 \<le> f \<and> g < fe_rlimit env \<and> (\<exists>a b. task_view s cur (nat f) = Some (a, b) \<and>
         task_view s' i = (if fs_tasks s ! i = fs_tasks s ! cur then (task_view s i)(g \<mapsto> (a, flags AND O_CLOEXEC \<noteq> 0)) else task_view s i))
     | Inl e \<Rightarrow> s' = s) \<and>
    (flags AND NOT O_CLOEXEC = 0 \<and> 0 \<le> f \<and> 0 \<le> new_f \<and> f \<noteq> new_f \<and> new_f < int (fe_rlimit env) \<and> fe_alloc env \<and>
      task_view s cur (nat f) \<noteq> None \<longrightarrow> r = Inr (nat new_f))"
proof -
  have inv: "sys_inv s H" using fd_reachable_inv [OF assms(1)] by simp
  have "r = Inr (nat new_f)" if h: "flags AND NOT O_CLOEXEC = 0" "0 \<le> f" "0 \<le> new_f" "f \<noteq> new_f" "new_f < int (fe_rlimit env)" "fe_alloc env"
    "task_view s cur (nat f) \<noteq> None"
  proof -
    obtain a where a: "fdtable_get (get_tab s (fs_tasks s ! cur)) f = Some a"
      using h(2,7) by (auto simp: fdtable_get_view task_view_def tab_view_def)
    have "\<not> fe_rlimit env < nat new_f + 1" using h(3,5) by linarith
    then obtain T where T: "fdtable_expand (fe_rlimit env) (fe_alloc env) (get_tab s (fs_tasks s ! cur)) (nat new_f) = Inr T"
      using h(6) by (cases "nat new_f + 1 \<le> length (ft_files (get_tab s (fs_tasks s ! cur)))") (auto simp: fdtable_expand_def fdtable_resize_def)
    show ?thesis using assms(3) h(1,3,4) by (simp add: sys_dup3_def Let_def a T case_prod_beta prod_eq_iff)
  qed
  moreover have "(case r of
       Inr g \<Rightarrow> int g = new_f \<and> f \<noteq> new_f \<and> 0 \<le> f \<and> g < fe_rlimit env \<and> (\<exists>a b. task_view s cur (nat f) = Some (a, b) \<and>
         task_view s' i = (if fs_tasks s ! i = fs_tasks s ! cur then (task_view s i)(g \<mapsto> (a, flags AND O_CLOEXEC \<noteq> 0)) else task_view s i))
     | Inl e \<Rightarrow> s' = s)"
    by (rule sys_dup3E [OF inv tasks_live(1) [OF inv assms(2)] assms(3)]) (auto simp: task_view_def)
  ultimately show ?thesis by blast
qed

theorem dup3_semantics_witness:
  "snd (sys_dup3 ex_open 0 ex_env 0 1 O_CLOEXEC) = Inr 1 \<and> task_view ex_duped 0 1 = Some (0, True)"
proof -
  have r: "sys_dup3 ex_open 0 ex_env 0 1 O_CLOEXEC = (ex_duped, Inr 1)"
    by (simp add: ex_duped_def ex_dup_eval)
  show ?thesis using dup3_semantics [OF ex_reachable(2) _ r, where i = 0] r ex_values(2) ex_views(2) by simp
qed

text \<open>
  Executing a program closes exactly the descriptors marked close-on-exec: a number keeps
  its file if it was not marked and is free otherwise, and tasks with another table are not
  affected.
\<close>

theorem exec_closes_marked:
  assumes "fd_reachable (s, H)" and "cur < length (fs_tasks s)"
  shows "task_view (fdtable_do_cloexec s (fs_tasks s ! cur)) i n =
    (if fs_tasks s ! i = fs_tasks s ! cur \<and> (\<exists>a. task_view s i n = Some (a, True)) then None else task_view s i n)"
proof -
  have inv: "sys_inv s H" using fd_reachable_inv [OF assms(1)] by simp
  note c = do_cloexec_ok [OF inv tasks_live(1) [OF inv assms(2)]]
  show ?thesis using c(3,4) by (auto simp: task_view_def unmarked_def split: option.splits bool.splits)
qed

theorem exec_closes_marked_witness:
  "task_view (fdtable_do_cloexec ex_duped 0) 0 0 = Some (0, False) \<and> task_view (fdtable_do_cloexec ex_duped 0) 0 1 = None"
  using exec_closes_marked [OF ex_reachable(3), of 0 0 0] exec_closes_marked [OF ex_reachable(3), of 0 0 1] ex_views ex_values(1)
  by simp

text \<open>
  C23 (functional). A successful \<^verbatim>\<open>close_range\<close> closes the numbers from the first to the last, or marks
  them with \<^verbatim>\<open>CLOSE_RANGE_CLOEXEC\<close>, and leaves the others; tasks that share the caller's table see the
  same change unless \<^verbatim>\<open>CLOSE_RANGE_UNSHARE\<close> was given, and then only the caller does. A failed call
  changes nothing.
\<close>

theorem close_range_exact:
  assumes "fd_reachable (s, H)" and "cur < length (fs_tasks s)" and "sys_close_range s at al cur first lst flags = (s', r)"
    and "i < length (fs_tasks s)"
  shows "(case r of
       Inl e \<Rightarrow> s' = s
     | Inr _ \<Rightarrow> task_view s' i =
         (if i = cur \<or> flags AND CLOSE_RANGE_UNSHARE = 0 \<and> fs_tasks s ! i = fs_tasks s ! cur
          then range_view first lst flags (task_view s i) else task_view s i))"
  using close_range_ok [OF _ assms(2,3)] fd_reachable_inv [OF assms(1)] assms(4) by (auto split: sum.splits)

theorem close_range_exact_witness:
  "task_view (fst (sys_close_range ex_duped True True 0 1 0xFFFFFFFF 0)) 0 1 = None \<and>
   task_view (fst (sys_close_range ex_duped True True 0 1 0xFFFFFFFF 0)) 0 0 = Some (0, False)"
proof -
  have "snd (sys_close_range ex_duped True True 0 1 0xFFFFFFFF 0) = Inr ()"
    by (simp add: sys_close_range_def Let_def)
  then have r: "sys_close_range ex_duped True True 0 1 0xFFFFFFFF 0 = (fst (sys_close_range ex_duped True True 0 1 0xFFFFFFFF 0), Inr ())"
    by (simp add: prod_eq_iff)
  show ?thesis using close_range_exact [OF ex_reachable(3) _ r, of 0] ex_values(1) ex_views by (simp add: range_view_def range_upd_def)
qed

text \<open>
  C24 (safety). A forked task starts with its parent's descriptors. Without \<^verbatim>\<open>CLONE_FILES\<close> its table is its own:
  whatever number a task with another table closes afterwards, the child's view does not
  change, and the other way round.
\<close>

theorem fork_isolates:
  assumes "fd_reachable (s, H)" and "cur < length (fs_tasks s)" and "clone_files s at al cur flags = Inr s'"
    and "flags AND CLONE_FILES = 0" and "i < length (fs_tasks s)"
  shows "task_view s' (length (fs_tasks s)) = task_view s cur \<and> task_view s' i = task_view s i \<and>
    task_view (fst (f_close s' i f)) (length (fs_tasks s)) = task_view s cur \<and>
    task_view (fst (f_close s' (length (fs_tasks s)) f)) i = task_view s i"
proof -
  have inv: "sys_inv s H" using fd_reachable_inv [OF assms(1)] by simp
  note c = clone_ok [OF inv assms(2,3)]
  have ne: "fs_tasks s' ! i \<noteq> fs_tasks s' ! length (fs_tasks s)" using c(6) assms(4,5) by blast
  have "live_tab s' (fs_tasks s' ! i)" "live_tab s' (fs_tasks s' ! length (fs_tasks s))"
    using tasks_live(1) [OF c(1)] c(2) assms(5) by simp_all
  note k = fdtable_close_ok [OF c(1) this(1), of f] fdtable_close_ok [OF c(1) this(2), of f]
  show ?thesis using c(3,4) assms(5) k(2,4,7,9) ne by (auto simp: f_close_eq task_view_def)
qed

theorem fork_isolates_witness:
  "\<exists>s'. clone_files ex_duped True True 0 0 = Inr s' \<and> task_view s' 1 1 = Some (0, True) \<and>
     task_view (fst (f_close s' 0 1)) 1 1 = Some (0, True)"
proof -
  obtain s' where s': "clone_files ex_duped True True 0 0 = Inr s'"
    by (simp add: clone_files_def fdtable_copy_def fdtable_new_def fdtable_resize_def heap_alloc_def Let_def)
  show ?thesis using fork_isolates [OF ex_reachable(3) _ s', of 0 1] s' ex_values(1) ex_views(2) by simp
qed

lemma fcntl_switch_dup:
  "fcntl_switch s cur env f a x F_DUPFD arg g = fcntl_dupfd s cur env a arg False"
  "fcntl_switch s cur env f a x F_DUPFD_CLOEXEC arg g = fcntl_dupfd s cur env a arg True"
  by (simp_all add: fcntl_switch_def)

text \<open>
  \<^verbatim>\<open>F_DUPFD\<close> and \<^verbatim>\<open>F_DUPFD_CLOEXEC\<close> give the lowest free number not below the argument, bound to the
  same open file and marked as asked, and an argument at or beyond the limit is \<^verbatim>\<open>EINVAL\<close>. The
  assertion that guards the search is never reached.
\<close>

theorem fcntl_dupfd_exact:
  assumes "fd_reachable (s, H)" and "cur < length (fs_tasks s)" and "limit_ok (fd_env.truncate env)" and "f_get s cur f = Some a"
    and "cmd = F_DUPFD \<or> cmd = F_DUPFD_CLOEXEC" and "sys_fcntl_common s cur env f cmd arg g = (s', out)"
  shows "(\<exists>e. out = FcRet (Inl e) None \<and> task_view s' i = task_view s i \<and>
       (e = EINVAL \<and> fe_rlimit env \<le> unat arg \<or> e = EMFILE \<or> e = ENOMEM)) \<or>
    (\<exists>n. out = FcRet (Inr (int n)) None \<and> lowest_free (task_view s cur) (unat arg) (fe_rlimit env) n \<and>
       task_view s' i = (if fs_tasks s ! i = fs_tasks s ! cur then (task_view s i)(n \<mapsto> (a, cmd = F_DUPFD_CLOEXEC)) else task_view s i))"
proof -
  have inv: "sys_inv s H" using fd_reachable_inv [OF assms(1)] by simp
  define s1 where "s1 = s\<lparr>fs_fds := fd_retain (fs_fds s) a\<rparr>"
  note g1 = get_retain_ok [OF inv tasks_live(1) [OF inv assms(2)] assms(4) [unfolded f_get_def], folded s1_def]
  obtain x where x: "heap_get (fs_fds s1) a = Some x" using countedD(3) [OF fs_invD(1) [OF g1(1)], of a] by auto
  obtain s2 out2 where d: "fcntl_dupfd s1 cur env a arg (cmd = F_DUPFD_CLOEXEC) = (s2, out2)" by fastforce
  have s1: "f_get_retain s cur f = (s1, Some a)" "fs_tasks s1 = fs_tasks s" "tab_view s1 = tab_view s" "live_tab s1 (fs_tasks s1 ! cur)"
    using assms(4) tasks_live(1) [OF inv assms(2)] by (simp_all add: f_get_retain_def s1_def)
  have sw: "fcntl_switch s1 cur env (nat f) a x cmd arg g = (s2, out2)" using assms(5) d by (auto simp: fcntl_switch_dup)
  have lim: "fe_rlimit env \<le> 2 ^ 31" using assms(3) by (simp add: limit_ok_def)
  have c: "fcntl_path_ok cmd" using assms(5) by (auto simp: fcntl_path_ok_def)
  have r: "sys_fcntl_common s cur env f cmd arg g = (case out2 of FcRet r w \<Rightarrow> (fst (fd_close s2 a), FcRet r w) | z \<Rightarrow> (s2, z))"
    unfolding sys_fcntl_common_def s1(1) prod.case option.case x sw using c by simp
  from g1(1) s1(4) x lim d show ?thesis
  proof (cases rule: fcntl_dupfdE)
    case (fail e)
    then have "s' = fst (fd_close s2 a)" "out = FcRet (Inl e) None" using assms(6) r by simp_all
    moreover have "task_view s' i = task_view s i" using fail(2,3) s1 calculation(1) by (simp add: task_view_def keeps_def)
    ultimately show ?thesis using fail(4) by blast
  next
    case (ok n)
    then have "s' = fst (fd_close s2 a)" "out = FcRet (Inr (int n)) None" using assms(6) r by simp_all
    moreover have "task_view s' i = (if fs_tasks s ! i = fs_tasks s ! cur then (task_view s i)(n \<mapsto> (a, cmd = F_DUPFD_CLOEXEC)) else task_view s i)"
      using ok(2,4) s1 calculation(1) by (simp add: task_view_def keeps_def)
    moreover have "lowest_free (task_view s cur) (unat arg) (fe_rlimit env) n" using ok(3) s1 by (simp add: task_view_def)
    ultimately show ?thesis by blast
  qed
qed

definition ex_fcenv :: fc_env where
  "ex_fcenv = \<lparr>fe_rlimit = 1024, fe_alloc = True, fc_tid = 5, fc_tgid = 5, fc_pid = 5, fc_comm = ''sh'', fc_pid_shown = (\<lambda>p. p),
     fc_pid_global = (\<lambda>p. p), fc_task_exists = (\<lambda>_. True), fc_group_exists = (\<lambda>_. True), fc_read = (\<lambda>_ _. None), fc_writable = (\<lambda>_ _. False)\<rparr>"

theorem fcntl_dupfd_exact_witness:
  "snd (sys_fcntl_common ex_open 0 ex_fcenv 0 F_DUPFD_CLOEXEC 0 True) = FcRet (Inr 1) None \<and>
   task_view (fst (sys_fcntl_common ex_open 0 ex_fcenv 0 F_DUPFD_CLOEXEC 0 True)) 0 1 = Some (0, True)"
proof -
  have o: "snd (sys_fcntl_common ex_open 0 ex_fcenv 0 F_DUPFD_CLOEXEC 0 True) = FcRet (Inr 1) None"
    by (simp add: sys_fcntl_common_def f_get_retain_def f_get_def ex_open_eq ex_eval ex_file_def ex_fcenv_def fcntl_switch_def
        fcntl_dupfd_def fd_env.truncate_def fcntl_path_ok_def)
  have r: "sys_fcntl_common ex_open 0 ex_fcenv 0 F_DUPFD_CLOEXEC 0 True =
      (fst (sys_fcntl_common ex_open 0 ex_fcenv 0 F_DUPFD_CLOEXEC 0 True), FcRet (Inr 1) None)" using o by (simp add: prod_eq_iff)
  have "limit_ok (fd_env.truncate ex_fcenv)" "f_get ex_open 0 0 = Some 0"
    by (simp_all add: limit_ok_def fd_env.truncate_def ex_fcenv_def f_get_def ex_open_eq ex_eval)
  then show ?thesis using fcntl_dupfd_exact [OF ex_reachable(2) _ _ _ _ r, of 0 0] o ex_values(2) by auto
qed

text \<open>
  Before a connection is taken off a queue, \<^verbatim>\<open>f_has_room\<close> predicts the install: as long as
  memory can be had, \<^verbatim>\<open>f_install\<close> gives a number exactly when it says that there is room.
\<close>

theorem f_has_room_predicts_install:
  assumes "fd_reachable (s, H)" and "a \<in> set H" and "cur < length (fs_tasks s)" and "limit_ok env" and "fe_alloc env"
  shows "(\<exists>f. snd (f_install s cur env a flags) = Inr f) \<longleftrightarrow> f_has_room (fe_rlimit env) (get_tab s (fs_tasks s ! cur))"
proof -
  have inv: "sys_inv s H" using fd_reachable_inv [OF assms(1)] by simp
  obtain s' r where i: "f_install s cur env a flags = (s', r)" by fastforce
  let ?T = "get_tab s (fs_tasks s ! cur)"
  have lim: "fe_rlimit env < 2 ^ 32" using assms(4) by (simp add: limit_ok_def)
  have room: "f_has_room (fe_rlimit env) ?T \<longleftrightarrow> (\<exists>n < fe_rlimit env. tab_view s (fs_tasks s ! cur) n = None)"
  proof (cases "length (ft_files ?T) < fe_rlimit env")
    case True
    then have "f_has_room (fe_rlimit env) ?T" using lim by (simp add: f_has_room_def Let_def)
    moreover have "tab_view s (fs_tasks s ! cur) (length (ft_files ?T)) = None" by (simp add: tab_view_def ft_view_def)
    ultimately show ?thesis using True by blast
  next
    case False
    have l: "fe_rlimit env mod 2 ^ 32 = fe_rlimit env" "min (fe_rlimit env) (length (ft_files ?T)) = fe_rlimit env"
      using lim False by simp_all
    have "f_has_room (fe_rlimit env) ?T \<longleftrightarrow> (\<exists>n \<in> set [0..<fe_rlimit env]. ft_files ?T ! n = None)"
      unfolding f_has_room_def Let_def l by simp
    also have "\<dots> \<longleftrightarrow> (\<exists>n < fe_rlimit env. tab_view s (fs_tasks s ! cur) n = None)"
      unfolding tab_view_def using False view_None [of _ ?T] by fastforce
    finally show ?thesis .
  qed
  from sys_inv_take [OF assms(2) inv] tasks_live(1) [OF inv assms(3)] lim i show ?thesis
  proof (cases rule: f_installE)
    case (fail e)
    then show ?thesis using assms(5) i room by simp
  next
    case (ok f)
    then show ?thesis using i room unfolding lowest_free_def by (simp add: exI [of _ f])
  qed
qed

theorem f_has_room_predicts_install_witness:
  "f_has_room 1024 (get_tab ex_made 0) \<and> (\<exists>f. snd (f_install ex_made 0 ex_env 0 0) = Inr f)"
proof -
  have "f_has_room 1024 (get_tab ex_made 0)" by (simp add: f_has_room_def ex_eval)
  then show ?thesis using f_has_room_predicts_install [OF ex_reachable(1), of 0 0 ex_env 0] ex_values(3,4) by (simp add: ex_env_def)
qed

definition ex_two :: fs_state where "ex_two = ex_open\<lparr>fs_fds := [Some ex_file, Some ex_file]\<rparr>"


end
