(* ===== verification/FileLock_Range.thy ===== *)
theory FileLock_Range
  imports FileLock
begin

text \<open>
  The refinement of the lock lists of \<^verbatim>\<open>fs/lock.c\<close> to what each owner holds at each byte. The
  list of an inode is well formed when it is grouped by owner, one owner's locks are disjoint
  and those of one type are not adjacent, and locks of different owners do not conflict.
  \<^verbatim>\<open>file_lock_acquire\<close> keeps that and changes exactly the bytes asked for.
\<close>

section \<open>Ranges as sets of bytes\<close>

definition lk_in :: "int \<Rightarrow> file_lock \<Rightarrow> bool" where
  "lk_in x l \<longleftrightarrow> fl_start l \<le> x \<and> x \<le> fl_end l"

definition apart :: "file_lock \<Rightarrow> file_lock \<Rightarrow> bool" where
  "apart a b \<longleftrightarrow> \<not> file_locks_overlap a b \<and> (fl_type a = fl_type b \<longrightarrow> \<not> file_locks_adjacent a b)"

lemma overlap_iff:
  "fl_start a \<le> fl_end a \<Longrightarrow> fl_start b \<le> fl_end b \<Longrightarrow> file_locks_overlap a b \<longleftrightarrow> (\<exists>x. lk_in x a \<and> lk_in x b)"
  by (auto simp: file_locks_overlap_def lk_in_def intro!: exI [of _ "max (fl_start a) (fl_start b)"])

lemma apart_iff:
  assumes "fl_start a \<le> fl_end a" and "fl_start b \<le> fl_end b"
  shows "apart a b \<longleftrightarrow> (\<forall>x y. lk_in x a \<longrightarrow> lk_in y b \<longrightarrow>
    x \<noteq> y \<and> (fl_type a = fl_type b \<longrightarrow> x \<noteq> y + 1 \<and> y \<noteq> x + 1))"
proof
  assume "apart a b"
  then show "\<forall>x y. lk_in x a \<longrightarrow> lk_in y b \<longrightarrow> x \<noteq> y \<and> (fl_type a = fl_type b \<longrightarrow> x \<noteq> y + 1 \<and> y \<noteq> x + 1)"
    using assms by (auto simp: apart_def file_locks_overlap_def file_locks_adjacent_def lk_in_def)
next
  assume pts: "\<forall>x y. lk_in x a \<longrightarrow> lk_in y b \<longrightarrow> x \<noteq> y \<and> (fl_type a = fl_type b \<longrightarrow> x \<noteq> y + 1 \<and> y \<noteq> x + 1)"
  then have "\<not> file_locks_overlap a b" using overlap_iff [OF assms] by blast
  moreover have "fl_type a = fl_type b \<Longrightarrow> \<not> file_locks_adjacent a b"
    using spec [OF spec [OF pts, of "fl_end a"], of "fl_start b"] spec [OF spec [OF pts, of "fl_start a"], of "fl_end b"] assms
    by (auto simp: file_locks_adjacent_def lk_in_def)
  ultimately show "apart a b" by (simp add: apart_def)
qed

lemma apart_sym: "apart a b \<Longrightarrow> apart b a"
  by (auto simp: apart_def file_locks_overlap_def file_locks_adjacent_def)

lemma lock_merge_fields [simp]:
  "fl_type (lock_merge r l) = fl_type r" "fl_owner (lock_merge r l) = fl_owner r"
  "fl_pid (lock_merge r l) = fl_pid r" "fl_comm (lock_merge r l) = fl_comm r"
  by (simp_all add: lock_merge_def Let_def)

lemma lock_merge_range:
  "fl_start (lock_merge r l) = min (fl_start r) (fl_start l)" "fl_end (lock_merge r l) = max (fl_end r) (fl_end l)"
  by (auto simp: lock_merge_def Let_def)

lemma lock_merge_in:
  assumes "fl_start r \<le> fl_end r" and "fl_start l \<le> fl_end l"
    and "file_locks_overlap l r \<or> file_locks_adjacent r l"
  shows "lk_in x (lock_merge r l) \<longleftrightarrow> lk_in x r \<or> lk_in x l"
  using assms by (auto simp: lk_in_def lock_merge_range file_locks_overlap_def file_locks_adjacent_def min_def max_def)

lemma lock_subtract_mem:
  assumes "p \<in> set (lock_subtract r l)" and "fl_start r \<le> fl_end r" and "fl_start l \<le> fl_end l"
    and "file_locks_overlap l r"
  shows "fl_start p \<le> fl_end p" "fl_type p = fl_type l" "fl_owner p = fl_owner l"
    "fl_start l \<le> fl_start p" "fl_end p \<le> fl_end l"
  using assms by (auto simp: lock_subtract_def file_locks_overlap_def split: if_splits)

lemma lock_subtract_in:
  assumes "fl_start r \<le> fl_end r" and "file_locks_overlap l r"
  shows "(\<exists>p \<in> set (lock_subtract r l). lk_in x p) \<longleftrightarrow> lk_in x l \<and> \<not> lk_in x r"
  using assms by (auto simp: lock_subtract_def lk_in_def file_locks_overlap_def)

lemma lock_subtract_apart:
  "fl_start r \<le> fl_end r \<Longrightarrow> fl_start l \<le> fl_end l \<Longrightarrow> sorted_wrt apart (lock_subtract r l)"
  by (auto simp: lock_subtract_def apart_def file_locks_overlap_def file_locks_adjacent_def)

section \<open>The requester's own locks\<close>

text \<open>The loop on the locks of the requester alone.\<close>

fun acquire_own :: "file_lock \<Rightarrow> file_lock list \<Rightarrow> file_lock \<times> file_lock list \<times> bool" where
  "acquire_own r [] = (r, [], False)"
| "acquire_own r (l # ls) =
     (if fl_type r = fl_type l then
        (if \<not> file_locks_overlap l r \<and> \<not> file_locks_adjacent r l
         then let (r', pre, n) = acquire_own r ls in (r', l # pre, n)
         else acquire_own (lock_merge r l) ls)
      else if \<not> file_locks_overlap l r then let (r', pre, n) = acquire_own r ls in (r', l # pre, n)
      else let (r', pre, n) = acquire_own r ls in (r', lock_subtract r l @ pre, True))"

lemma acquire_loop_own:
  assumes "\<forall>l \<in> set own. fl_owner l = fl_owner r" and "\<forall>l \<in> set B. fl_owner l \<noteq> fl_owner r"
  shows "acquire_loop True r (own @ B) = (let (r', pre, n) = acquire_own r own in (r', pre, B, n))"
  using assms
proof (induction own arbitrary: r)
  case Nil
  then show ?case by (cases B) auto
next
  case (Cons l own)
  then show ?case
    using Cons.IH [of r] Cons.IH [of "lock_merge r l"] by (auto simp: Let_def split: prod.splits)
qed

lemma acquire_loop_split:
  assumes "\<forall>l \<in> set A. fl_owner l \<noteq> fl_owner r" and "\<forall>l \<in> set own. fl_owner l = fl_owner r"
    and "\<forall>l \<in> set B. fl_owner l \<noteq> fl_owner r" and "own = [] \<Longrightarrow> B = []"
  shows "acquire_loop False r (A @ own @ B) = (let (r', pre, n) = acquire_own r own in (r', A @ pre, B, n))"
proof -
  have "acquire_loop False r (own @ B) = acquire_loop True r (own @ B)"
    using assms(2,4) by (cases own) auto
  then have "acquire_loop False r (own @ B) = (let (r', pre, n) = acquire_own r own in (r', pre, B, n))"
    using acquire_loop_own [OF assms(2,3)] by simp
  then show ?thesis using assms(1) by (induction A) (auto simp: Let_def split: prod.splits)
qed

definition lk_valid :: "file_lock \<Rightarrow> bool" where
  "lk_valid l \<longleftrightarrow> 0 \<le> fl_start l \<and> fl_start l \<le> fl_end l \<and> fl_end l \<le> OFF_T_MAX"

text \<open>What the loop does with a lock: merge it into the request, keep it, or cut the request out of it.\<close>

lemma acquire_own_cases:
  assumes "acquire_own r (l # ls) = (r', pre, n)"
  obtains (merge) "acquire_own (lock_merge r l) ls = (r', pre, n)" "fl_type l = fl_type r"
      "file_locks_overlap l r \<or> file_locks_adjacent r l"
    | (keep) pre' where "acquire_own r ls = (r', pre', n)" "pre = l # pre'" "apart l r"
    | (cut) pre' m where "acquire_own r ls = (r', pre', m)" "pre = lock_subtract r l @ pre'" "n"
        "file_locks_overlap l r" "fl_type r \<noteq> fl_type l"
  using assms by (auto simp: Let_def apart_def file_locks_adjacent_def split: if_splits prod.splits)

lemma lock_merge_valid: "lk_valid r \<Longrightarrow> lk_valid l \<Longrightarrow> lk_valid (lock_merge r l)"
  by (auto simp: lk_valid_def lock_merge_range)

text \<open>What the loop makes of the request: it grows by the locks it merges with.\<close>

lemma acquire_own_request:
  assumes "acquire_own r ls = (r', pre, n)" and "lk_valid r" and "\<forall>l \<in> set ls. lk_valid l"
  shows "lk_valid r' \<and> fl_type r' = fl_type r \<and> fl_owner r' = fl_owner r \<and>
    (\<forall>x. lk_in x r \<longrightarrow> lk_in x r') \<and>
    (\<forall>x. lk_in x r' \<longrightarrow> lk_in x r \<or> (\<exists>l \<in> set ls. fl_type l = fl_type r \<and> lk_in x l))"
  using assms
proof (induction ls arbitrary: r r' pre n)
  case (Cons l ls)
  note prems = Cons.prems
  from prems(1) show ?case
  proof (cases rule: acquire_own_cases)
    case merge
    have "lk_in x (lock_merge r l) \<longleftrightarrow> lk_in x r \<or> lk_in x l" for x
      by (rule lock_merge_in) (use prems merge(3) in \<open>auto simp: lk_valid_def\<close>)
    then show ?thesis
      using Cons.IH [OF merge(1) lock_merge_valid] prems merge(2) by (auto; blast)
  next
    case (keep pre')
    then show ?thesis using Cons.IH [OF keep(1)] prems by fastforce
  next
    case (cut pre' m)
    then show ?thesis using Cons.IH [OF cut(1)] prems by fastforce
  qed
qed auto

text \<open>The locks that are left: parts of the old ones, outside the request unless of its type.\<close>

definition part_of :: "file_lock \<Rightarrow> file_lock \<Rightarrow> bool" where
  "part_of p l \<longleftrightarrow> lk_valid p \<and> fl_type p = fl_type l \<and> fl_owner p = fl_owner l \<and> (\<forall>x. lk_in x p \<longrightarrow> lk_in x l)"

lemma part_of_refl: "lk_valid l \<Longrightarrow> part_of l l"
  by (simp add: part_of_def)

lemma subtract_part_of:
  "p \<in> set (lock_subtract r l) \<Longrightarrow> lk_valid r \<Longrightarrow> lk_valid l \<Longrightarrow> file_locks_overlap l r \<Longrightarrow> part_of p l"
  using lock_subtract_mem [of p r l] by (auto simp: part_of_def lk_valid_def lk_in_def)

lemma apart_part: "apart l m \<Longrightarrow> part_of p l \<Longrightarrow> part_of q m \<Longrightarrow> lk_valid l \<Longrightarrow> lk_valid m \<Longrightarrow> apart p q"
  by (auto simp: apart_iff part_of_def lk_valid_def)

lemma acquire_own_parts:
  assumes "acquire_own r ls = (r', pre, n)" and "lk_valid r" and "\<forall>l \<in> set ls. lk_valid l" and "p \<in> set pre"
  shows "\<exists>l \<in> set ls. part_of p l"
  using assms
proof (induction ls arbitrary: r r' pre n)
  case (Cons l ls)
  from Cons.prems(1) show ?case
  proof (cases rule: acquire_own_cases)
    case merge
    then show ?thesis using Cons.IH [OF merge(1) lock_merge_valid] Cons.prems by auto
  next
    case (keep pre')
    then show ?thesis using Cons.IH [OF keep(1)] Cons.prems part_of_refl [of l] by auto
  next
    case (cut pre' m)
    then show ?thesis using Cons.IH [OF cut(1)] Cons.prems subtract_part_of [of p r l] by auto
  qed
qed simp

text \<open>Something apart from the request and from all the locks is apart from what comes out.\<close>

lemma acquire_own_apart_from:
  assumes "acquire_own r ls = (r', pre, n)" and "lk_valid r" and "\<forall>l \<in> set ls. lk_valid l"
    and "lk_valid p" and "apart p r" and "\<forall>l \<in> set ls. apart p l"
  shows "apart p r'" and "\<forall>q \<in> set pre. apart p q"
proof -
  note r' = acquire_own_request [OF assms(1-3)]
  have pts: "lk_in x p \<Longrightarrow> lk_in y l \<Longrightarrow> l \<in> set ls \<union> {r} \<Longrightarrow>
      x \<noteq> y \<and> (fl_type p = fl_type l \<longrightarrow> x \<noteq> y + 1 \<and> y \<noteq> x + 1)" for x y l
    using assms(2-6) apart_iff [of p l] by (auto simp: lk_valid_def)
  show "apart p r'"
    using r' assms(4) pts apart_iff [of p r'] unfolding lk_valid_def by (metis Un_iff singletonI)
  show "\<forall>q \<in> set pre. apart p q"
    using acquire_own_parts [OF assms(1-3)] assms(3,4,6) apart_part [of p _ p] part_of_refl [of p] by blast
qed

lemma acquire_own_apart:
  assumes "acquire_own r ls = (r', pre, n)" and "lk_valid r" and "\<forall>l \<in> set ls. lk_valid l" and "sorted_wrt apart ls"
  shows "sorted_wrt apart pre \<and> (\<forall>p \<in> set pre. apart p r')"
  using assms
proof (induction ls arbitrary: r r' pre n)
  case (Cons l ls)
  have valid: "lk_valid (lock_merge r l)" "lk_valid l" "\<forall>l \<in> set ls. lk_valid l" "sorted_wrt apart ls" "\<forall>m \<in> set ls. apart l m"
    using Cons.prems by (auto simp: lk_valid_def lock_merge_range)
  from Cons.prems(1) show ?case
  proof (cases rule: acquire_own_cases)
    case merge
    show ?thesis by (rule Cons.IH [OF merge(1) valid(1,3,4)])
  next
    case (keep pre')
    then show ?thesis
      using Cons.IH [OF keep(1) Cons.prems(2) valid(3,4)]
        acquire_own_apart_from [OF keep(1) Cons.prems(2) valid(3,2) keep(3) valid(5)] by simp
  next
    case (cut pre' m)
    have p: "part_of p l" "apart p r" "\<forall>m \<in> set ls. apart p m" if "p \<in> set (lock_subtract r l)" for p
    proof -
      show "part_of p l" by (rule subtract_part_of [OF that Cons.prems(2) valid(2) cut(4)])
      then show "apart p r"
        using lock_subtract_in [of r l] that Cons.prems(2) cut(4,5) apart_iff [of p r]
        by (auto simp: lk_valid_def part_of_def)
      show "\<forall>m \<in> set ls. apart p m"
        using valid(2,3,5) apart_part [OF _ \<open>part_of p l\<close>] part_of_refl by blast
    qed
    have "apart p r' \<and> (\<forall>q \<in> set pre'. apart p q)" if "p \<in> set (lock_subtract r l)" for p
      using acquire_own_apart_from [OF cut(1) Cons.prems(2) valid(3) _ p(2,3) [OF that]] p(1) [OF that]
      by (simp add: part_of_def)
    then show ?thesis
      using Cons.IH [OF cut(1) Cons.prems(2) valid(3,4)] lock_subtract_apart [of r l] Cons.prems(2) valid(2) cut(2)
      by (auto simp: sorted_wrt_append lk_valid_def)
  qed
qed simp

lemma acquire_own_held:
  assumes "acquire_own r ls = (r', pre, n)" and "lk_valid r" and "\<forall>l \<in> set ls. lk_valid l" and "sorted_wrt apart ls"
  shows "(\<exists>p \<in> set pre. fl_type p = t \<and> lk_in x p) \<or> t = fl_type r \<and> lk_in x r' \<longleftrightarrow>
    t = fl_type r \<and> lk_in x r \<or> (\<exists>l \<in> set ls. fl_type l = t \<and> lk_in x l \<and> (t = fl_type r \<or> \<not> lk_in x r))"
  using assms
proof (induction ls arbitrary: r r' pre n)
  case (Cons l ls)
  note prems = Cons.prems
  have valid: "lk_valid l" "\<forall>l \<in> set ls. lk_valid l" "sorted_wrt apart ls" using prems by auto
  have disj: "m \<in> set ls \<Longrightarrow> lk_in x m \<Longrightarrow> \<not> lk_in x l" for m
    using prems(3,4) apart_iff [of l m] by (auto simp: lk_valid_def)
  from prems(1) show ?case
  proof (cases rule: acquire_own_cases)
    case merge
    have "lk_in x (lock_merge r l) \<longleftrightarrow> lk_in x r \<or> lk_in x l"
      by (rule lock_merge_in) (use prems merge(3) in \<open>auto simp: lk_valid_def\<close>)
    note IH = Cons.IH [OF merge(1) lock_merge_valid [OF prems(2) valid(1)] valid(2,3), unfolded this lock_merge_fields]
    show ?thesis unfolding IH list.set bex_simps using merge(2) disj by blast
  next
    case (keep pre')
    have "lk_in x l \<Longrightarrow> \<not> lk_in x r" using keep(3) prems(2) valid(1) apart_iff [of l r] by (auto simp: lk_valid_def)
    then show ?thesis using Cons.IH [OF keep(1) prems(2) valid(2,3)] unfolding keep(2) list.set bex_simps by blast
  next
    case (cut pre' m)
    have "(\<exists>p \<in> set (lock_subtract r l). fl_type p = t \<and> lk_in x p) \<longleftrightarrow> fl_type l = t \<and> lk_in x l \<and> \<not> lk_in x r"
      using lock_subtract_in [of r l x] lock_subtract_mem(2) [of _ r l] prems(2) valid(1) cut(4)
      by (auto simp: lk_valid_def)
    then show ?thesis
      using Cons.IH [OF cut(1) prems(2) valid(2,3)] cut(5) unfolding cut(2) set_append list.set bex_Un bex_simps by blast
  qed
qed auto

text \<open>If nobody was notified, nothing was taken away from anybody's view.\<close>

lemma acquire_own_quiet:
  assumes "acquire_own r ls = (r', pre, n)" and "lk_valid r" and "\<forall>l \<in> set ls. lk_valid l" and "\<not> n" and "l \<in> set ls"
  shows "l \<in> set pre \<or> fl_type l = fl_type r \<and> (\<forall>x. lk_in x l \<longrightarrow> lk_in x r')"
  using assms
proof (induction ls arbitrary: r r' pre n)
  case (Cons m ls)
  note prems = Cons.prems
  from prems(1) show ?case
  proof (cases rule: acquire_own_cases)
    case merge
    have valid: "lk_valid (lock_merge r m)" using prems by (auto intro: lock_merge_valid)
    have "lk_in x (lock_merge r m) \<longleftrightarrow> lk_in x r \<or> lk_in x m" for x
      by (rule lock_merge_in) (use prems merge(3) in \<open>auto simp: lk_valid_def\<close>)
    then show ?thesis
      using Cons.IH [OF merge(1) valid] acquire_own_request [OF merge(1) valid] merge(2) prems(3-5) by auto
  next
    case (keep pre')
    then show ?thesis using Cons.IH [OF keep(1)] prems by auto
  next
    case (cut pre' m)
    then show ?thesis using prems(4) by simp
  qed
qed simp

section \<open>The inode's list\<close>

fun grouped :: "'a list \<Rightarrow> bool" where
  "grouped [] = True"
| "grouped (x # xs) = (grouped xs \<and> (x \<in> set xs \<longrightarrow> hd xs = x))"

lemma grouped_split:
  "grouped (map f xs) \<Longrightarrow> \<exists>A own B. xs = A @ own @ B \<and> (\<forall>a \<in> set A. f a \<noteq> p) \<and> (\<forall>a \<in> set own. f a = p) \<and>
     (\<forall>b \<in> set B. f b \<noteq> p) \<and> (own = [] \<longrightarrow> B = [])"
proof (induction xs)
  case Nil
  show ?case by (intro exI [of _ "[]"]) simp
next
  case (Cons x xs)
  have "grouped (map f xs)" using Cons.prems by simp
  from Cons.IH [OF this] obtain A own B where IH: "xs = A @ own @ B" "\<forall>a \<in> set A. f a \<noteq> p" "\<forall>a \<in> set own. f a = p"
    "\<forall>b \<in> set B. f b \<noteq> p" "own = [] \<longrightarrow> B = []"
    by blast
  show ?case
  proof (cases "f x = p")
    case True
    show ?thesis
    proof (cases "own = []")
      case True
      then have "\<forall>b \<in> set xs. f b \<noteq> p" using IH by simp
      then show ?thesis using \<open>f x = p\<close> by (intro exI [of _ "[]"] exI [of _ "[x]"] exI [of _ xs]) simp
    next
      case False
      then have "f x \<in> f ` set xs" using IH(1,3) True by (cases own) auto
      then have "f (hd xs) = p" using Cons.prems True by (cases xs) auto
      then have "A = []" using IH(1,2) by (cases A) auto
      then show ?thesis using IH True False by (intro exI [of _ "[]"] exI [of _ "x # own"] exI [of _ B]) simp
    qed
  next
    case False
    then show ?thesis using IH by (intro exI [of _ "x # A"] exI [of _ own] exI [of _ B]) simp
  qed
qed

lemma grouped_drop: "grouped (xs @ ys) \<Longrightarrow> grouped ys"
  by (induction xs) auto

lemma grouped_replace:
  assumes "grouped (A @ own @ B)" and "p \<notin> set A" and "set own \<subseteq> {p}" and "set mid \<subseteq> {p}"
    and "p \<notin> set B" and "own = [] \<longrightarrow> B = []"
  shows "grouped (A @ mid @ B)"
  using assms(1,2)
proof (induction A)
  case Nil
  then have B: "grouped B" using grouped_drop [of own B] by simp
  have "grouped (mid @ B)" using assms(4)
  proof (induction mid)
    case (Cons m mid)
    then show ?case using assms(5) by (cases mid) auto
  qed (simp add: B)
  then show ?case by simp
next
  case (Cons a A)
  have "hd (A @ mid @ B) = a" if "a \<in> set (A @ mid @ B)"
  proof -
    have a: "a \<in> set A \<union> set B" using that Cons.prems(2) assms(4) by auto
    then have hd: "hd (A @ own @ B) = a" using Cons.prems(1) by auto
    show ?thesis
    proof (cases "A = []")
      case True
      then have "own \<noteq> []" using a assms(6) by auto
      then have "a \<in> set own" using hd True by (cases own) auto
      then show ?thesis using assms(3) Cons.prems(2) by auto
    qed (use hd in simp)
  qed
  then show ?case using Cons by simp
qed

definition lk_pair :: "file_lock \<Rightarrow> file_lock \<Rightarrow> bool" where
  "lk_pair a b \<longleftrightarrow> (if fl_owner a = fl_owner b then apart a b else \<not> file_locks_conflict a b)"

definition locks_ok :: "file_lock list \<Rightarrow> bool" where
  "locks_ok locks \<longleftrightarrow> (\<forall>l \<in> set locks. lk_valid l \<and> fl_type l \<noteq> F_UNLCK) \<and> sorted_wrt lk_pair locks \<and>
     grouped (map fl_owner locks)"

text \<open>The abstract view of a list: which owner holds which type of lock at which byte.\<close>

definition held :: "file_lock list \<Rightarrow> lock_owner \<Rightarrow> u16 \<Rightarrow> int \<Rightarrow> bool" where
  "held locks own t x \<longleftrightarrow> (\<exists>l \<in> set locks. fl_owner l = own \<and> fl_type l = t \<and> lk_in x l)"

lemma conflict_iff:
  "lk_valid a \<Longrightarrow> lk_valid b \<Longrightarrow> file_locks_conflict a b \<longleftrightarrow>
     fl_owner a \<noteq> fl_owner b \<and> (\<exists>x. lk_in x a \<and> lk_in x b) \<and> (fl_type a = F_WRLCK \<or> fl_type b = F_WRLCK)"
  by (simp add: file_locks_conflict_def overlap_iff lk_valid_def)

lemma conflict_sym: "file_locks_conflict a b \<longleftrightarrow> file_locks_conflict b a"
  by (auto simp: file_locks_conflict_def file_locks_overlap_def)

lemma lk_pair_sym: "lk_pair a b \<Longrightarrow> lk_pair b a"
  unfolding lk_pair_def using apart_sym [of a b] conflict_sym [of a b] by (auto split: if_splits)

lemma lk_pair_same: "fl_owner a = fl_owner b \<Longrightarrow> lk_pair a b = apart a b"
  by (simp add: lk_pair_def)

lemma lk_pair_part:
  assumes "lk_pair l m" and "fl_owner l \<noteq> fl_owner m" and "part_of p l" and "lk_valid l" and "lk_valid m"
  shows "lk_pair p m"
  using assms by (auto simp: lk_pair_def part_of_def conflict_iff)

text \<open>The request after the merging conflicts with nobody: it covers bytes asked for and own bytes.\<close>

lemma lk_pair_request:
  assumes "acquire_own r ls = (r', pre, n)" and "lk_valid r" and "\<forall>l \<in> set ls. lk_valid l \<and> fl_owner l = fl_owner r"
    and "lk_valid m" and "fl_owner m \<noteq> fl_owner r" and "\<not> file_locks_conflict m r" and "\<forall>l \<in> set ls. lk_pair l m"
  shows "lk_pair r' m"
proof -
  note r' = acquire_own_request [OF assms(1,2)]
  have "\<not> file_locks_conflict r' m"
  proof
    assume "file_locks_conflict r' m"
    then obtain x where x: "lk_in x r'" "lk_in x m" "fl_type r = F_WRLCK \<or> fl_type m = F_WRLCK"
      using r' assms(3,4) by (auto simp: conflict_iff)
    then consider "lk_in x r" | l where "l \<in> set ls" "fl_type l = fl_type r" "lk_in x l" using r' assms(3) by blast
    then show False
    proof cases
      case 1
      then show False using x assms by (auto simp: conflict_iff)
    next
      case (2 l)
      then show False using x assms(3-5,7) by (auto simp: lk_pair_def conflict_iff)
    qed
  qed
  then show ?thesis using r' assms(3,5) by (auto simp: lk_pair_def)
qed

lemma acquire_shape:
  assumes "locks_ok locks" and "file_lock_acquire locks r = Inr (locks', n)"
  obtains A own B r' pre where "locks = A @ own @ B" "\<forall>l \<in> set A. fl_owner l \<noteq> fl_owner r"
    "\<forall>l \<in> set own. fl_owner l = fl_owner r" "\<forall>l \<in> set B. fl_owner l \<noteq> fl_owner r" "own = [] \<longrightarrow> B = []"
    "acquire_own r own = (r', pre, n)" "locks' = A @ (pre @ (if fl_type r \<noteq> F_UNLCK then [r'] else [])) @ B"
    "fl_type r \<noteq> F_UNLCK \<Longrightarrow> \<forall>l \<in> set locks. \<not> file_locks_conflict l r"
proof -
  obtain A own B where sp: "locks = A @ own @ B" "\<forall>l \<in> set A. fl_owner l \<noteq> fl_owner r"
    "\<forall>l \<in> set own. fl_owner l = fl_owner r" "\<forall>l \<in> set B. fl_owner l \<noteq> fl_owner r" "own = [] \<longrightarrow> B = []"
    using grouped_split [of fl_owner locks "fl_owner r"] assms(1) unfolding locks_ok_def by blast
  obtain r' pre m where own: "acquire_own r own = (r', pre, m)" by (cases "acquire_own r own") auto
  have "acquire_loop False r locks = (r', A @ pre, B, m)"
    unfolding sp(1) using acquire_loop_split [OF sp(2-4)] sp(5) own by simp
  then have "m = n" "locks' = A @ (pre @ (if fl_type r \<noteq> F_UNLCK then [r'] else [])) @ B"
      "fl_type r \<noteq> F_UNLCK \<Longrightarrow> \<forall>l \<in> set locks. \<not> file_locks_conflict l r"
    using assms(2) by (auto simp: file_lock_acquire_def split: if_splits)
  with that [OF sp] own show thesis by blast
qed

lemma acquire_locks_ok:
  assumes ok: "locks_ok locks" and "lk_valid r" and acq: "file_lock_acquire locks r = Inr (locks', n)"
  shows "locks_ok locks'"
  using ok acq
proof (cases rule: acquire_shape)
  case (1 A own B r' pre)
  note 2 = 1(1) and 3 = 1(3)
  define mid where "mid = pre @ (if fl_type r \<noteq> F_UNLCK then [r'] else [])"
  have valid: "\<forall>l \<in> set locks. lk_valid l \<and> fl_type l \<noteq> F_UNLCK" and pair: "sorted_wrt lk_pair locks"
    and grp: "grouped (map fl_owner locks)"
    using ok by (auto simp: locks_ok_def)
  have vown: "\<forall>l \<in> set own. lk_valid l" using valid 1(1) by simp
  note req = acquire_own_request [OF 1(6) assms(2) vown]
  note parts = acquire_own_parts [OF 1(6) assms(2) vown]
  have other: "lk_pair m l" if "m \<in> set A \<union> set B" "l \<in> set own" for m l
    using pair that lk_pair_sym unfolding 1(1) by (auto simp: sorted_wrt_append)
  have midA: "lk_pair m x" if "m \<in> set A \<union> set B" "x \<in> set mid" for m x
  proof -
    have m: "lk_valid m" "fl_owner m \<noteq> fl_owner r" using that(1) valid 1(1,2,4) by auto
    show ?thesis
    proof (cases "x \<in> set pre")
      case True
      then obtain l where l: "l \<in> set own" "part_of x l" using parts by blast
      then have "lk_pair x m"
        using lk_pair_part [OF lk_pair_sym [OF other [OF that(1) l(1)]] _ l(2)] vown m 1(3) by auto
      then show ?thesis by (rule lk_pair_sym)
    next
      case False
      then have x: "x = r'" "fl_type r \<noteq> F_UNLCK" using that(2) by (auto simp: mid_def split: if_splits)
      have "lk_pair r' m"
        by (rule lk_pair_request [OF 1(6) assms(2) _ m])
          (use vown 1(1,3,8) x(2) that(1) other lk_pair_sym in auto)
      then show ?thesis unfolding x(1) by (rule lk_pair_sym)
    qed
  qed
  have vmid: "\<forall>x \<in> set mid. lk_valid x \<and> fl_type x \<noteq> F_UNLCK \<and> fl_owner x = fl_owner r"
  proof
    fix x
    assume "x \<in> set mid"
    then consider "x \<in> set pre" | "x = r'" "fl_type r \<noteq> F_UNLCK" unfolding mid_def by (auto split: if_splits)
    then show "lk_valid x \<and> fl_type x \<noteq> F_UNLCK \<and> fl_owner x = fl_owner r"
    proof cases
      case 1
      then obtain l where "l \<in> set own" "part_of x l" using parts by blast
      then show ?thesis using valid 2 3 by (simp add: part_of_def)
    qed (use req in simp)
  qed
  have "sorted_wrt apart own"
    using pair 1(3) sorted_wrt_mono_rel [of own lk_pair apart] by (auto simp: 1(1) sorted_wrt_append lk_pair_same)
  then have "sorted_wrt apart mid"
    using acquire_own_apart [OF 1(6) assms(2) vown] by (auto simp: mid_def sorted_wrt_append)
  then have smid: "sorted_wrt lk_pair mid"
    using sorted_wrt_mono_rel [of mid apart lk_pair] vmid by (auto simp: lk_pair_same)
  have "sorted_wrt lk_pair (A @ mid @ B)"
    using pair smid midA lk_pair_sym unfolding 1(1) by (auto simp: sorted_wrt_append)
  moreover have "grouped (map fl_owner A @ map fl_owner mid @ map fl_owner B)"
    by (rule grouped_replace [where own = "map fl_owner own" and p = "fl_owner r"])
      (use grp 1(1-5) vmid in auto)
  moreover have "\<forall>l \<in> set (A @ mid @ B). lk_valid l \<and> fl_type l \<noteq> F_UNLCK" using valid vmid 1(1) by auto
  ultimately show ?thesis unfolding 1(7) mid_def [symmetric] locks_ok_def by simp
qed

lemma acquire_held:
  assumes ok: "locks_ok locks" and "lk_valid r" and acq: "file_lock_acquire locks r = Inr (locks', n)"
  shows "held locks' p t x \<longleftrightarrow>
    (if p = fl_owner r \<and> lk_in x r then t = fl_type r \<and> t \<noteq> F_UNLCK else held locks p t x)"
  using ok acq
proof (cases rule: acquire_shape)
  case (1 A own B r' pre)
  have vown: "\<forall>l \<in> set own. lk_valid l \<and> fl_type l \<noteq> F_UNLCK" and "sorted_wrt lk_pair own"
    using ok 1(1) by (auto simp: locks_ok_def sorted_wrt_append)
  then have "sorted_wrt apart own" using 1(3) sorted_wrt_mono_rel [of own lk_pair apart] by (auto simp: lk_pair_same)
  then have own: "(\<exists>q \<in> set pre. fl_type q = t \<and> lk_in x q) \<or> t = fl_type r \<and> lk_in x r' \<longleftrightarrow>
    t = fl_type r \<and> lk_in x r \<or> (\<exists>l \<in> set own. fl_type l = t \<and> lk_in x l \<and> (t = fl_type r \<or> \<not> lk_in x r))"
    using acquire_own_held [OF 1(6) assms(2)] vown by simp
  have parts: "\<forall>q \<in> set pre. fl_owner q = fl_owner r \<and> fl_type q \<noteq> F_UNLCK"
    using acquire_own_parts [OF 1(6) assms(2)] vown 1(3) unfolding part_of_def by metis
  have r': "fl_owner r' = fl_owner r" "fl_type r' = fl_type r" using acquire_own_request [OF 1(6) assms(2)] vown by auto
  have "held locks' p t x \<longleftrightarrow> (\<exists>l \<in> set A \<union> set B. fl_owner l = p \<and> fl_type l = t \<and> lk_in x l) \<or>
      p = fl_owner r \<and> t \<noteq> F_UNLCK \<and> ((\<exists>q \<in> set pre. fl_type q = t \<and> lk_in x q) \<or> t = fl_type r \<and> lk_in x r')"
    unfolding held_def 1(7) set_append using parts r' by (cases "fl_type r = F_UNLCK") (simp_all, blast+)
  moreover have "held locks p t x \<longleftrightarrow> (\<exists>l \<in> set A \<union> set B. fl_owner l = p \<and> fl_type l = t \<and> lk_in x l) \<or>
      p = fl_owner r \<and> t \<noteq> F_UNLCK \<and> (\<exists>l \<in> set own. fl_type l = t \<and> lk_in x l)"
    unfolding held_def 1(1) set_append using vown 1(3) by blast
  moreover have "\<not> (\<exists>l \<in> set A \<union> set B. fl_owner l = fl_owner r)" using 1(2,4) by blast
  ultimately show ?thesis using own by (cases "p = fl_owner r"; cases "lk_in x r"; cases "t = fl_type r") simp_all
qed

end
