(* ===== verification/FileLock_Props.thy ===== *)
theory FileLock_Props
  imports FileLock_Range
begin

text \<open>
  What the file locks promise over any interleaving of calls, wake-ups and closes: mutual
  exclusion, no lost wake-up, the exact range of a request, and the deadlock check.
\<close>

section \<open>The range of a request\<close>

lemma flock_range_wraps:
  assumes "0 \<le> offset" "offset \<le> OFF_T_MAX" "in_s64 fstart" "in_s64 len"
  shows "s64 (OFF_T_MAX - offset) = OFF_T_MAX - offset"
    and "fstart \<le> OFF_T_MAX - offset \<Longrightarrow> s64 (offset + fstart) = offset + fstart"
    and "0 < len \<Longrightarrow> s64 (len - 1) = len - 1"
  using assms by (auto intro!: s64_id simp: in_s64_def)

lemma s64_end:
  assumes "0 \<le> start" "0 < len" "start + len - 1 \<le> OFF_T_MAX"
  shows "s64 (s64 (start + len) - 1) = start + len - 1"
proof (cases "start + len \<le> OFF_T_MAX")
  case True
  then show ?thesis using assms by (simp add: s64_id in_s64_def)
next
  case False
  then have "start + len = 2 ^ 63" using assms by simp
  then show ?thesis by (simp add: s64_def)
qed

lemma flock_range_eq:
  assumes "0 \<le> offset" "offset \<le> OFF_T_MAX" "in_s64 fstart" "in_s64 len"
  shows "flock_range offset fstart len =
    (let start = offset + fstart; ende = (if len > 0 then start + len - 1 else if len < 0 then start - 1 else OFF_T_MAX) in
     if start > OFF_T_MAX then Inl EOVERFLOW
     else if start < 0 then Inl EINVAL
     else if ende > OFF_T_MAX then Inl EOVERFLOW
     else if len < 0 \<and> start + len < 0 then Inl EINVAL
     else Inr (if len < 0 then start + len else start, ende))"
proof -
  note w = flock_range_wraps [OF assms]
  show ?thesis
  proof (cases "fstart > OFF_T_MAX - offset \<or> offset + fstart < 0")
    case True
    then show ?thesis using assms w by (auto simp: flock_range_def Let_def)
  next
    case False
    define start where "start = offset + fstart"
    have st: "0 \<le> start" "start \<le> OFF_T_MAX" using False by (auto simp: start_def)
    have f: "flock_range offset fstart len = (if len > 0 then
          (if len - 1 > OFF_T_MAX - start then Inl EOVERFLOW else Inr (start, s64 (s64 (start + len) - 1)))
        else if len < 0 then
          (if s64 (start + len) < 0 then Inl EINVAL else Inr (s64 (start + len), s64 (start - 1)))
        else Inr (start, OFF_T_MAX))"
      using False w st by (simp add: flock_range_def Let_def start_def s64_id in_s64_def)
    have n: "len < 0 \<Longrightarrow> s64 (start + len) = start + len" "s64 (start - 1) = start - 1"
      using st assms(4) by (auto intro!: s64_id simp: in_s64_def)
    show ?thesis
      unfolding f Let_def start_def [symmetric] using st n s64_end [OF st(1), of len] by auto
  qed
qed



section \<open>Wake-ups\<close>

text \<open>A change that notifies nobody leaves every blocked request blocked.\<close>

lemma acquire_quiet:
  assumes ok: "locks_ok locks" and "lk_valid r" and acq: "file_lock_acquire locks r = Inr (locks', False)"
    and q: "lk_valid q" "l \<in> set locks" "file_locks_conflict l q"
  shows "\<exists>l' \<in> set locks'. file_locks_conflict l' q"
  using ok acq
proof (cases rule: acquire_shape)
  case (1 A own B r' pre)
  have vown: "\<forall>l \<in> set own. lk_valid l" and l: "lk_valid l" "fl_type l \<noteq> F_UNLCK"
    using ok q(2) 1(1) by (auto simp: locks_ok_def)
  show ?thesis
  proof (cases "l \<in> set locks'")
    case False
    then have own: "l \<in> set own" "l \<notin> set pre" using q(2) 1(1,7) by auto
    then have r': "fl_type l = fl_type r" "\<forall>x. lk_in x l \<longrightarrow> lk_in x r'" "lk_valid r'" "fl_owner r' = fl_owner l" "fl_type r' = fl_type r"
      using acquire_own_quiet [OF 1(6) assms(2) vown _ own(1)] acquire_own_request [OF 1(6) assms(2) vown] 1(3) by auto
    then have "file_locks_conflict r' q" using q l(1) by (auto simp: conflict_iff)
    then show ?thesis using 1(7) r' l(2) by (auto intro!: bexI [of _ r'])
  qed (use q(3) in blast)
qed

definition waiter_ok :: "file_lock list \<Rightarrow> sleeper \<Rightarrow> bool" where
  "waiter_ok locks w \<longleftrightarrow> lk_valid (sl_request w) \<and> (sl_woken w \<or> (\<exists>l \<in> set locks. file_locks_conflict l (sl_request w)))"

definition flock_waiter_ok :: "file_lock list \<Rightarrow> sleeper \<Rightarrow> bool" where
  "flock_waiter_ok locks w \<longleftrightarrow> sl_woken w \<or> (\<exists>l \<in> set locks. flock_locks_conflict l (sl_request w))"

definition flocks_ok :: "file_lock list \<Rightarrow> bool" where
  "flocks_ok locks \<longleftrightarrow> sorted_wrt (\<lambda>a b. \<not> flock_locks_conflict a b) locks"

definition lk_inv :: "lk_state \<Rightarrow> bool" where
  "lk_inv st \<longleftrightarrow> (\<forall>ino. locks_ok (il_posix (ls_inodes st ino)) \<and> flocks_ok (il_flock (ls_inodes st ino))) \<and>
     (\<forall>w \<in> set (ls_waiters st). waiter_ok (il_posix (ls_inodes st (sl_inode w))) w) \<and>
     (\<forall>w \<in> set (ls_flock_waiters st). flock_waiter_ok (il_flock (ls_inodes st (sl_inode w))) w)"

lemma set_posix_inv:
  assumes "lk_inv st" and "locks_ok locks'"
    and quiet: "\<And>q l. \<not> n \<Longrightarrow> lk_valid q \<Longrightarrow> l \<in> set (il_posix (ls_inodes st ino)) \<Longrightarrow> file_locks_conflict l q \<Longrightarrow>
      \<exists>l' \<in> set locks'. file_locks_conflict l' q"
  shows "lk_inv (set_posix st ino locks' n)"
proof -
  have "waiter_ok (il_posix (ls_inodes (set_posix st ino locks' n) (sl_inode w))) w"
    if "w \<in> set (ls_waiters (set_posix st ino locks' n))" for w
  proof -
    obtain v where v: "v \<in> set (ls_waiters st)" "w = (if n \<and> sl_inode v = ino then v\<lparr>sl_woken := True\<rparr> else v)"
      using \<open>w \<in> _\<close> by (auto simp: set_posix_def wake_def split: if_splits)
    then have "waiter_ok (il_posix (ls_inodes st (sl_inode v))) v" using assms(1) by (simp add: lk_inv_def)
    then show ?thesis
      using v quiet by (cases "sl_inode v = ino"; cases n) (auto simp: waiter_ok_def set_posix_def)
  qed
  then show ?thesis using assms(1,2) by (auto simp: lk_inv_def set_posix_def)
qed

lemma set_flock_inv:
  assumes "lk_inv st" and "flocks_ok locks'"
    and quiet: "\<not> n \<Longrightarrow> set (il_flock (ls_inodes st ino)) \<subseteq> set locks'"
  shows "lk_inv (set_flock st ino locks' n)"
proof -
  have "flock_waiter_ok (il_flock (ls_inodes (set_flock st ino locks' n) (sl_inode w))) w"
    if "w \<in> set (ls_flock_waiters (set_flock st ino locks' n))" for w
  proof -
    obtain v where v: "v \<in> set (ls_flock_waiters st)" "w = (if n \<and> sl_inode v = ino then v\<lparr>sl_woken := True\<rparr> else v)"
      using \<open>w \<in> _\<close> by (auto simp: set_flock_def wake_def split: if_splits)
    then have "flock_waiter_ok (il_flock (ls_inodes st (sl_inode v))) v" using assms(1) by (simp add: lk_inv_def)
    then show ?thesis
      using v quiet by (cases "sl_inode v = ino"; cases n) (auto simp: flock_waiter_ok_def set_flock_def)
  qed
  then show ?thesis using assms(1,2) by (auto simp: lk_inv_def set_flock_def)
qed

lemma setlk_attempt_inv:
  assumes inv: "lk_inv st" and r: "lk_valid r"
  shows "lk_inv (fst (setlk_attempt st i ino r blocking))"
proof (cases "file_lock_acquire (il_posix (ls_inodes st ino)) r")
  case (Inl e)
  then have "\<exists>l \<in> set (il_posix (ls_inodes st ino)). file_locks_conflict l r"
    by (auto simp: file_lock_acquire_def Let_def split: if_splits prod.splits)
  then show ?thesis
    using inv r Inl by (auto simp: setlk_attempt_def Let_def posix_lock_waiter_add_def lk_inv_def waiter_ok_def)
next
  case (Inr p)
  obtain locks' n where p: "p = (locks', n)" by (cases p)
  have ok: "locks_ok (il_posix (ls_inodes st ino))" using inv by (simp add: lk_inv_def)
  have "lk_inv (set_posix st ino locks' n)"
    by (rule set_posix_inv [OF inv acquire_locks_ok [OF ok r Inr [unfolded p]]])
      (use acquire_quiet [OF ok r] Inr p in auto)
  then show ?thesis by (simp add: setlk_attempt_def Inr p Let_def)
qed

lemma locks_ok_filter: "locks_ok locks \<Longrightarrow> locks_ok (filter (\<lambda>l. fl_owner l \<noteq> p) locks)"
proof -
  assume ok: "locks_ok locks"
  have "grouped (map f xs) \<Longrightarrow> grouped (map f (filter (\<lambda>x. f x \<noteq> p) xs))" for f :: "file_lock \<Rightarrow> lock_owner" and xs
  proof -
    assume g: "grouped (map f xs)"
    from grouped_split [OF this, of p] obtain A own B where s: "xs = A @ own @ B" "\<forall>a \<in> set A. f a \<noteq> p"
      "\<forall>a \<in> set own. f a = p" "\<forall>b \<in> set B. f b \<noteq> p" "own = [] \<longrightarrow> B = []" by blast
    then have "filter (\<lambda>x. f x \<noteq> p) xs = A @ B" by simp
    moreover have "grouped (map f A @ [] @ map f B)"
      by (rule grouped_replace [where own = "map f own" and p = p]) (use g s in auto)
    ultimately show ?thesis by simp
  qed
  then show ?thesis using ok by (auto simp: locks_ok_def sorted_wrt_filter)
qed

lemma remove_owned_by_inv: "lk_inv st \<Longrightarrow> lk_inv (file_lock_remove_owned_by st ino p)"
  unfolding file_lock_remove_owned_by_def Let_def
  by (rule set_posix_inv) (auto simp: lk_inv_def intro: locks_ok_filter)

lemma flock_remove_inv: "lk_inv st \<Longrightarrow> lk_inv (flock_remove_owned_by st ino f)"
  unfolding flock_remove_owned_by_def Let_def
  by (rule set_flock_inv) (auto simp: lk_inv_def flocks_ok_def intro: sorted_wrt_filter)

lemma flock_attempt_inv: "lk_inv st \<Longrightarrow> lk_inv (fst (flock_attempt st i ino r nb))"
  unfolding flock_attempt_def Let_def
  by (auto intro!: set_flock_inv simp: flocks_ok_def sorted_wrt_append)
    (auto simp: lk_inv_def flock_waiter_ok_def flocks_ok_def)

lemma flock_lock_inv: "lk_inv st \<Longrightarrow> lk_inv (fst (flock_lock st i env fd operation))"
  by (auto simp: flock_lock_def Let_def flock_remove_inv split: option.splits intro!: flock_attempt_inv)

section \<open>Reachable states\<close>

text \<open>A file whose position and size are offsets, and a request of 64-bit numbers.\<close>

definition fd_ok :: "lk_fd \<Rightarrow> bool" where
  "fd_ok fd \<longleftrightarrow> (\<forall>x. lf_seek fd = Some (Inr x) \<or> lf_size fd = Some (Inr x) \<longrightarrow> 0 \<le> x \<and> x \<le> OFF_T_MAX)"

definition flock_ok :: "flock \<Rightarrow> bool" where
  "flock_ok fk \<longleftrightarrow> in_s64 (fk_start fk) \<and> in_s64 (fk_len fk)"

definition lk_init :: lk_state where
  "lk_init = \<lparr>ls_inodes = (\<lambda>_. \<lparr>il_posix = [], il_flock = []\<rparr>), ls_waiters = [], ls_flock_waiters = []\<rparr>"

inductive lk_step :: "lk_state \<Rightarrow> lk_state \<Rightarrow> bool" where
  setlk: "fd_ok fd \<Longrightarrow> flock_ok fk \<Longrightarrow> lk_step st (fst (fcntl_setlk st i env fd fk blocking ofd))"
| setlk_wakes: "w \<in> set (ls_waiters st) \<Longrightarrow> lk_step st (fst (setlk_wake st w interrupted))"
| flock: "lk_step st (fst (flock_lock st i env fd operation))"
| flock_wakes: "w \<in> set (ls_flock_waiters st) \<Longrightarrow> lk_step st (fst (flock_wake st w interrupted))"
| close_posix: "lk_step st (file_lock_remove_owned_by st ino p)"
| close_flock: "lk_step st (flock_remove_owned_by st ino f)"

inductive lk_reachable :: "lk_state \<Rightarrow> bool" where
  init: "lk_reachable lk_init"
| step: "lk_reachable st \<Longrightarrow> lk_step st st' \<Longrightarrow> lk_reachable st'"

lemma from_flock_valid:
  assumes "fd_ok fd" and "flock_ok fk" and "file_lock_from_flock env fd fk ofd = Inr r"
  shows "lk_valid r"
proof -
  obtain offset start ende where r: "flock_offset fd (fk_whence fk) = Inr offset"
      "flock_range offset (fk_start fk) (fk_len fk) = Inr (start, ende)" "fl_start r = start" "fl_end r = ende"
    using assms(3) by (auto simp: file_lock_from_flock_def split: sum.splits prod.splits)
  have "0 \<le> offset" "offset \<le> OFF_T_MAX"
    using r(1) assms(1) by (auto simp: flock_offset_def fd_ok_def split: if_splits option.splits)
  then show ?thesis
    using r(2-4) assms(2) flock_range_eq [of offset "fk_start fk" "fk_len fk"]
    by (auto simp: flock_ok_def lk_valid_def Let_def split: if_splits)
qed

lemma fcntl_setlk_inv:
  "lk_inv st \<Longrightarrow> fd_ok fd \<Longrightarrow> flock_ok fk \<Longrightarrow> lk_inv (fst (fcntl_setlk st i env fd fk blocking ofd))"
  using from_flock_valid [of fd fk env ofd]
  by (auto simp: fcntl_setlk_def split: option.splits sum.splits intro!: setlk_attempt_inv)

lemma lk_step_inv: "lk_step st st' \<Longrightarrow> lk_inv st \<Longrightarrow> lk_inv st'"
proof (induction rule: lk_step.induct)
  case (setlk_wakes w st interrupted)
  have "lk_inv (posix_lock_waiter_remove st (sl_id w))" "lk_valid (sl_request w)"
    using setlk_wakes by (auto simp: lk_inv_def posix_lock_waiter_remove_def waiter_ok_def)
  then show ?case by (auto simp: setlk_wake_def Let_def intro: setlk_attempt_inv)
next
  case (flock_wakes w st interrupted)
  have "lk_inv (st\<lparr>ls_flock_waiters := filter (\<lambda>x. sl_id x \<noteq> sl_id w) (ls_flock_waiters st)\<rparr>)"
    using flock_wakes by (auto simp: lk_inv_def)
  then show ?case by (auto simp: flock_wake_def Let_def intro: flock_attempt_inv)
qed (auto intro: fcntl_setlk_inv flock_lock_inv remove_owned_by_inv flock_remove_inv)

lemma lk_init_inv: "lk_inv lk_init"
  by (simp add: lk_init_def lk_inv_def locks_ok_def flocks_ok_def)

lemma lk_reachable_inv: "lk_reachable st \<Longrightarrow> lk_inv st"
  by (induction rule: lk_reachable.induct) (auto intro: lk_step_inv lk_init_inv)

section \<open>Deadlocks\<close>

text \<open>The graph of who waits for whom.\<close>

definition waits :: "sleeper list \<Rightarrow> (lock_owner \<times> lock_owner) set" where
  "waits ws = {(sl_owner w, b) | w b. w \<in> set ws \<and> sl_blocked_on w = Some b}"

lemma waits_Cons:
  "waits (w # ws) = (case sl_blocked_on w of None \<Rightarrow> waits ws | Some b \<Rightarrow> insert (sl_owner w, b) (waits ws))"
  by (force simp: waits_def split: option.splits)

lemma walk_1024:
  "deadlock_walk 1024 ws self (Some c) = (c = self \<or> deadlock_walk 1023 ws self (next_blocked ws c))"
  using deadlock_walk.simps(3) [of 1023] by simp

lemma next_blocked_waits: "next_blocked ws a = Some b \<Longrightarrow> (a, b) \<in> waits ws"
  unfolding next_blocked_def waits_def
  by (cases "find (\<lambda>w. sl_owner w = a) ws") (auto simp: find_Some_iff dest: nth_mem)

lemma waits_next_blocked:
  assumes "distinct (map fl_owner (map sl_request ws))" and "(a, b) \<in> waits ws"
  shows "next_blocked ws a = Some b"
proof -
  obtain w where w: "w \<in> set ws" "sl_owner w = a" "sl_blocked_on w = Some b" using assms(2) by (auto simp: waits_def)
  have "find (\<lambda>w. sl_owner w = a) ws = Some w"
    using assms(1) w(1,2) by (induction ws) (auto simp: image_iff)
  then show ?thesis using w(3) by (simp add: next_blocked_def)
qed

lemma walk_sound: "deadlock_walk n ws self (Some b) \<Longrightarrow> (b, self) \<in> (waits ws)\<^sup>*"
proof (induction n arbitrary: b)
  case (Suc n)
  then consider "b = self" | c where "next_blocked ws b = Some c" "deadlock_walk n ws self (Some c)"
    by (cases "next_blocked ws b") auto
  then show ?case
  proof cases
    case (2 c)
    then show ?thesis using Suc.IH [of c] next_blocked_waits [of ws b c] by (simp add: converse_rtrancl_into_rtrancl)
  qed simp
qed simp

text \<open>The owners met on the way are waiters, each a different one, so the bound on the walk is never hit.\<close>

lemma walk_complete:
  assumes "distinct (map fl_owner (map sl_request ws))" and "(b, self) \<in> waits ws ^^ k" and "k < n"
  shows "deadlock_walk n ws self (Some b)"
  using assms(2,3)
proof (induction k arbitrary: b n)
  case 0
  then show ?case by (cases n) auto
next
  case (Suc k)
  then obtain c where "(b, c) \<in> waits ws" "(c, self) \<in> waits ws ^^ k" using relpow_Suc_D2 by metis
  moreover obtain m where "n = Suc m" "k < m" using Suc.prems by (cases n) auto
  ultimately show ?case using Suc.IH [of c m] waits_next_blocked [OF assms(1)] by simp
qed

lemma waits_finite: "finite (waits ws)"
proof -
  have "waits ws \<subseteq> (\<lambda>w. (sl_owner w, the (sl_blocked_on w))) ` set ws" by (force simp: waits_def)
  then show ?thesis by (rule finite_subset) simp
qed

lemma waits_card: "card (waits ws) \<le> length ws"
proof -
  have "waits ws \<subseteq> (\<lambda>w. (sl_owner w, the (sl_blocked_on w))) ` set ws" by (force simp: waits_def)
  then have "card (waits ws) \<le> card (set ws)" by (meson card_image_le card_mono finite_imageI finite_set le_trans)
  then show ?thesis using card_length [of ws] by linarith
qed

lemma walk_iff:
  assumes "distinct (map fl_owner (map sl_request ws))" and "length ws < 1024"
  shows "deadlock_walk 1024 ws self (Some b) \<longleftrightarrow> (b, self) \<in> (waits ws)\<^sup>*"
proof
  assume "(b, self) \<in> (waits ws)\<^sup>*"
  then obtain k where "k \<le> card (waits ws)" "(b, self) \<in> waits ws ^^ k"
    using rtrancl_finite_eq_relpow [OF waits_finite [of ws]] by auto
  then show "deadlock_walk 1024 ws self (Some b)"
    using walk_complete [OF assms(1)] waits_card [of ws] assms(2) by fastforce
qed (rule walk_sound)

section \<open>Properties\<close>

lemma locks_ok_exclusive:
  assumes "locks_ok locks" and "held locks p F_WRLCK x" and "held locks q t x"
  shows "p = q"
proof (rule ccontr)
  assume pq: "p \<noteq> q"
  obtain a b where a: "a \<in> set locks" "fl_owner a = p" "fl_type a = F_WRLCK" "lk_in x a"
    and b: "b \<in> set locks" "fl_owner b = q" "lk_in x b" using assms(2,3) by (auto simp: held_def)
  have "lk_valid a" "lk_valid b" using assms(1) a(1) b(1) by (auto simp: locks_ok_def)
  then have "file_locks_conflict a b" using a b pq by (auto simp: conflict_iff)
  moreover have "lk_pair a b \<or> lk_pair b a"
    using assms(1) a(1,2) b(1,2) pq sorted_wrt_nth_less [of lk_pair locks]
    unfolding locks_ok_def in_set_conv_nth by (metis linorder_neqE_nat)
  ultimately show False using pq a(2) b(2) conflict_sym [of a b] by (auto simp: lk_pair_def)
qed

text \<open>
  C10 (safety). Mutual exclusion of byte ranges, over any interleaving: in every reachable
  state, if one owner holds a write lock on a byte, no other owner holds any lock on it.
\<close>

theorem file_lock_exclusive:
  assumes "lk_reachable st" and "held (il_posix (ls_inodes st ino)) p F_WRLCK x"
    and "held (il_posix (ls_inodes st ino)) q t x"
  shows "p = q"
  using locks_ok_exclusive [OF _ assms(2,3)] lk_reachable_inv [OF assms(1)] by (simp add: lk_inv_def)

definition ex_fd :: lk_fd where
  "ex_fd = \<lparr>lf_id = 7, lf_flags = 2, lf_inode = Some 3, lf_seek = Some (Inr 0), lf_size = Some (Inr 100)\<rparr>"

definition ex_lkenv :: lk_env where
  "ex_lkenv = \<lparr>le_files = 1, le_tgid = 10, le_pid = 10, le_comm = ''sh'', le_pid_shown = id\<rparr>"

definition ex_wrlock :: flock where
  "ex_wrlock = \<lparr>fk_type = F_WRLCK, fk_whence = 0, fk_start = 10, fk_len = 5, fk_pid = 0, fk_comm = []\<rparr>"

definition ex_locked :: lk_state where
  "ex_locked = fst (fcntl_setlk lk_init 0 ex_lkenv ex_fd ex_wrlock True False)"

lemma ex_fd_ok: "fd_ok ex_fd" "flock_ok ex_wrlock"
  by (auto simp: fd_ok_def ex_fd_def flock_ok_def ex_wrlock_def in_s64_def)

lemma ex_locked_reachable: "lk_reachable ex_locked"
  unfolding ex_locked_def by (rule lk_reachable.step [OF lk_reachable.init lk_step.setlk [OF ex_fd_ok]])

lemma ex_locked_list:
  "il_posix (ls_inodes ex_locked 3) = [\<lparr>fl_start = 10, fl_end = 14, fl_type = F_WRLCK, fl_pid = 10,
     fl_comm = ''sh'', fl_owner = Files 1\<rparr>]"
  by (simp add: ex_locked_def fcntl_setlk_def lk_init_def ex_fd_def ex_wrlock_def ex_lkenv_def file_lock_from_flock_def
      flock_offset_def flock_range_def s64_def setlk_attempt_def file_lock_acquire_def set_posix_def Let_def)

theorem file_lock_exclusive_witness:
  "held (il_posix (ls_inodes ex_locked 3)) (Files 1) F_WRLCK 12 \<and>
   \<not> held (il_posix (ls_inodes ex_locked 3)) (OpenFile 9) F_RDLCK 12"
proof -
  have "held (il_posix (ls_inodes ex_locked 3)) (Files 1) F_WRLCK 12"
    by (simp add: ex_locked_list held_def lk_in_def)
  then show ?thesis using file_lock_exclusive [OF ex_locked_reachable] by blast
qed

text \<open>
  C9 (refinement). Acquiring, converting and releasing refine one assignment: after a
  successful request the caller holds the requested type on exactly the requested bytes
  (none, for an unlock), and what any owner holds on any other byte, or any other owner on
  these, is as before. Merging, splitting and truncating the list entries never show.
\<close>

theorem file_lock_acquire_refines:
  assumes "lk_reachable st" and "lk_valid r"
    and "file_lock_acquire (il_posix (ls_inodes st ino)) r = Inr (locks', n)"
  shows "held locks' p t x \<longleftrightarrow> (if p = fl_owner r \<and> fl_start r \<le> x \<and> x \<le> fl_end r then t = fl_type r \<and> t \<noteq> F_UNLCK
     else held (il_posix (ls_inodes st ino)) p t x)"
  using acquire_held [OF _ assms(2,3)] lk_reachable_inv [OF assms(1)] by (simp add: lk_inv_def lk_in_def)

definition ex_unlock :: file_lock where
  "ex_unlock = \<lparr>fl_start = 12, fl_end = 12, fl_type = F_UNLCK, fl_pid = 10, fl_comm = [], fl_owner = Files 1\<rparr>"

theorem file_lock_acquire_refines_witness:
  "\<exists>locks'. file_lock_acquire (il_posix (ls_inodes ex_locked 3)) ex_unlock = Inr (locks', True) \<and> length locks' = 2 \<and>
     \<not> held locks' (Files 1) F_WRLCK 12 \<and> held locks' (Files 1) F_WRLCK 13"
proof -
  obtain locks' where l: "file_lock_acquire (il_posix (ls_inodes ex_locked 3)) ex_unlock = Inr (locks', True)" "length locks' = 2"
    by (simp add: file_lock_acquire_def ex_locked_list ex_unlock_def file_locks_overlap_def lock_subtract_def)
  have "lk_valid ex_unlock" by (simp add: lk_valid_def ex_unlock_def)
  note refines = file_lock_acquire_refines [OF ex_locked_reachable this l(1), of "Files 1" F_WRLCK]
  have "held (il_posix (ls_inodes ex_locked 3)) (Files 1) F_WRLCK 13" by (simp add: ex_locked_list held_def lk_in_def)
  then show ?thesis using refines [of 12] refines [of 13] l by (simp add: ex_unlock_def)
qed

text \<open>
  C11 (liveness). No wake-up is lost: in every reachable state a caller that sleeps in
  \<^verbatim>\<open>F_SETLKW\<close> and has not been woken since is really blocked, by a lock now in the list; and
  the same for \<^verbatim>\<open>flock\<close>.
\<close>

theorem file_lock_no_lost_wakeup:
  assumes "lk_reachable st"
  shows "(\<forall>w \<in> set (ls_waiters st). sl_woken w \<or>
       (\<exists>l \<in> set (il_posix (ls_inodes st (sl_inode w))). file_locks_conflict l (sl_request w))) \<and>
     (\<forall>w \<in> set (ls_flock_waiters st). sl_woken w \<or>
       (\<exists>l \<in> set (il_flock (ls_inodes st (sl_inode w))). flock_locks_conflict l (sl_request w)))"
  using lk_reachable_inv [OF assms] by (auto simp: lk_inv_def waiter_ok_def flock_waiter_ok_def)

definition ex_waiting :: lk_state where
  "ex_waiting = fst (fcntl_setlk ex_locked 5 (ex_lkenv\<lparr>le_files := 2\<rparr>) ex_fd ex_wrlock True False)"

theorem file_lock_no_lost_wakeup_witness:
  "\<exists>w. ls_waiters ex_waiting = [w] \<and> \<not> sl_woken w \<and>
     (\<exists>l \<in> set (il_posix (ls_inodes ex_waiting (sl_inode w))). file_locks_conflict l (sl_request w))"
proof -
  have "lk_reachable ex_waiting"
    unfolding ex_waiting_def by (rule lk_reachable.step [OF ex_locked_reachable lk_step.setlk [OF ex_fd_ok]])
  moreover have "ls_waiters ex_locked = []"
    by (simp add: ex_locked_def fcntl_setlk_def lk_init_def ex_fd_def ex_wrlock_def ex_lkenv_def file_lock_from_flock_def
      flock_offset_def flock_range_def s64_def setlk_attempt_def file_lock_acquire_def set_posix_def Let_def)
  then obtain w where "ls_waiters ex_waiting = [w]" "\<not> sl_woken w"
    by (simp add: ex_waiting_def fcntl_setlk_def ex_fd_def ex_wrlock_def ex_lkenv_def file_lock_from_flock_def
      flock_offset_def flock_range_def s64_def setlk_attempt_def file_lock_acquire_def Let_def ex_locked_list
      file_locks_conflict_def file_locks_overlap_def file_lock_test_def posix_lock_would_deadlock_def
      next_blocked_def posix_lock_waiter_add_def walk_1024)
  ultimately show ?thesis using file_lock_no_lost_wakeup [of ex_waiting] by auto
qed



text \<open>
  \<^verbatim>\<open>F_GETLK\<close> tells what \<^verbatim>\<open>F_SETLK\<close> would do: in a reachable state and for a
  file open in the right mode, it reports the range as free if and only if placing the lock
  now would succeed, and otherwise \<^verbatim>\<open>F_SETLK\<close> fails.
\<close>

theorem getlk_predicts_setlk:
  assumes "lk_reachable st" and "lf_inode fd = Some ino" and "fk_type fk \<in> {F_RDLCK, F_WRLCK}"
    and "fk_type fk = F_RDLCK \<Longrightarrow> lf_flags fd AND 3 \<noteq> 1" and "fk_type fk = F_WRLCK \<Longrightarrow> lf_flags fd AND 3 \<noteq> 0"
  shows "fcntl_getlk st env fd fk ofd = Inr (fk\<lparr>fk_type := F_UNLCK\<rparr>) \<longleftrightarrow>
    snd (fcntl_setlk st i env fd fk False ofd) = LkDone (Inr ())"
proof (cases "file_lock_from_flock env fd fk ofd")
  case (Inl e)
  then show ?thesis using assms(2-5) by (auto simp: fcntl_getlk_def fcntl_setlk_def)
next
  case (Inr r)
  let ?locks = "il_posix (ls_inodes st ino)"
  have t: "fl_type r = fk_type fk" using Inr by (auto simp: file_lock_from_flock_def split: sum.splits prod.splits)
  have "fl_type l \<noteq> F_UNLCK" if "file_lock_test ?locks r = Some l" for l
    using that lk_reachable_inv [OF assms(1)]
    by (auto simp: file_lock_test_def find_Some_iff lk_inv_def locks_ok_def dest: nth_mem)
  moreover have "fl_type l \<noteq> F_UNLCK \<Longrightarrow> flock_from_file_lock env l \<noteq> fk\<lparr>fk_type := F_UNLCK\<rparr>" for l
    by (cases fk) (simp add: flock_from_file_lock_def)
  ultimately have get: "fcntl_getlk st env fd fk ofd = Inr (fk\<lparr>fk_type := F_UNLCK\<rparr>) \<longleftrightarrow> file_lock_test ?locks r = None"
    using Inr assms(2,3) by (auto simp: fcntl_getlk_def split: option.splits)
  have "snd (fcntl_setlk st i env fd fk False ofd) = snd (setlk_attempt st i ino r False)"
    using Inr assms(2-5) by (auto simp: fcntl_setlk_def)
  also have "\<dots> = LkDone (Inr ()) \<longleftrightarrow> file_lock_test ?locks r = None"
    using t assms(3) by (auto simp: setlk_attempt_def file_lock_acquire_def file_lock_test_def find_None_iff Let_def
        split: prod.splits)
  finally show ?thesis using get by simp
qed

theorem getlk_predicts_setlk_witness:
  "fcntl_getlk ex_locked ex_lkenv ex_fd ex_wrlock False = Inr (ex_wrlock\<lparr>fk_type := F_UNLCK\<rparr>) \<longleftrightarrow>
   snd (fcntl_setlk ex_locked 0 ex_lkenv ex_fd ex_wrlock False False) = LkDone (Inr ())"
  using getlk_predicts_setlk [OF ex_locked_reachable, of ex_fd 3 ex_wrlock ex_lkenv False 0]
  by (simp add: ex_fd_def ex_wrlock_def)

text \<open>
  C14 (safety). \<^verbatim>\<open>flock\<close> excludes: in every reachable state an exclusive lock on a file is the
  only one of any open file but its own.
\<close>

theorem flock_exclusive:
  assumes "lk_reachable st" and "a \<in> set (il_flock (ls_inodes st ino))" and "b \<in> set (il_flock (ls_inodes st ino))"
    and "fl_type a = F_WRLCK"
  shows "fl_owner a = fl_owner b"
proof -
  have "sorted_wrt (\<lambda>a b. \<not> flock_locks_conflict a b) (il_flock (ls_inodes st ino))"
    using lk_reachable_inv [OF assms(1)] by (simp add: lk_inv_def flocks_ok_def)
  then have "a = b \<or> \<not> flock_locks_conflict a b \<or> \<not> flock_locks_conflict b a"
    using assms(2,3) sorted_wrt_nth_less unfolding in_set_conv_nth by (metis linorder_neqE_nat)
  then show ?thesis using assms(4) by (auto simp: flock_locks_conflict_def)
qed

definition ex_flocked :: lk_state where
  "ex_flocked = fst (flock_lock lk_init 0 ex_lkenv ex_fd 2)"

theorem flock_exclusive_witness:
  "\<exists>a b. a \<in> set (il_flock (ls_inodes ex_flocked 3)) \<and> b \<in> set (il_flock (ls_inodes ex_flocked 3)) \<and>
     fl_type a = F_WRLCK \<and> fl_owner a = fl_owner b"
proof -
  have r: "lk_reachable ex_flocked"
    unfolding ex_flocked_def by (rule lk_reachable.step [OF lk_reachable.init lk_step.flock])
  have "il_flock (ls_inodes ex_flocked 3) = [flock_request ex_lkenv ex_fd 2]"
    by (simp add: ex_flocked_def flock_lock_def ex_fd_def flock_attempt_def flock_remove_owned_by_def set_flock_def
        lk_init_def Let_def)
  then show ?thesis
    using flock_exclusive [OF r, of "flock_request ex_lkenv ex_fd 2" 3] by (auto simp: flock_request_def)
qed

end
