(* ===== verification/Fd_Locks.thy ===== *)
theory Fd_Locks
  imports FdTable_Props FileLock_Props
begin

text \<open>
  Descriptors and file locks together: what closing does to locks, the layouts in which lock
  requests cross the boundary, and the race of a close with a blocked lock request.
\<close>

section \<open>Layouts\<close>



lemma flock64_read_write:
  assumes "in_s64 (fk_start fk)" "in_s64 (fk_len fk)" "- (2 ^ 31) \<le> fk_pid fk" "fk_pid fk < 2 ^ 31"
  shows "flock_read (flock_write fk) = fk\<lparr>fk_comm := []\<rparr>"
  using assms by (simp add: layout_defs le_field_simps signed_mod unat_mod_self unsigned_of_int take_bit_eq_mod)

definition flock32_before :: "u8 list" where
  "flock32_before = le_bytes 2 F_WRLCK @ le_bytes 2 (0 :: u16) @ le_bytes 4 (100 :: u32) @ le_bytes 4 (- 10 :: u32) @ le_bytes 4 (0 :: u32)"

text \<open>
  The 32-bit layout is read without its sign. A request for the ten bytes before offset 100, which
  is legal, locks over four gigabytes from offset 100 on instead.
\<close>

theorem flock32_sign_lost:
  "map_sum id (\<lambda>l. (fl_start l, fl_end l)) (file_lock_from_flock env fd (layout_read Flock32 flock32_before) False) = Inr (100, 4294967385) \<and>
   map_sum id (\<lambda>l. (fl_start l, fl_end l)) (file_lock_from_flock env fd ((layout_read Flock32 flock32_before)\<lparr>fk_len := - 10\<rparr>) False) = Inr (90, 99)"
proof -
  have "layout_read Flock32 flock32_before = \<lparr>fk_type = F_WRLCK, fk_whence = 0, fk_start = 100, fk_len = 4294967286, fk_pid = 0, fk_comm = []\<rparr>"
    by (simp add: layout_defs flock32_before_def le_field_simps unat_mod_self s32_def)
  then show ?thesis by (simp add: file_lock_from_flock_def flock_offset_def flock_range_def s64_def)
qed

section \<open>Closing and locks\<close>

lemma finish_close_locks:
  assumes "heap_get (fs_fds s) a = Some x" and "fo_inode x = Some ino"
  shows "ls_inodes (fs_locks (fst (fdtable_finish_close s a t))) = (ls_inodes (fs_locks s))(ino :=
    \<lparr>il_posix = filter (\<lambda>l. fl_owner l \<noteq> Files t \<and> (fo_refcount x = 1 \<longrightarrow> fl_owner l \<noteq> OpenFile a)) (il_posix (ls_inodes (fs_locks s) ino)),
     il_flock = filter (\<lambda>l. fo_refcount x = 1 \<longrightarrow> fl_owner l \<noteq> OpenFile a) (il_flock (ls_inodes (fs_locks s) ino))\<rparr>)"
  using assms by (cases "ls_inodes (fs_locks s) ino") (simp add: fdtable_finish_close_def fd_close_def file_lock_remove_owned_by_def flock_remove_owned_by_def Let_def
      set_posix_def set_flock_def conj_commute cong: conj_cong)

text \<open>
  C25 (functional). Closing a descriptor drops exactly these locks: the process's own record locks on that file,
  whichever descriptor they were taken through, and, when no other descriptor and no caller
  refers to the open file any more, its \<^verbatim>\<open>flock\<close> and open-file locks. Locks on other files, of other
  processes and of other open files stay.
\<close>

theorem close_releases_locks:
  assumes "fd_reachable (s, H)" and "cur < length (fs_tasks s)" and "f_get s cur f = Some a"
    and "heap_get (fs_fds s) a = Some x" and "fo_inode x = Some ino"
  shows "ls_inodes (fs_locks (fst (f_close s cur f))) = (ls_inodes (fs_locks s))(ino :=
    \<lparr>il_posix = filter (\<lambda>l. fl_owner l \<noteq> Files (fs_tasks s ! cur) \<and> (slot_refs (fs_tabs s) a + held_refs H a = 1 \<longrightarrow> fl_owner l \<noteq> OpenFile a))
       (il_posix (ls_inodes (fs_locks s) ino)),
     il_flock = filter (\<lambda>l. slot_refs (fs_tabs s) a + held_refs H a = 1 \<longrightarrow> fl_owner l \<noteq> OpenFile a) (il_flock (ls_inodes (fs_locks s) ino))\<rparr>)"
proof -
  have inv: "sys_inv s H" using fd_reachable_inv [OF assms(1)] by simp
  obtain s1 r where d: "fdtable_detach s (fs_tasks s ! cur) f = (s1, r)" by fastforce
  note dt = detach_ok [OF inv tasks_live(1) [OF inv assms(2)] d]
  have "r = Some a" using dt(4) assms(3) by (simp add: f_get_def)
  moreover have "fo_refcount x = slot_refs (fs_tabs s) a + held_refs H a" using countedD(1) [OF fs_invD(1) [OF inv] assms(4)] by simp
  ultimately show ?thesis
    using finish_close_locks [of s1 a x ino "fs_tasks s ! cur"] dt(6,7) assms(4,5) d by (simp add: f_close_def Let_def)
qed

section \<open>A close that races with a blocked request\<close>

text \<open>
  Tasks 1 and 2 are threads of one process, task 0 is another process; all have the file
  open. Task 0 has the file locked; task 2 asks for the lock and sleeps; task 1 closes the
  descriptor; task 0 unlocks; task 2 gets the lock; tasks 2 and 1 end.
\<close>

definition race_flock :: "u16 \<Rightarrow> flock" where
  "race_flock type = \<lparr>fk_type = type, fk_whence = 0, fk_start = 0, fk_len = 0, fk_pid = 0, fk_comm = []\<rparr>"

definition race_env :: "u16 \<Rightarrow> nat \<Rightarrow> fc_env" where
  "race_env type tid = \<lparr>fe_rlimit = 1024, fe_alloc = True, fc_tid = tid, fc_tgid = int tid, fc_pid = int tid, fc_comm = ''sh'',
     fc_pid_shown = (\<lambda>p. p), fc_pid_global = (\<lambda>p. p), fc_task_exists = (\<lambda>_. True), fc_group_exists = (\<lambda>_. True),
     fc_read = (\<lambda>_ _. Some (flock_write (race_flock type))), fc_writable = (\<lambda>_ _. True)\<rparr>"

definition race_lock :: "nat \<Rightarrow> nat \<Rightarrow> file_lock" where
  "race_lock t tid = \<lparr>fl_start = 0, fl_end = OFF_T_MAX, fl_type = F_WRLCK, fl_pid = int tid, fl_comm = ''sh'', fl_owner = Files t\<rparr>"

definition race_sleeper :: "bool \<Rightarrow> sleeper" where
  "race_sleeper woken = \<lparr>sl_id = 2, sl_inode = 7, sl_request = race_lock 1 2, sl_blocked_on = Some (Files 0), sl_woken = woken\<rparr>"

definition race_tab :: "nat \<Rightarrow> nat option \<Rightarrow> fdtable" where
  "race_tab rc slot = \<lparr>ft_refcount = rc, ft_files = [slot, None, None], ft_cloexec = [0]\<rparr>"

definition race_state :: "nat \<Rightarrow> fdtable option list \<Rightarrow> file_lock list \<Rightarrow> sleeper list \<Rightarrow> nat list \<Rightarrow> fs_state" where
  "race_state rc tabs locks ws tasks = \<lparr>fs_fds = [Some (ex_file\<lparr>fo_refcount := rc\<rparr>)], fs_tabs = tabs,
     fs_locks = \<lparr>ls_inodes = (\<lambda>_. \<lparr>il_posix = [], il_flock = []\<rparr>)(7 := \<lparr>il_posix = locks, il_flock = []\<rparr>), ls_waiters = ws, ls_flock_waiters = []\<rparr>,
     fs_tasks = tasks\<rparr>"

abbreviation tab0 :: fdtable where "tab0 \<equiv> race_tab 1 (Some 0)"

lemma race_read: "flock_read (flock_write (race_flock type)) = race_flock type"
  by (simp add: flock64_read_write race_flock_def in_s64_def)

lemma race_lk_env: "lk_env_of (race_env type tid) t =
    \<lparr>le_files = t, le_tgid = int tid, le_pid = int tid, le_comm = ''sh'', le_pid_shown = (\<lambda>p. p)\<rparr>"
  by (simp add: lk_env_of_def race_env_def)

lemmas race_eval = race_state_def race_tab_def f_get_retain_def f_get_def fdtable_get_def get_tab_def put_tab_def heap_get_def heap_put_def heap_free_def
  fd_retain_def fd_close_def fd_unref_def ex_file_def

lemma race_open: "ex_open = race_state 1 [Some tab0] [] [] [0]"
  by (simp add: ex_open_eq race_state_def race_tab_def fs_init_def fun_upd_def ex_file_def)

lemma race_fork: "clone_files (race_state 1 [Some tab0] [] [] [0]) True True 0 0 = Inr (race_state 2 [Some tab0, Some tab0] [] [] [0, 1])"
  by (simp add: clone_files_def fdtable_copy_def fdtable_new_def fdtable_resize_def heap_alloc_def Let_def retain_each_def race_eval)

lemma race_thread:
  "clone_files (race_state 2 [Some tab0, Some tab0] [] [] [0, 1]) True True 1 CLONE_FILES = Inr (race_state 2 [Some tab0, Some (race_tab 2 (Some 0))] [] [] [0, 1, 1])"
  by (simp add: clone_files_def CLONE_FILES_def fdtable_retain_def Let_def race_eval)

lemma race_setlk:
  "cmd = F_SETLK64 \<or> cmd = F_SETLKW64 \<Longrightarrow> fcntl_switch s cur (race_env type tid) f a x cmd arg False =
     (case fcntl_setlk (fs_locks s) tid (lk_env_of (race_env type tid) (fs_tasks s ! cur)) (lk_fd_of a x) (race_flock type) (cmd = F_SETLKW64) False of
        (lk, LkDone r) \<Rightarrow> (s\<lparr>fs_locks := lk\<rparr>, FcRet (map_sum id (\<lambda>_. 0) r) None)
      | (lk, LkSleep) \<Rightarrow> (s\<lparr>fs_locks := lk\<rparr>, FcSleep))"
  by (auto simp: fcntl_switch_def fcntl_do_setlk_def layout_size_def layout_read_def race_read race_env_def cong: prod.case_cong lk_out.case_cong)

lemma walk_no_waiters: "c \<noteq> self \<Longrightarrow> \<not> deadlock_walk n [] self (Some c)"
  by (cases n) (simp_all add: next_blocked_def)

lemmas race_lock_eval = Let_def walk_no_waiters fcntl_setlk_def race_lk_env file_lock_from_flock_def flock_offset_def flock_range_def s64_def setlk_attempt_def file_lock_acquire_def file_lock_test_def file_locks_conflict_def
  file_locks_overlap_def race_lock_def race_flock_def lk_fd_of_def fd_getflags_def set_posix_def posix_lock_would_deadlock_def
  posix_lock_waiter_add_def wake_def

lemma race_step_lock: "sys_fcntl_common (race_state 2 [Some tab0, Some (race_tab 2 (Some 0))] [] [] [0, 1, 1]) 0 (race_env F_WRLCK 1) 0 F_SETLK64 0 False =
   (race_state 2 [Some tab0, Some (race_tab 2 (Some 0))] [race_lock 0 1] [] [0, 1, 1], FcRet (Inr 0) None)"
  by (simp add: sys_fcntl_common_def race_setlk race_eval race_lock_eval)

lemma race_step_wait: "sys_fcntl_common (race_state 2 [Some tab0, Some (race_tab 2 (Some 0))] [race_lock 0 1] [] [0, 1, 1]) 2 (race_env F_WRLCK 2) 0 F_SETLKW64 0 False =
   (race_state 3 [Some tab0, Some (race_tab 2 (Some 0))] [race_lock 0 1] [race_sleeper False] [0, 1, 1], FcSleep)"
  by (simp add: sys_fcntl_common_def race_setlk race_eval race_lock_eval race_sleeper_def)

lemma race_step_close: "f_close (race_state 3 [Some tab0, Some (race_tab 2 (Some 0))] [race_lock 0 1] [race_sleeper False] [0, 1, 1]) 1 0 =
   (race_state 2 [Some tab0, Some (race_tab 2 None)] [race_lock 0 1] [race_sleeper False] [0, 1, 1], Inr 0)"
  by (simp add: f_close_def fdtable_detach_def fdtable_finish_close_def file_lock_remove_owned_by_def race_lock_eval race_eval bit_clear_def)

lemma race_step_unlock: "sys_fcntl_common (race_state 2 [Some tab0, Some (race_tab 2 None)] [race_lock 0 1] [race_sleeper False] [0, 1, 1]) 0
     (race_env F_UNLCK 1) 0 F_SETLK64 0 False =
   (race_state 2 [Some tab0, Some (race_tab 2 None)] [] [race_sleeper True] [0, 1, 1], FcRet (Inr 0) None)"
  by (simp add: sys_fcntl_common_def race_setlk race_eval race_lock_eval race_sleeper_def lock_subtract_def file_locks_adjacent_def)

lemma race_step_wake: "fcntl_wake (race_state 2 [Some tab0, Some (race_tab 2 None)] [] [race_sleeper True] [0, 1, 1]) 0 (race_sleeper True) False =
   (race_state 1 [Some tab0, Some (race_tab 2 None)] [race_lock 1 2] [] [0, 1, 1], FcRet (Inr 0) None)"
  by (simp add: fcntl_wake_def setlk_wake_def posix_lock_waiter_remove_def race_sleeper_def race_lock_eval race_eval)

lemma race_step_exit: "exit_files (race_state 1 [Some tab0, Some (race_tab 2 None)] [race_lock 1 2] [] [0, 1, 1]) 2 =
    race_state 1 [Some tab0, Some (race_tab 1 None)] [race_lock 1 2] [] [0, 1]"
  "exit_files (race_state 1 [Some tab0, Some (race_tab 1 None)] [race_lock 1 2] [] [0, 1]) 1 = race_state 1 [Some tab0, None] [race_lock 1 2] [] [0]"
  by (simp_all add: exit_files_def fdtable_release_def close_each_def fdtable_close_def fdtable_detach_def fdtable_unref_def race_eval Let_def)

lemma race_tasks [simp]: "fs_tasks (race_state rc tabs locks ws tasks) = tasks"
  by (simp add: race_state_def)

lemma race_limit [simp]: "limit_ok (fd_env.truncate (race_env type tid))"
  by (simp add: limit_ok_def fd_env.truncate_def race_env_def)

lemma race_waiting: "fd_reachable (race_state 3 [Some tab0, Some (race_tab 2 (Some 0))] [race_lock 0 1] [race_sleeper False] [0, 1, 1], [0])"
proof -
  have "fd_reachable (race_state 1 [Some tab0] [] [] [0], [])" using ex_reachable(2) by (simp add: race_open)
  moreover have "fd_step (race_state 1 [Some tab0] [] [] [0], []) (race_state 2 [Some tab0, Some tab0] [] [] [0, 1], [])"
    by (rule fd_step.clone [OF _ race_fork]) simp
  moreover have "fd_step (race_state 2 [Some tab0, Some tab0] [] [] [0, 1], []) (race_state 2 [Some tab0, Some (race_tab 2 (Some 0))] [] [] [0, 1, 1], [])"
    by (rule fd_step.clone [OF _ race_thread]) simp
  moreover have "fd_step (race_state 2 [Some tab0, Some (race_tab 2 (Some 0))] [] [] [0, 1, 1], [])
      (race_state 2 [Some tab0, Some (race_tab 2 (Some 0))] [race_lock 0 1] [] [0, 1, 1], [])"
    by (rule fd_step.fcntl [OF _ _ race_step_lock]) simp_all
  moreover have "fd_step (race_state 2 [Some tab0, Some (race_tab 2 (Some 0))] [race_lock 0 1] [] [0, 1, 1], [])
      (race_state 3 [Some tab0, Some (race_tab 2 (Some 0))] [race_lock 0 1] [race_sleeper False] [0, 1, 1], [0])"
    by (rule fd_step.fcntl_sleep [OF _ _ race_step_wait]) (simp_all add: race_eval)
  ultimately show ?thesis by (blast intro: fd_reachable.step)
qed

theorem close_releases_locks_witness:
  "il_posix (ls_inodes (fs_locks (fst (f_close
     (race_state 3 [Some tab0, Some (race_tab 2 (Some 0))] [race_lock 0 1] [race_sleeper False] [0, 1, 1]) 0 0))) 7) = []"
  using close_releases_locks [OF race_waiting, of 0 0 0 "ex_file\<lparr>fo_refcount := 3\<rparr>" 7]
  by (simp add: race_eval race_lock_def)


end
