(* ===== verification/SysvIpc.thy ===== *)
theory SysvIpc
  imports Ish_Prelude
begin

text \<open>
  What System V semaphores and message queues share (\<^verbatim>\<open>kernel/ipc.c\<close>, \<^verbatim>\<open>kernel/sysvipc.h\<close>,
  \<^verbatim>\<open>kernel/ipc_ns.h\<close>): permissions, the guest layouts of \<^verbatim>\<open>struct ipc_perm\<close>, and a namespace's list of
  objects, each with an id that is never used again and a key.
\<close>

section \<open>Permissions\<close>

record ipc_perm =
  ip_key :: u32
  ip_uid :: u32
  ip_gid :: u32
  ip_cuid :: u32
  ip_cgid :: u32
  ip_mode :: u32

text \<open>
  The caller: its ids, whether it has \<^verbatim>\<open>CAP_SYS_ADMIN\<close> over the namespace's user namespace, its
  thread group, its ABI, the clock, the id translations of its namespaces, its memory, and
  whether an allocation succeeds.
\<close>

record ipc_env =
  ie_euid :: u32
  ie_egid :: u32
  ie_capable :: bool
  ie_tid :: nat
  ie_tgid :: int
  ie_group :: nat
  ie_abi :: guest_abi
  ie_now :: int
  ie_make_kuid :: "u32 \<Rightarrow> u32"
  ie_make_kgid :: "u32 \<Rightarrow> u32"
  ie_uid_shown :: "u32 \<Rightarrow> u32"
  ie_gid_shown :: "u32 \<Rightarrow> u32"
  ie_pid_shown :: "int \<Rightarrow> int"
  ie_read :: guest_mem
  ie_writable :: "u64 \<Rightarrow> nat \<Rightarrow> bool"
  ie_alloc :: bool

abbreviation ie_64bit :: "('a) ipc_env_scheme \<Rightarrow> bool" where "ie_64bit env \<equiv> guest_abi_is_64bit (ie_abi env)"

definition ipc_granted :: "ipc_env \<Rightarrow> ipc_perm \<Rightarrow> u32" where
  "ipc_granted env p =
     (if ie_euid env = ip_uid p \<or> ie_euid env = ip_cuid p then drop_bit 6 (ip_mode p) AND 7
      else if ie_egid env = ip_gid p \<or> ie_egid env = ip_cgid p then drop_bit 3 (ip_mode p) AND 7
      else ip_mode p AND 7)"

definition ipc_access_ok :: "ipc_env \<Rightarrow> ipc_perm \<Rightarrow> u32 \<Rightarrow> bool" where
  "ipc_access_ok env p want \<longleftrightarrow> ie_capable env \<or> ipc_granted env p AND want = want"

definition ipc_owner_ok :: "ipc_env \<Rightarrow> ipc_perm \<Rightarrow> bool" where
  "ipc_owner_ok env p \<longleftrightarrow> ie_capable env \<or> ie_euid env = ip_uid p \<or> ie_euid env = ip_cuid p"

abbreviation IPC_CREAT :: u32 where "IPC_CREAT \<equiv> 0x200"
abbreviation IPC_EXCL :: u32 where "IPC_EXCL \<equiv> 0x400"
abbreviation IPC_NOWAIT :: u32 where "IPC_NOWAIT \<equiv> 0x800"
abbreviation IPC_64 :: u32 where "IPC_64 \<equiv> 0x100"
abbreviation IPC_RMID :: u32 where "IPC_RMID \<equiv> 0"
abbreviation IPC_SET :: u32 where "IPC_SET \<equiv> 1"
abbreviation IPC_STAT :: u32 where "IPC_STAT \<equiv> 2"
abbreviation IPC_INFO :: u32 where "IPC_INFO \<equiv> 3"
abbreviation USER_NS_INVALID_ID :: u32 where "USER_NS_INVALID_ID \<equiv> - 1"

definition new_perm :: "ipc_env \<Rightarrow> u32 \<Rightarrow> u32 \<Rightarrow> ipc_perm" where
  "new_perm env key flg = \<lparr>ip_key = key, ip_uid = ie_euid env, ip_gid = ie_egid env, ip_cuid = ie_euid env, ip_cgid = ie_egid env,
     ip_mode = flg AND 0x1FF\<rparr>"

section \<open>Layouts of struct ipc_perm\<close>

definition ipc_perm_size :: "bool \<Rightarrow> nat" where
  "ipc_perm_size is64 = (if is64 then 48 else 36)"

definition ipc_perm_write :: "ipc_env \<Rightarrow> ipc_perm \<Rightarrow> u8 list" where
  "ipc_perm_write env p =
     le_bytes 4 (ip_key p) @ le_bytes 4 (ie_uid_shown env (ip_uid p)) @ le_bytes 4 (ie_gid_shown env (ip_gid p)) @
     le_bytes 4 (ie_uid_shown env (ip_cuid p)) @ le_bytes 4 (ie_gid_shown env (ip_cgid p)) @
     (if ie_64bit env then le_bytes 2 (ip_mode p) @ replicate 26 0 else le_bytes 4 (ip_mode p) @ replicate 12 0)"

text \<open>What \<^verbatim>\<open>IPC_SET\<close> takes from it: the uid, the gid and the mode.\<close>

definition ipc_perm_read :: "bool \<Rightarrow> u8 list \<Rightarrow> u32 \<times> u32 \<times> u32" where
  "ipc_perm_read is64 bs = (of_nat (le_field 4 4 bs), of_nat (le_field 8 4 bs), of_nat (le_field 20 (if is64 then 2 else 4) bs))"

definition set_perm :: "ipc_env \<Rightarrow> u32 \<times> u32 \<times> u32 \<Rightarrow> ipc_perm \<Rightarrow> ipc_perm res" where
  "set_perm env req p =
     (case req of (uid, gid, mode) \<Rightarrow>
      let kuid = ie_make_kuid env uid; kgid = ie_make_kgid env gid in
      if kuid = USER_NS_INVALID_ID \<or> kgid = USER_NS_INVALID_ID then Inl EINVAL
      else Inr (p\<lparr>ip_uid := kuid, ip_gid := kgid, ip_mode := mode AND 0x1FF\<rparr>))"

section \<open>The objects of a namespace\<close>

text \<open>
  An object is changed through a pointer; as ids are not used twice this is the update of the
  object with that id. A removed object stays in the list until its last waiter has left.
\<close>

definition obj_update :: "('o \<Rightarrow> int) \<Rightarrow> int \<Rightarrow> ('o \<Rightarrow> 'o) \<Rightarrow> 'o list \<Rightarrow> 'o list" where
  "obj_update oid i f xs = map (\<lambda>x. if oid x = i then f x else x) xs"

definition obj_drop :: "('o \<Rightarrow> int) \<Rightarrow> int \<Rightarrow> 'o list \<Rightarrow> 'o list" where
  "obj_drop oid i xs = filter (\<lambda>x. oid x \<noteq> i) xs"

definition obj_at :: "('o \<Rightarrow> int) \<Rightarrow> int \<Rightarrow> 'o list \<Rightarrow> 'o option" where
  "obj_at oid i xs = find (\<lambda>x. oid x = i) xs"

lemma find_SomeD: "find P xs = Some x \<Longrightarrow> x \<in> set xs \<and> P x"
  by (auto simp: find_Some_iff)

lemma find_unique:
  assumes "x \<in> set xs" and "P x" and "\<And>y. y \<in> set xs \<Longrightarrow> P y \<Longrightarrow> y = x"
  shows "find P xs = Some x"
proof (cases "find P xs")
  case None
  then show ?thesis using assms(1,2) by (auto simp: find_None_iff)
next
  case (Some y)
  then show ?thesis using assms(3) [of y] find_SomeD [OF Some] by simp
qed

lemma obj_at_map:
  "(\<And>x. x \<in> set xs \<Longrightarrow> oid (g x) = oid x) \<Longrightarrow> obj_at oid j (map g xs) = map_option g (obj_at oid j xs)"
  by (induction xs) (simp_all add: obj_at_def)

text \<open>
  The contract of such a list: ids are distinct and below the next one, and no two objects
  in use have the same key (\<^verbatim>\<open>IPC_PRIVATE\<close> apart).
\<close>

locale ipc_objects =
  fixes oid :: "'o \<Rightarrow> int" and okey :: "'o \<Rightarrow> u32" and removed :: "'o \<Rightarrow> bool"
    and by_id :: "'o list \<Rightarrow> int \<Rightarrow> 'o option" and by_key :: "'o list \<Rightarrow> u32 \<Rightarrow> 'o option"
  assumes by_id: "by_id xs i = find (\<lambda>x. \<not> removed x \<and> oid x = i) xs"
    and by_key: "by_key xs k = find (\<lambda>x. \<not> removed x \<and> okey x = k) xs"
begin

definition table_ok :: "'o list \<Rightarrow> int \<Rightarrow> bool" where
  "table_ok xs nxt \<longleftrightarrow> distinct (map oid xs) \<and> (\<forall>x \<in> set xs. oid x < nxt) \<and>
     (\<forall>x \<in> set xs. \<forall>y \<in> set xs. \<not> removed x \<and> \<not> removed y \<and> okey x \<noteq> 0 \<and> okey x = okey y \<longrightarrow> oid x = oid y)"

lemma table_unique: "table_ok xs n \<Longrightarrow> x \<in> set xs \<Longrightarrow> y \<in> set xs \<Longrightarrow> oid x = oid y \<Longrightarrow> x = y"
  unfolding table_ok_def by (metis inj_on_contraD distinct_map)

lemma by_id_iff: "table_ok xs n \<Longrightarrow> by_id xs i = Some x \<longleftrightarrow> x \<in> set xs \<and> oid x = i \<and> \<not> removed x"
  unfolding by_id by (rule iffI, blast dest: find_SomeD, rule find_unique) (auto dest: table_unique)

lemma at_iff: "table_ok xs n \<Longrightarrow> obj_at oid i xs = Some x \<longleftrightarrow> x \<in> set xs \<and> oid x = i"
  unfolding obj_at_def by (rule iffI, blast dest: find_SomeD, rule find_unique) (auto dest: table_unique)

lemma by_id_at: "table_ok xs n \<Longrightarrow> by_id xs i = Some x \<longleftrightarrow> obj_at oid i xs = Some x \<and> \<not> removed x"
  by (auto simp: by_id_iff at_iff)

text \<open>An update that keeps id and key and never brings an object back.\<close>

lemma update_set:
  assumes "table_ok xs n" and "obj_at oid i xs = Some s"
  shows "set (obj_update oid i f xs) = insert (f s) {x \<in> set xs. oid x \<noteq> i}"
proof -
  have "{x \<in> set xs. oid x = i} = {s}" using assms(2) unfolding set_eq_iff at_iff [OF assms(1), symmetric] mem_Collect_eq by auto
  moreover have "set (obj_update oid i f xs) = f ` {x \<in> set xs. oid x = i} \<union> {x \<in> set xs. oid x \<noteq> i}"
    by (auto simp: obj_update_def)
  ultimately show ?thesis by simp
qed

lemma update_same:
  assumes "table_ok xs n" and "obj_at oid i xs = Some s" and "f s = s"
  shows "obj_update oid i f xs = xs"
  unfolding obj_update_def
proof (rule map_idI)
  fix x assume "x \<in> set xs"
  then have "oid x = i \<Longrightarrow> x = s" using at_iff [OF assms(1), of i x] assms(2) by simp
  then show "(if oid x = i then f x else x) = x" using assms(3) by auto
qed

lemma table_update:
  assumes ok: "table_ok xs n" and s: "obj_at oid i xs = Some s"
    and f: "oid (f s) = i" "okey (f s) = okey s" "removed s \<Longrightarrow> removed (f s)"
  shows "table_ok (obj_update oid i f xs) n"
proof -
  let ?ys = "obj_update oid i f xs"
  have s': "s \<in> set xs" "oid s = i" using s at_iff [OF ok] by auto
  have "oid (if oid x = i then f x else x) = oid x" if "x \<in> set xs" for x
    using that f(1) s at_iff [OF ok, of i x] by auto
  then have m: "map oid ?ys = map oid xs" by (simp add: obj_update_def)
  then have d: "distinct (map oid ?ys)" using ok by (simp add: table_ok_def)
  have pre: "\<exists>z' \<in> set xs. oid z' = oid z \<and> okey z' = okey z \<and> (removed z' \<longrightarrow> removed z)" if "z \<in> set ?ys" for z
  proof (cases "z = f s")
    case True
    with f s' show ?thesis by (intro bexI [of _ s]) simp_all
  qed (use that in \<open>auto simp: update_set [OF ok s]\<close>)
  have lt: "oid z < n" if "z \<in> set ?ys" for z using pre [OF that] ok unfolding table_ok_def by auto
  have "oid x = oid y" if "x \<in> set ?ys" "y \<in> set ?ys" "\<not> removed x \<and> \<not> removed y \<and> okey x \<noteq> 0 \<and> okey x = okey y" for x y
  proof -
    from pre [OF that(1)] pre [OF that(2)] obtain x' y' where
      "x' \<in> set xs" "oid x' = oid x" "okey x' = okey x" "removed x' \<longrightarrow> removed x"
      "y' \<in> set xs" "oid y' = oid y" "okey y' = okey y" "removed y' \<longrightarrow> removed y" by blast
    with that(3) ok show ?thesis unfolding table_ok_def by metis
  qed
  with d lt show ?thesis unfolding table_ok_def by (intro conjI ballI impI)
qed

lemma at_update:
  assumes ok: "table_ok xs n" and s: "obj_at oid i xs = Some s" and f: "oid (f s) = i"
  shows "obj_at oid j (obj_update oid i f xs) = (if j = i then Some (f s) else obj_at oid j xs)"
proof -
  have "oid (if oid x = i then f x else x) = oid x" if "x \<in> set xs" for x using that f s at_iff [OF ok, of i x] by auto
  then have "obj_at oid j (obj_update oid i f xs) = map_option (\<lambda>x. if oid x = i then f x else x) (obj_at oid j xs)"
    unfolding obj_update_def by (rule obj_at_map)
  moreover have "oid a = j" if "obj_at oid j xs = Some a" for a using that at_iff [OF ok] by blast
  ultimately show ?thesis using s by (cases "j = i"; cases "obj_at oid j xs") auto
qed

lemma table_drop: "table_ok xs n \<Longrightarrow> table_ok (obj_drop oid i xs) n"
  unfolding table_ok_def obj_drop_def by (auto simp: distinct_map intro: inj_on_subset)

lemma table_add:
  assumes ok: "table_ok xs n" and id: "oid x = n" and key: "okey x = 0 \<or> by_key xs (okey x) = None"
  shows "table_ok (xs @ [x]) (n + 1)"
proof -
  have k: "okey x = 0 \<or> removed y \<or> okey y \<noteq> okey x" if "y \<in> set xs" for y using key that by (auto simp: by_key find_None_iff)
  have lt: "oid y < n" if "y \<in> set xs" for y using ok that by (simp add: table_ok_def)
  have "n \<notin> oid ` set xs" using lt by (metis imageE less_irrefl)
  then have d: "distinct (map oid (xs @ [x]))" using ok id by (simp add: table_ok_def)
  have same: "oid y = oid z" if "y \<in> set xs" "z \<in> set xs" "\<not> removed y" "\<not> removed z" "okey y \<noteq> 0" "okey y = okey z" for y z
    using ok that unfolding table_ok_def by blast
  have "oid y = oid z" if "y = x \<or> y \<in> set xs" "z = x \<or> z \<in> set xs" "\<not> removed y" "\<not> removed z" "okey y \<noteq> 0" "okey y = okey z" for y z
    using that(1,2)
  proof (elim disjE)
    assume "y = x" "z \<in> set xs"
    with k [of z] that show ?thesis by simp
  next
    assume "y \<in> set xs" "z = x"
    with k [of y] that show ?thesis by simp
  next
    assume "y \<in> set xs" "z \<in> set xs"
    then show ?thesis by (rule same) (fact that)+
  qed simp
  then have u: "\<forall>y \<in> set (xs @ [x]). \<forall>z \<in> set (xs @ [x]). \<not> removed y \<and> \<not> removed z \<and> okey y \<noteq> 0 \<and> okey y = okey z \<longrightarrow> oid y = oid z"
    unfolding set_append list.set by blast
  have "oid y < n + 1" if "y \<in> set (xs @ [x])" for y using that id lt [of y] by auto
  then have "\<forall>y \<in> set (xs @ [x]). oid y < n + 1" ..
  with d u show ?thesis unfolding table_ok_def by (intro conjI)
qed

lemma at_drop: "obj_at oid j (obj_drop oid i xs) = (if j = i then None else obj_at oid j xs)"
  by (induction xs) (auto simp: obj_at_def obj_drop_def)

lemma at_add: "obj_at oid j (xs @ [x]) = (case obj_at oid j xs of None \<Rightarrow> if oid x = j then Some x else None | Some y \<Rightarrow> Some y)"
  by (induction xs) (auto simp: obj_at_def)

lemma at_fresh: "table_ok xs n \<Longrightarrow> obj_at oid n xs = None"
  by (auto simp: table_ok_def obj_at_def find_None_iff)

end

section \<open>Objects that tasks wait on\<close>

text \<open>The tasks asleep on an object; \<open>on\<close> is the id of the object a task sleeps on.\<close>

definition on_obj :: "('w \<Rightarrow> int) \<Rightarrow> int \<Rightarrow> 'w list \<Rightarrow> 'w list" where
  "on_obj on i W = filter (\<lambda>w. on w = i) W"

lemma on_obj_remove:
  assumes "k < length W"
  shows "on_obj on j W = on_obj on j (take k W) @ (if on (W ! k) = j then [W ! k] else []) @ on_obj on j (drop (Suc k) W)"
    and "on (W ! k) \<noteq> j \<Longrightarrow> on_obj on j (take k W @ drop (Suc k) W) = on_obj on j W"
proof -
  have "on_obj on j (take k W @ W ! k # drop (Suc k) W) = on_obj on j (take k W) @ (if on (W ! k) = j then [W ! k] else []) @ on_obj on j (drop (Suc k) W)"
    by (simp add: on_obj_def)
  then show eq: "on_obj on j W = on_obj on j (take k W) @ (if on (W ! k) = j then [W ! k] else []) @ on_obj on j (drop (Suc k) W)"
    unfolding id_take_nth_drop [OF assms, symmetric] .
  show "on_obj on j (take k W @ drop (Suc k) W) = on_obj on j W" if "on (W ! k) \<noteq> j"
    unfolding eq using that by (simp add: on_obj_def)
qed

text \<open>
  \<open>oinv x Ws\<close> is the invariant of one object with the tasks asleep on it, which the object counts.
  \<open>ns_ok X\<close>: it holds of every object, every task sleeps on an object that is there, and a removed
  object is kept only while a task sleeps on it; \<open>X\<close> are objects about to be freed.
\<close>

locale ipc_waited = ipc_objects oid okey removed by_id by_key
  for oid :: "'o \<Rightarrow> int" and okey :: "'o \<Rightarrow> u32" and removed :: "'o \<Rightarrow> bool"
    and by_id :: "'o list \<Rightarrow> int \<Rightarrow> 'o option" and by_key :: "'o list \<Rightarrow> u32 \<Rightarrow> 'o option" +
  fixes waiters :: "'o \<Rightarrow> nat" and on :: "'w \<Rightarrow> int" and oinv :: "'o \<Rightarrow> 'w list \<Rightarrow> bool"
  assumes waiters: "oinv x Ws \<Longrightarrow> waiters x = length Ws"
begin

definition ns_ok :: "int set \<Rightarrow> 'o list \<Rightarrow> int \<Rightarrow> 'w list \<Rightarrow> bool" where
  "ns_ok X xs n W \<longleftrightarrow> table_ok xs n \<and>
     (\<forall>i x. obj_at oid i xs = Some x \<longrightarrow> oinv x (on_obj on i W) \<and> (removed x \<longrightarrow> waiters x \<noteq> 0 \<or> i \<in> X)) \<and>
     (\<forall>w \<in> set W. obj_at oid (on w) xs \<noteq> None)"

lemma ns_okD:
  assumes "ns_ok X xs n W"
  shows "table_ok xs n"
    and "obj_at oid i xs = Some x \<Longrightarrow> oinv x (on_obj on i W)"
    and "obj_at oid i xs = Some x \<Longrightarrow> removed x \<Longrightarrow> waiters x \<noteq> 0 \<or> i \<in> X"
    and "w \<in> set W \<Longrightarrow> \<exists>x. obj_at oid (on w) xs = Some x"
  using assms by (auto simp: ns_ok_def)

lemma ns_by_id: "ns_ok X xs n W \<Longrightarrow> by_id xs i = Some x \<longleftrightarrow> obj_at oid i xs = Some x \<and> \<not> removed x"
  by (rule by_id_at [OF ns_okD(1)])

lemma ns_oid: "ns_ok X xs n W \<Longrightarrow> obj_at oid i xs = Some x \<Longrightarrow> oid x = i"
  using at_iff [OF ns_okD(1)] by blast

lemma ns_empty: "ns_ok X [] n []"
  by (simp add: ns_ok_def table_ok_def obj_at_def)

text \<open>One object changes, with the tasks asleep on it.\<close>

lemma ns_change:
  assumes "ns_ok X xs n W" and s: "obj_at oid i xs = Some s"
    and f: "oid (f s) = i" "okey (f s) = okey s" "removed s \<Longrightarrow> removed (f s)"
    and inv: "oinv (f s) (on_obj on i W')" and W: "\<And>j. j \<noteq> i \<Longrightarrow> on_obj on j W' = on_obj on j W"
    and X: "removed (f s) \<Longrightarrow> waiters (f s) \<noteq> 0 \<or> i \<in> Y" "X \<subseteq> insert i Y"
  shows "ns_ok Y (obj_update oid i f xs) n W'"
proof -
  note t = ns_okD(1) [OF assms(1)]
  note at = at_update [where f = f, OF t s f(1)]
  have "obj_at oid (on w) (obj_update oid i f xs) \<noteq> None" if "w \<in> set W'" for w
  proof (cases "on w = i")
    case False
    have "w \<in> set (on_obj on (on w) W')" using that by (simp add: on_obj_def)
    then have "w \<in> set (on_obj on (on w) W)" by (simp only: W [OF False])
    then have "w \<in> set W" by (simp add: on_obj_def)
    from ns_okD(4) [OF assms(1) this] show ?thesis using False by (auto simp: at)
  qed (simp add: at)
  moreover have "oinv u (on_obj on j W') \<and> (removed u \<longrightarrow> waiters u \<noteq> 0 \<or> j \<in> Y)"
    if "obj_at oid j (obj_update oid i f xs) = Some u" for j u
  proof (cases "j = i")
    case False
    then show ?thesis using that ns_okD(2,3) [OF assms(1), of j u] X(2) W by (auto simp: at)
  qed (use that inv X(1) in \<open>auto simp: at\<close>)
  ultimately show ?thesis using table_update [where f = f, OF t s f] by (simp add: ns_ok_def)
qed

lemma ns_add:
  assumes "ns_ok X xs n W" and "oid x = n" and "okey x = 0 \<or> by_key xs (okey x) = None" and "oinv x []" and "\<not> removed x"
  shows "ns_ok X (xs @ [x]) (n + 1) W"
proof -
  note t = ns_okD(1) [OF assms(1)]
  have none: "obj_at oid n xs = None" by (rule at_fresh [OF t])
  then have "on_obj on n W = []" using ns_okD(4) [OF assms(1)] by (fastforce simp: on_obj_def filter_empty_conv)
  then show ?thesis using assms none table_add [OF t assms(2,3)] unfolding ns_ok_def by (auto simp: at_add split: option.splits if_splits)
qed

text \<open>A removed object without waiters is freed.\<close>

lemma ns_free:
  assumes "ns_ok (insert i X) xs n W"
  shows "ns_ok X (case obj_at oid i xs of None \<Rightarrow> xs | Some x \<Rightarrow> if \<not> removed x \<or> waiters x \<noteq> 0 then xs else obj_drop oid i xs) n W"
proof (cases "obj_at oid i xs")
  case None
  then have "j \<noteq> i" if "obj_at oid j xs = Some t" for j t using that by auto
  then show ?thesis using assms None unfolding ns_ok_def by simp
next
  case (Some s)
  show ?thesis
  proof (cases "\<not> removed s \<or> waiters s \<noteq> 0")
    case True
    then have "removed t \<longrightarrow> waiters t \<noteq> 0 \<or> j \<in> X" if "obj_at oid j xs = Some t" for j t
      using ns_okD(3) [OF assms that] that Some by auto
    then have "ns_ok X xs n W" using assms unfolding ns_ok_def by blast
    then show ?thesis using True Some by simp
  next
    case False
    have "on_obj on i W = []" using waiters [OF ns_okD(2) [OF assms Some]] False by simp
    then have "on w \<noteq> i" if "w \<in> set W" for w using that by (auto simp: on_obj_def filter_empty_conv)
    then have "ns_ok X (obj_drop oid i xs) n W" using assms table_drop unfolding ns_ok_def by (auto simp: at_drop split: if_splits)
    then show ?thesis using False Some by simp
  qed
qed

lemma ns_live: "ns_ok X xs n W \<Longrightarrow> obj_at oid i xs = Some s \<Longrightarrow> \<not> removed s \<Longrightarrow> X \<subseteq> {i} \<Longrightarrow> ns_ok {} xs n W"
  unfolding ns_ok_def by (metis empty_iff option.inject singletonD subsetD)

text \<open>A task stops waiting on its object; \<open>f\<close> takes it out of the object's counts.\<close>

lemma ns_unsleep:
  assumes inv: "ns_ok {} xs n W" and k: "k < length W" and s: "obj_at oid (on (W ! k)) xs = Some s"
    and f: "oid (f s) = oid s" "okey (f s) = okey s" "removed (f s) = removed s"
    and oinv: "\<And>As Bs. oinv s (As @ W ! k # Bs) \<Longrightarrow> oinv (f s) (As @ Bs)"
  shows "ns_ok {on (W ! k)} (obj_update oid (on (W ! k)) f xs) n (take k W @ drop (Suc k) W)"
proof -
  let ?i = "on (W ! k)"
  have "on_obj on ?i W = on_obj on ?i (take k W) @ W ! k # on_obj on ?i (drop (Suc k) W)" using on_obj_remove(1) [OF k, of on ?i] by simp
  then have "oinv (f s) (on_obj on ?i (take k W) @ on_obj on ?i (drop (Suc k) W))" using ns_okD(2) [OF inv s] by (intro oinv) simp
  then show ?thesis using on_obj_remove(2) [OF k, of on] ns_oid [OF inv s] f
    by (intro ns_change [OF inv s]) (auto simp: on_obj_def)
qed

end

end
