(* ===== verification/SysvSem.thy ===== *)
theory SysvSem
  imports SysvIpc
begin

text \<open>
  \<^verbatim>\<open>kernel/sysvsem.c\<close>: System V semaphores. Every call runs under the namespace's lock and is one step;
  \<^verbatim>\<open>semop\<close> that must wait ends its step asleep and goes on in another step when it is woken, when its
  time is up or when a signal arrives. The values are 16-bit words as in the source.
\<close>

section \<open>State\<close>

record sem_entry =
  se_val :: u16
  se_last_pid :: int
  se_ncnt :: nat
  se_zcnt :: nat

record sem_undo =
  un_group :: nat
  un_adj :: "u16 list"

record sem_set =
  ss_id :: int
  ss_perm :: ipc_perm
  ss_nsems :: nat
  ss_otime :: int
  ss_ctime :: int
  ss_removed :: bool
  ss_waiters :: nat
  ss_sems :: "sem_entry list"
  ss_undos :: "sem_undo list"

record sembuf =
  sb_num :: u16
  sb_op :: u16
  sb_flg :: u16

text \<open>A task asleep in \<^verbatim>\<open>semop\<close>: the set it holds on to, its operations and the one that blocks.\<close>

record sem_sleeper =
  zl_env :: ipc_env
  zl_set :: int
  zl_sops :: "sembuf list"
  zl_blocked :: nat
  zl_deadline :: "int option"
  zl_woken :: bool

record sem_ns =
  sn_sets :: "sem_set list"
  sn_next_id :: int
  sn_sleepers :: "sem_sleeper list"

abbreviation SEMMSL :: int where "SEMMSL \<equiv> 32000"
abbreviation SEMVMX :: int where "SEMVMX \<equiv> 32767"
abbreviation SEMOPM :: nat where "SEMOPM \<equiv> 500"
abbreviation SEM_UNDO :: u16 where "SEM_UNDO \<equiv> 0x1000"

definition sem_find_by_key :: "sem_set list \<Rightarrow> u32 \<Rightarrow> sem_set option" where
  "sem_find_by_key sets key = find (\<lambda>s. \<not> ss_removed s \<and> ip_key (ss_perm s) = key) sets"

definition sem_find_by_id :: "sem_set list \<Rightarrow> int \<Rightarrow> sem_set option" where
  "sem_find_by_id sets i = find (\<lambda>s. \<not> ss_removed s \<and> ss_id s = i) sets"

definition sem_update :: "sem_ns \<Rightarrow> int \<Rightarrow> (sem_set \<Rightarrow> sem_set) \<Rightarrow> sem_ns" where
  "sem_update ns i f = ns\<lparr>sn_sets := obj_update ss_id i f (sn_sets ns)\<rparr>"

text \<open>\<^verbatim>\<open>notify(&set->cond)\<close> wakes every task asleep on the set.\<close>

definition sem_notify :: "int \<Rightarrow> sem_ns \<Rightarrow> sem_ns" where
  "sem_notify i ns = ns\<lparr>sn_sleepers := map (\<lambda>w. if zl_set w = i then w\<lparr>zl_woken := True\<rparr> else w) (sn_sleepers ns)\<rparr>"

definition sem_set_maybe_free :: "int \<Rightarrow> sem_ns \<Rightarrow> sem_ns" where
  "sem_set_maybe_free i ns =
     (case obj_at ss_id i (sn_sets ns) of None \<Rightarrow> ns
      | Some s \<Rightarrow> if \<not> ss_removed s \<or> ss_waiters s \<noteq> 0 then ns else ns\<lparr>sn_sets := obj_drop ss_id i (sn_sets ns)\<rparr>)"

section \<open>semget\<close>

definition sys_semget :: "sem_ns \<Rightarrow> ipc_env \<Rightarrow> u32 \<Rightarrow> int \<Rightarrow> u32 \<Rightarrow> sem_ns \<times> int res" where
  "sys_semget ns env key nsems flg =
     (if nsems < 0 \<or> nsems > SEMMSL then (ns, Inl EINVAL)
      else (case (if key = 0 then None else sem_find_by_key (sn_sets ns) key) of
          Some s \<Rightarrow>
            if flg AND IPC_CREAT \<noteq> 0 \<and> flg AND IPC_EXCL \<noteq> 0 then (ns, Inl EEXIST)
            else if nsems \<noteq> 0 \<and> nsems > int (ss_nsems s) then (ns, Inl EINVAL)
            else (ns, Inr (ss_id s))
        | None \<Rightarrow>
            if flg AND IPC_CREAT = 0 \<and> key \<noteq> 0 then (ns, Inl ENOENT)
            else if nsems = 0 then (ns, Inl EINVAL)
            else if \<not> ie_alloc env then (ns, Inl ENOMEM)
            else (ns\<lparr>sn_sets := sn_sets ns @ [\<lparr>ss_id = sn_next_id ns, ss_perm = new_perm env key flg, ss_nsems = nat nsems,
                       ss_otime = 0, ss_ctime = ie_now env, ss_removed = False, ss_waiters = 0,
                       ss_sems = replicate (nat nsems) \<lparr>se_val = 0, se_last_pid = 0, se_ncnt = 0, se_zcnt = 0\<rparr>, ss_undos = []\<rparr>],
                     sn_next_id := sn_next_id ns + 1\<rparr>, Inr (sn_next_id ns))))"

section \<open>semop\<close>

definition sem_undo_get :: "ipc_env \<Rightarrow> sem_set \<Rightarrow> sem_set \<times> bool" where
  "sem_undo_get env s =
     (if \<exists>u \<in> set (ss_undos s). un_group u = ie_group env then (s, True)
      else if \<not> ie_alloc env then (s, False)
      else (s\<lparr>ss_undos := ss_undos s @ [\<lparr>un_group = ie_group env, un_adj = replicate (ss_nsems s) 0\<rparr>]\<rparr>, True))"

definition undo_adjust :: "nat \<Rightarrow> nat \<Rightarrow> u16 \<Rightarrow> sem_undo list \<Rightarrow> sem_undo list" where
  "undo_adjust g n opr us = map (\<lambda>u. if un_group u = g then u\<lparr>un_adj := (un_adj u)[n := un_adj u ! n - opr]\<rparr> else u) us"

datatype sem_try = TryDone | TryBlocked nat | TryRange nat

definition se_add :: "u16 \<Rightarrow> sem_entry \<Rightarrow> sem_entry" where
  "se_add v e = e\<lparr>se_val := se_val e + v\<rparr>"

definition sem_bump :: "nat \<Rightarrow> u16 \<Rightarrow> sem_entry list \<Rightarrow> sem_entry list" where
  "sem_bump n v sems = sems[n := se_add v (sems ! n)]"

text \<open>The loop that applies the array, and the one that takes back what was applied.\<close>

fun semop_try :: "sem_entry list \<Rightarrow> sembuf list \<Rightarrow> nat \<Rightarrow> sem_entry list \<times> sem_try" where
  "semop_try sems [] i = (sems, TryDone)"
| "semop_try sems (b # bs) i =
     (let n = unat (sb_num b); val = int (unat (se_val (sems ! n))); opr = sint (sb_op b);
          sems' = sem_bump n (sb_op b) sems in
      if opr > 0 then (if val + opr > SEMVMX then (sems, TryRange i) else semop_try sems' bs (i + 1))
      else if opr = 0 then (if val \<noteq> 0 then (sems, TryBlocked i) else semop_try sems bs (i + 1))
      else if val < - opr then (sems, TryBlocked i)
      else semop_try sems' bs (i + 1))"

definition semop_rollback :: "sem_entry list \<Rightarrow> sembuf list \<Rightarrow> sem_entry list" where
  "semop_rollback sems bs = foldl (\<lambda>sems b. sem_bump (unat (sb_num b)) (- sb_op b) sems) sems bs"

text \<open>Success: pids and undo adjustments.\<close>

definition semop_record :: "ipc_env \<Rightarrow> sem_set \<Rightarrow> sembuf \<Rightarrow> sem_set" where
  "semop_record env s b =
     (let n = unat (sb_num b); s1 = s\<lparr>ss_sems := (ss_sems s)[n := (ss_sems s ! n)\<lparr>se_last_pid := ie_tgid env\<rparr>]\<rparr> in
      if sb_flg b AND SEM_UNDO \<noteq> 0 \<and> sb_op b \<noteq> 0 then
        (case sem_undo_get env s1 of (s2, found) \<Rightarrow>
           if found then s2\<lparr>ss_undos := undo_adjust (ie_group env) n (sb_op b) (ss_undos s2)\<rparr> else s2)
      else s1)"

definition semop_finish :: "ipc_env \<Rightarrow> sembuf list \<Rightarrow> sem_set \<Rightarrow> sem_set" where
  "semop_finish env bs s = (foldl (semop_record env) s bs)\<lparr>ss_otime := ie_now env\<rparr>"

text \<open>The counters of waiting tasks, per semaphore and of the set.\<close>

definition sem_count :: "(nat \<Rightarrow> nat) \<Rightarrow> sembuf \<Rightarrow> sem_set \<Rightarrow> sem_set" where
  "sem_count f b s =
     (let n = unat (sb_num b); e = ss_sems s ! n in
      s\<lparr>ss_waiters := f (ss_waiters s),
        ss_sems := (ss_sems s)[n := if sb_op b = 0 then e\<lparr>se_zcnt := f (se_zcnt e)\<rparr> else e\<lparr>se_ncnt := f (se_ncnt e)\<rparr>]\<rparr>)"

datatype sem_out = SemDone "int res" | SemSleep

definition expired :: "int \<Rightarrow> int option \<Rightarrow> bool" where
  "expired clk deadline = (case deadline of None \<Rightarrow> False | Some d \<Rightarrow> d - clk \<le> 0)"

text \<open>One turn of the loop of \<^verbatim>\<open>semop_common\<close> on the set \<open>i\<close>; \<open>clk\<close> is the monotonic clock.\<close>

definition semop_round :: "sem_ns \<Rightarrow> ipc_env \<Rightarrow> int \<Rightarrow> int \<Rightarrow> sembuf list \<Rightarrow> int option \<Rightarrow> sem_ns \<times> sem_out" where
  "semop_round ns env clk i bs deadline =
     (case obj_at ss_id i (sn_sets ns) of
        None \<Rightarrow> (ns, SemDone (Inl EINVAL))
      | Some s \<Rightarrow>
          (case semop_try (ss_sems s) bs 0 of
             (sems, TryRange k) \<Rightarrow>
               (sem_update ns i (\<lambda>s. s\<lparr>ss_sems := semop_rollback sems (take k bs)\<rparr>), SemDone (Inl ERANGE))
           | (sems, TryDone) \<Rightarrow>
               (sem_notify i (sem_update ns i (\<lambda>s. semop_finish env bs (s\<lparr>ss_sems := sems\<rparr>))), SemDone (Inr 0))
           | (sems, TryBlocked k) \<Rightarrow>
               let back = (\<lambda>s. s\<lparr>ss_sems := semop_rollback sems (take k bs)\<rparr>) in
               if sb_flg (bs ! k) AND 0x800 \<noteq> 0 then (sem_update ns i back, SemDone (Inl EAGAIN))
               else if expired clk deadline then (sem_update ns i back, SemDone (Inl EAGAIN))
               else ((sem_update ns i (\<lambda>s. sem_count Suc (bs ! k) (back s)))\<lparr>sn_sleepers :=
                       sn_sleepers ns @ [\<lparr>zl_env = env, zl_set = i, zl_sops = bs, zl_blocked = k, zl_deadline = deadline, zl_woken = False\<rparr>]\<rparr>,
                     SemSleep)))"

definition decode_sembuf :: "u8 list \<Rightarrow> sembuf" where
  "decode_sembuf bs = \<lparr>sb_num = of_nat (le_field 0 2 bs), sb_op = of_nat (le_field 2 2 bs), sb_flg = of_nat (le_field 4 2 bs)\<rparr>"

definition decode_sops :: "nat \<Rightarrow> u8 list \<Rightarrow> sembuf list" where
  "decode_sops n bs = map (\<lambda>i. decode_sembuf (take 6 (drop (6 * i) bs))) [0..<n]"

definition semop_common :: "sem_ns \<Rightarrow> ipc_env \<Rightarrow> int \<Rightarrow> int \<Rightarrow> u64 \<Rightarrow> nat \<Rightarrow> int option \<Rightarrow> sem_ns \<times> sem_out" where
  "semop_common ns env clk semid addr nsops deadline =
     (if nsops = 0 then (ns, SemDone (Inl EINVAL))
      else if nsops > SEMOPM then (ns, SemDone (Inl E2BIG))
      else (case ie_read env addr (6 * nsops) of
          None \<Rightarrow> (ns, SemDone (Inl EFAULT))
        | Some bytes \<Rightarrow>
            let sops = decode_sops nsops bytes in
            (case sem_find_by_id (sn_sets ns) semid of
               None \<Rightarrow> (ns, SemDone (Inl EINVAL))
             | Some s \<Rightarrow>
                 if \<not> ipc_access_ok env (ss_perm s) 2 then (ns, SemDone (Inl EACCES))
                 else if \<exists>b \<in> set sops. unat (sb_num b) \<ge> ss_nsems s then (ns, SemDone (Inl EFBIG))
                 else semop_round ns env clk semid sops deadline)))"

text \<open>The end of a wait: a wake-up or the end of the time allowed, or a signal.\<close>

definition sem_wake :: "sem_ns \<Rightarrow> nat \<Rightarrow> bool \<Rightarrow> int \<Rightarrow> sem_ns \<times> sem_out" where
  "sem_wake ns k interrupted clk =
     (let w = sn_sleepers ns ! k; i = zl_set w;
          ns1 = (sem_update ns i (sem_count (\<lambda>n. n - 1) (zl_sops w ! zl_blocked w)))
            \<lparr>sn_sleepers := take k (sn_sleepers ns) @ drop (Suc k) (sn_sleepers ns)\<rparr> in
      case obj_at ss_id i (sn_sets ns1) of
        None \<Rightarrow> (ns1, SemDone (Inl EIDRM))
      | Some s \<Rightarrow>
          if ss_removed s then (sem_set_maybe_free i ns1, SemDone (Inl EIDRM))
          else if interrupted then (ns1, SemDone (Inl EINTR))
          else semop_round ns1 (zl_env w) clk i (zl_sops w) (zl_deadline w))"

definition sys_semop :: "sem_ns \<Rightarrow> ipc_env \<Rightarrow> int \<Rightarrow> int \<Rightarrow> u64 \<Rightarrow> nat \<Rightarrow> sem_ns \<times> sem_out" where
  "sys_semop ns env clk semid addr nsops = semop_common ns env clk semid addr nsops None"

text \<open>\<open>timeout\<close> is what the guest's \<^verbatim>\<open>timespec\<close> reads as, seconds and nanoseconds.\<close>

definition sys_semtimedop :: "sem_ns \<Rightarrow> ipc_env \<Rightarrow> int \<Rightarrow> (int \<times> int) option \<Rightarrow> int \<Rightarrow> u64 \<Rightarrow> nat \<Rightarrow> u64 \<Rightarrow> sem_ns \<times> sem_out" where
  "sys_semtimedop ns env clk timeout semid addr nsops timeout_addr =
     (if timeout_addr = 0 then semop_common ns env clk semid addr nsops None
      else (case timeout of
          None \<Rightarrow> (ns, SemDone (Inl EFAULT))
        | Some (sec, nsec) \<Rightarrow>
            if sec < 0 \<or> nsec < 0 \<or> nsec \<ge> 1000000000 then (ns, SemDone (Inl EINVAL))
            else semop_common ns env clk semid addr nsops (Some (clk + sec * 1000000000 + nsec))))"

section \<open>semctl\<close>

abbreviation SEM_STAT :: u32 where "SEM_STAT \<equiv> 18"
abbreviation SEM_STAT_ANY :: u32 where "SEM_STAT_ANY \<equiv> 20"
abbreviation GETPID :: u32 where "GETPID \<equiv> 11"
abbreviation GETVAL :: u32 where "GETVAL \<equiv> 12"
abbreviation GETALL :: u32 where "GETALL \<equiv> 13"
abbreviation GETNCNT :: u32 where "GETNCNT \<equiv> 14"
abbreviation GETZCNT :: u32 where "GETZCNT \<equiv> 15"
abbreviation SETVAL :: u32 where "SETVAL \<equiv> 16"
abbreviation SETALL :: u32 where "SETALL \<equiv> 17"

text \<open>A result, and what is written to the guest.\<close>

type_synonym ctl_out = "int res \<times> (u64 \<times> u8 list) option"

definition semctl_rmid :: "sem_ns \<Rightarrow> ipc_env \<Rightarrow> sem_set \<Rightarrow> sem_ns \<times> ctl_out" where
  "semctl_rmid ns env s =
     (if \<not> ipc_owner_ok env (ss_perm s) then (ns, Inl EPERM, None)
      else (sem_set_maybe_free (ss_id s) (sem_notify (ss_id s) (sem_update ns (ss_id s) (\<lambda>s. s\<lparr>ss_removed := True\<rparr>))), Inr 0, None))"

definition semctl_get :: "ipc_env \<Rightarrow> sem_set \<Rightarrow> int \<Rightarrow> u32 \<Rightarrow> int res" where
  "semctl_get env s semnum cmd =
     (if semnum < 0 \<or> semnum \<ge> int (ss_nsems s) then Inl EINVAL
      else let e = ss_sems s ! nat semnum in
        Inr (if cmd = GETVAL then int (unat (se_val e)) else if cmd = GETPID then ie_pid_shown env (se_last_pid e)
             else if cmd = GETNCNT then int (se_ncnt e) else int (se_zcnt e)))"

definition semctl_setval :: "sem_ns \<Rightarrow> ipc_env \<Rightarrow> sem_set \<Rightarrow> int \<Rightarrow> u64 \<Rightarrow> sem_ns \<times> ctl_out" where
  "semctl_setval ns env s semnum arg =
     (if semnum < 0 \<or> semnum \<ge> int (ss_nsems s) then (ns, Inl EINVAL, None)
      else let val = sint (ucast arg :: u32); n = nat semnum in
        if val < 0 \<or> val > SEMVMX then (ns, Inl ERANGE, None)
        else (sem_notify (ss_id s) (sem_update ns (ss_id s) (\<lambda>s. s\<lparr>
                ss_sems := (ss_sems s)[n := (ss_sems s ! n)\<lparr>se_val := word_of_int val\<rparr>],
                ss_undos := map (\<lambda>u. u\<lparr>un_adj := (un_adj u)[n := 0]\<rparr>) (ss_undos s), ss_ctime := ie_now env\<rparr>)), Inr 0, None))"

text \<open>The array of values on the stack has room for 4096.\<close>

definition semctl_getall :: "ipc_env \<Rightarrow> sem_set \<Rightarrow> u64 \<Rightarrow> ctl_out" where
  "semctl_getall env s arg =
     (if ss_nsems s > 4096 then (Inl EINVAL, None)
      else if ie_writable env arg (2 * ss_nsems s) then (Inr 0, Some (arg, concat (map (\<lambda>e. le_bytes 2 (se_val e)) (ss_sems s))))
      else (Inl EFAULT, None))"

definition set_vals :: "u16 list \<Rightarrow> sem_entry list \<Rightarrow> sem_entry list" where
  "set_vals vals sems = map2 (\<lambda>v e. e\<lparr>se_val := v\<rparr>) vals sems"

definition semctl_setall :: "sem_ns \<Rightarrow> ipc_env \<Rightarrow> sem_set \<Rightarrow> u64 \<Rightarrow> sem_ns \<times> ctl_out" where
  "semctl_setall ns env s arg =
     (if ss_nsems s > 4096 then (ns, Inl EINVAL, None)
      else (case ie_read env arg (2 * ss_nsems s) of
          None \<Rightarrow> (ns, Inl EFAULT, None)
        | Some bs \<Rightarrow>
            let vals = map (\<lambda>i. of_nat (le_field (2 * i) 2 bs) :: u16) [0..<ss_nsems s] in
            if \<exists>v \<in> set vals. int (unat v) > SEMVMX then (ns, Inl ERANGE, None)
            else (sem_notify (ss_id s) (sem_update ns (ss_id s) (\<lambda>s. s\<lparr>ss_sems := set_vals vals (ss_sems s),
                    ss_undos := map (\<lambda>u. u\<lparr>un_adj := replicate (ss_nsems s) 0\<rparr>) (ss_undos s), ss_ctime := ie_now env\<rparr>)), Inr 0, None)))"

definition semctl_set :: "sem_ns \<Rightarrow> ipc_env \<Rightarrow> sem_set \<Rightarrow> u64 \<Rightarrow> sem_ns \<times> ctl_out" where
  "semctl_set ns env s arg =
     (case ie_read env arg (ipc_perm_size (ie_64bit env)) of
        None \<Rightarrow> (ns, Inl EFAULT, None)
      | Some bs \<Rightarrow>
          (case set_perm env (ipc_perm_read (ie_64bit env) bs) (ss_perm s) of
             Inl e \<Rightarrow> (ns, Inl e, None)
           | Inr p \<Rightarrow> (sem_update ns (ss_id s) (\<lambda>s. s\<lparr>ss_perm := p, ss_ctime := ie_now env\<rparr>), Inr 0, None)))"

text \<open>The three layouts of \<^verbatim>\<open>struct semid64_ds\<close>.\<close>

definition semid_ds :: "ipc_env \<Rightarrow> sem_set \<Rightarrow> u8 list" where
  "semid_ds env s =
     ipc_perm_write env (ss_perm s) @
     (if ie_abi env = GUEST_ABI_AMD64 then
        le_bytes 8 (word_of_int (ss_otime s) :: u64) @ replicate 8 0 @ le_bytes 8 (word_of_int (ss_ctime s) :: u64) @ replicate 8 0 @
        le_bytes 8 (of_nat (ss_nsems s) :: u64) @ replicate 16 0
      else if ie_64bit env then
        le_bytes 8 (word_of_int (ss_otime s) :: u64) @ le_bytes 8 (word_of_int (ss_ctime s) :: u64) @
        le_bytes 8 (of_nat (ss_nsems s) :: u64) @ replicate 16 0
      else
        le_bytes 4 (word_of_int (ss_otime s) :: u32) @ replicate 4 0 @ le_bytes 4 (word_of_int (ss_ctime s) :: u32) @ replicate 4 0 @
        le_bytes 4 (of_nat (ss_nsems s) :: u32) @ replicate 8 0)"

definition semctl_stat :: "ipc_env \<Rightarrow> sem_set \<Rightarrow> u64 \<Rightarrow> ctl_out" where
  "semctl_stat env s arg =
     (if ie_writable env arg (length (semid_ds env s)) then (Inr 0, Some (arg, semid_ds env s)) else (Inl EFAULT, None))"

definition sys_semctl :: "sem_ns \<Rightarrow> ipc_env \<Rightarrow> int \<Rightarrow> int \<Rightarrow> u32 \<Rightarrow> u64 \<Rightarrow> sem_ns \<times> ctl_out" where
  "sys_semctl ns env semid semnum cmd arg =
     (let base = cmd AND NOT IPC_64 in
      if base = IPC_INFO then (ns, Inl EINVAL, None)
      else (case sem_find_by_id (sn_sets ns) semid of
          None \<Rightarrow> (ns, Inl EINVAL, None)
        | Some s \<Rightarrow>
            if base = IPC_RMID then semctl_rmid ns env s
            else if base = GETVAL \<or> base = GETPID \<or> base = GETNCNT \<or> base = GETZCNT then (ns, semctl_get env s semnum base, None)
            else if base = SETVAL then semctl_setval ns env s semnum arg
            else if base = GETALL then (ns, semctl_getall env s arg)
            else if base = SETALL then semctl_setall ns env s arg
            else if base = IPC_SET then semctl_set ns env s arg
            else if base = IPC_STAT \<or> base = SEM_STAT \<or> base = SEM_STAT_ANY then (ns, semctl_stat env s arg)
            else (ns, Inl EINVAL, None)))"

section \<open>The end of a thread group, and of a namespace\<close>

definition clamp_val :: "int \<Rightarrow> u16" where
  "clamp_val v = word_of_int (if v < 0 then 0 else if v > SEMVMX then SEMVMX else v)"

definition undo_entry :: "u16 \<Rightarrow> sem_entry \<Rightarrow> sem_entry" where
  "undo_entry adj e = (if adj = 0 then e else e\<lparr>se_val := clamp_val (int (unat (se_val e)) + sint adj)\<rparr>)"

definition undo_apply :: "nat \<Rightarrow> sem_set \<Rightarrow> sem_set" where
  "undo_apply g s = s\<lparr>
     ss_sems := foldl (\<lambda>sems u. map2 undo_entry (un_adj u) sems) (ss_sems s) (filter (\<lambda>u. un_group u = g) (ss_undos s)),
     ss_undos := filter (\<lambda>u. un_group u \<noteq> g) (ss_undos s)\<rparr>"

definition undo_changes :: "nat \<Rightarrow> sem_set \<Rightarrow> bool" where
  "undo_changes g s \<longleftrightarrow> (\<exists>u \<in> set (ss_undos s). un_group u = g \<and> (\<exists>a \<in> set (un_adj u). a \<noteq> 0))"

definition sysv_sem_exit :: "sem_ns \<Rightarrow> nat \<Rightarrow> sem_ns" where
  "sysv_sem_exit ns g =
     foldl (\<lambda>ns s. (if undo_changes g s then sem_notify (ss_id s) else id) (sem_update ns (ss_id s) (undo_apply g))) ns (sn_sets ns)"

definition sem_ns_teardown :: "sem_ns \<Rightarrow> sem_ns" where
  "sem_ns_teardown ns =
     foldl (\<lambda>ns s. sem_set_maybe_free (ss_id s) (sem_notify (ss_id s) (sem_update ns (ss_id s) (\<lambda>s. s\<lparr>ss_removed := True\<rparr>)))) ns (sn_sets ns)"

text \<open>The rows of \<^verbatim>\<open>/proc/sysvipc/sem\<close>: key, id, mode, number, the four ids, the two times.\<close>

definition proc_sysvipc_show_sem :: "ipc_env \<Rightarrow> sem_ns \<Rightarrow> (int \<times> int \<times> u32 \<times> nat \<times> u32 \<times> u32 \<times> u32 \<times> u32 \<times> int \<times> int) list" where
  "proc_sysvipc_show_sem env ns =
     map (\<lambda>s. let p = ss_perm s in (sint (ip_key p), ss_id s, ip_mode p AND 0x1FF, ss_nsems s, ie_uid_shown env (ip_uid p),
           ie_gid_shown env (ip_gid p), ie_uid_shown env (ip_cuid p), ie_gid_shown env (ip_cgid p), ss_otime s, ss_ctime s))
       (filter (\<lambda>s. \<not> ss_removed s) (sn_sets ns))"

end
