(* ===== verification/SysvSem_Inv.thy ===== *)
theory SysvSem_Inv
  imports SysvSem
begin

text \<open>
  The invariant of a namespace's semaphores: values in range, undo records of the right size,
  counters of waiting tasks that are exact, and no task asleep on what it could do.
\<close>

section \<open>Applying an array of operations\<close>

lemma bump_commute: "sem_bump n v (sem_bump m u sems) = sem_bump m u (sem_bump n v sems)"
  by (cases "n = m"; cases "n < length sems") (auto simp: sem_bump_def se_add_def ac_simps list_update_swap list_update_beyond not_less)

lemma bump_inverse: "sem_bump n (- v) (sem_bump n v sems) = sems"
  by (cases "n < length sems") (auto simp: sem_bump_def se_add_def list_update_beyond not_less)

lemma bump_zero: "sem_bump n 0 sems = sems"
  by (simp add: sem_bump_def se_add_def)

lemma length_bump [simp]: "length (sem_bump n v sems) = length sems"
  by (simp add: sem_bump_def)

definition bump_all :: "sembuf list \<Rightarrow> sem_entry list \<Rightarrow> sem_entry list" where
  "bump_all bs sems = foldl (\<lambda>sems b. sem_bump (unat (sb_num b)) (sb_op b) sems) sems bs"

lemma bump_all_commute: "sem_bump n v (bump_all bs sems) = bump_all bs (sem_bump n v sems)"
  unfolding bump_all_def by (induction bs arbitrary: sems) (simp_all add: bump_commute)

lemma rollback_bump_all: "semop_rollback (bump_all bs sems) bs = sems"
proof (induction bs arbitrary: sems)
  case (Cons b bs)
  have "semop_rollback (bump_all (b # bs) sems) (b # bs) = semop_rollback (sem_bump (unat (sb_num b)) (- sb_op b) (bump_all bs (sem_bump (unat (sb_num b)) (sb_op b) sems))) bs"
    by (simp add: semop_rollback_def bump_all_def)
  then show ?case by (simp add: bump_all_commute bump_inverse Cons)
qed (simp add: semop_rollback_def bump_all_def)

text \<open>Where the loop stops, with what; an operation 0 changes nothing.\<close>

definition sem_stop :: "u16 \<Rightarrow> sembuf \<Rightarrow> nat \<Rightarrow> sem_try option" where
  "sem_stop v b i =
     (let val = int (unat v); opr = sint (sb_op b) in
      if opr > 0 \<and> val + opr > SEMVMX then Some (TryRange i)
      else if opr = 0 \<and> val \<noteq> 0 \<or> opr < 0 \<and> val < - opr then Some (TryBlocked i) else None)"

lemma semop_try_Cons:
  "semop_try sems (b # bs) i = (case sem_stop (se_val (sems ! unat (sb_num b))) b i of
      Some r \<Rightarrow> (sems, r) | None \<Rightarrow> semop_try (sem_bump (unat (sb_num b)) (sb_op b) sems) bs (i + 1))"
proof -
  have "sint (sb_op b) = 0 \<Longrightarrow> sem_bump (unat (sb_num b)) (sb_op b) sems = sems" using bump_zero by (metis signed_eq_0_iff)
  then show ?thesis by (simp add: sem_stop_def Let_def)
qed

declare semop_try.simps(2) [simp del]

lemma sem_stopD: "sem_stop v b i = Some r \<Longrightarrow> r = TryBlocked i \<or> r = TryRange i"
  by (auto simp: sem_stop_def Let_def split: if_splits)

lemma semop_tryD:
  assumes "semop_try sems bs i = (sems', r)"
  shows "(r = TryDone \<and> sems' = bump_all bs sems) \<or>
    (\<exists>k < length bs. (r = TryBlocked (i + k) \<or> r = TryRange (i + k)) \<and> sems' = bump_all (take k bs) sems)"
  using assms
proof (induction bs arbitrary: sems i)
  case (Cons b bs)
  show ?case
  proof (cases "sem_stop (se_val (sems ! unat (sb_num b))) b i")
    case None
    then have "semop_try (sem_bump (unat (sb_num b)) (sb_op b) sems) bs (i + 1) = (sems', r)" using Cons.prems by (simp add: semop_try_Cons)
    from Cons.IH [OF this] show ?thesis
    proof
      assume "\<exists>k<length bs. (r = TryBlocked (i + 1 + k) \<or> r = TryRange (i + 1 + k)) \<and>
        sems' = bump_all (take k bs) (sem_bump (unat (sb_num b)) (sb_op b) sems)"
      then obtain k where "k < length bs" "r = TryBlocked (i + Suc k) \<or> r = TryRange (i + Suc k)"
          "sems' = bump_all (take (Suc k) (b # bs)) sems" by (auto simp: bump_all_def)
      then show ?thesis by (intro disjI2 exI [of _ "Suc k"]) auto
    qed (simp add: bump_all_def)
  next
    case (Some r')
    then show ?thesis using Cons.prems sem_stopD [OF Some] by (auto simp: semop_try_Cons bump_all_def intro!: exI [of _ 0])
  qed
qed (simp add: bump_all_def)

text \<open>Whatever stops the loop, the roll-back restores the set.\<close>

lemma semop_try_rollback:
  assumes "semop_try sems bs 0 = (sems', TryBlocked k) \<or> semop_try sems bs 0 = (sems', TryRange k)"
  shows "semop_rollback sems' (take k bs) = sems" and "k < length bs"
  using assms by (auto dest!: semop_tryD simp: rollback_bump_all)

text \<open>On values: the array is a sequence of operations on integers.\<close>

lemma val_add:
  assumes "0 \<le> int (unat v) + sint w" and "int (unat v) + sint w < 65536"
  shows "int (unat (v + w :: u16)) = int (unat v) + sint w"
proof -
  have "v + w = word_of_int (int (unat v) + sint w)" by simp
  then have "uint (v + w) = take_bit 16 (int (unat v) + sint w)" by (simp only: unsigned_of_int) simp
  also have "\<dots> = int (unat v) + sint w" by (rule take_bit_int_eq_self) (use assms in auto)
  finally show ?thesis by simp
qed

fun seq_apply :: "(nat \<Rightarrow> int) \<Rightarrow> (nat \<times> int) list \<Rightarrow> (nat \<Rightarrow> int) option" where
  "seq_apply vs [] = Some vs"
| "seq_apply vs ((n, opr) # os) =
     (if 0 < opr \<and> vs n + opr \<le> SEMVMX \<or> opr = 0 \<and> vs n = 0 \<or> opr < 0 \<and> 0 \<le> vs n + opr then seq_apply (vs(n := vs n + opr)) os else None)"

definition sem_vals :: "sem_entry list \<Rightarrow> nat \<Rightarrow> int" where
  "sem_vals sems n = (if n < length sems then int (unat (se_val (sems ! n))) else 0)"

definition abs_ops :: "sembuf list \<Rightarrow> (nat \<times> int) list" where
  "abs_ops bs = map (\<lambda>b. (unat (sb_num b), sint (sb_op b))) bs"

definition vals_ok :: "sem_entry list \<Rightarrow> bool" where
  "vals_ok sems \<longleftrightarrow> (\<forall>e \<in> set sems. int (unat (se_val e)) \<le> SEMVMX)"

lemma vals_okD: "vals_ok sems \<Longrightarrow> n < length sems \<Longrightarrow> int (unat (se_val (sems ! n))) \<le> SEMVMX"
  by (simp add: vals_ok_def)

lemma vals_ok_cong: "map se_val sems = map se_val sems' \<Longrightarrow> vals_ok sems = vals_ok sems'"
proof -
  have *: "vals_ok xs \<longleftrightarrow> (\<forall>v \<in> set (map se_val xs). int (unat v) \<le> SEMVMX)" for xs by (simp add: vals_ok_def)
  show "map se_val sems = map se_val sems' \<Longrightarrow> ?thesis" unfolding * by (rule arg_cong)
qed

lemma bump_vals:
  assumes "vals_ok sems" and "n < length sems" and "sem_stop (se_val (sems ! n)) b i = None" and "n = unat (sb_num b)"
  shows "vals_ok (sem_bump n (sb_op b) sems)" and "sem_vals (sem_bump n (sb_op b) sems) = (sem_vals sems)(n := sem_vals sems n + sint (sb_op b))"
    and "0 \<le> sem_vals sems n + sint (sb_op b)"
proof -
  let ?v = "int (unat (se_val (sems ! n)))"
  have b: "0 \<le> ?v + sint (sb_op b)" "?v + sint (sb_op b) \<le> SEMVMX"
    using assms(3) vals_okD [OF assms(1,2)] by (auto simp: sem_stop_def Let_def split: if_splits)
  then have v: "int (unat (se_val (sems ! n) + sb_op b)) = ?v + sint (sb_op b)" by (intro val_add) auto
  show "vals_ok (sem_bump n (sb_op b) sems)"
    using assms(1,2) b(2) v set_update_subset_insert [of sems n] by (fastforce simp: vals_ok_def sem_bump_def se_add_def)
  show "sem_vals (sem_bump n (sb_op b) sems) = (sem_vals sems)(n := sem_vals sems n + sint (sb_op b))"
    using assms(2) v by (auto simp: sem_vals_def sem_bump_def se_add_def fun_eq_iff)
  show "0 \<le> sem_vals sems n + sint (sb_op b)" using b assms(2) by (simp add: sem_vals_def)
qed

text \<open>The loop implements the specification: all of the array, or it stops.\<close>

lemma semop_try_refines:
  assumes "vals_ok sems" and "\<And>b. b \<in> set bs \<Longrightarrow> unat (sb_num b) < length sems" and "semop_try sems bs i = (sems', r)"
  shows "if r = TryDone then seq_apply (sem_vals sems) (abs_ops bs) = Some (sem_vals sems') \<and> vals_ok sems'
    else seq_apply (sem_vals sems) (abs_ops bs) = None"
  using assms
proof (induction bs arbitrary: sems i)
  case (Cons b bs)
  let ?n = "unat (sb_num b)"
  have n: "?n < length sems" using Cons.prems(2) by simp
  show ?case
  proof (cases "sem_stop (se_val (sems ! ?n)) b i")
    case None
    note bv = bump_vals [OF Cons.prems(1) n None refl]
    have t: "semop_try (sem_bump ?n (sb_op b) sems) bs (i + 1) = (sems', r)" using Cons.prems(3) None by (simp add: semop_try_Cons)
    have "seq_apply (sem_vals sems) (abs_ops (b # bs)) = seq_apply (sem_vals (sem_bump ?n (sb_op b) sems)) (abs_ops bs)"
      using None n bv(2,3) by (auto simp: abs_ops_def sem_stop_def sem_vals_def Let_def split: if_splits)
    then show ?thesis using Cons.IH [OF bv(1) _ t] Cons.prems(2) by simp
  next
    case (Some r')
    then have "r = r'" "r' \<noteq> TryDone" using Cons.prems(3) sem_stopD [OF Some] by (auto simp: semop_try_Cons)
    then show ?thesis using Some n by (auto simp: abs_ops_def sem_stop_def sem_vals_def Let_def split: if_splits)
  qed
qed (simp add: abs_ops_def)

section \<open>The invariant of one set\<close>

abbreviation on_set :: "int \<Rightarrow> sem_sleeper list \<Rightarrow> sem_sleeper list" where
  "on_set \<equiv> on_obj zl_set"

abbreviation blk :: "sem_sleeper \<Rightarrow> sembuf" where
  "blk w \<equiv> zl_sops w ! zl_blocked w"

definition waits_on :: "bool \<Rightarrow> nat \<Rightarrow> sem_sleeper \<Rightarrow> bool" where
  "waits_on zero n w \<longleftrightarrow> unat (sb_num (blk w)) = n \<and> (sb_op (blk w) = 0 \<longleftrightarrow> zero)"

text \<open>The counters are exact: \<^verbatim>\<open>GETNCNT\<close> and \<^verbatim>\<open>GETZCNT\<close> report the tasks that sleep.\<close>

definition counts_ok :: "sem_entry list \<Rightarrow> sem_sleeper list \<Rightarrow> bool" where
  "counts_ok sems Ws \<longleftrightarrow> (\<forall>n < length sems. se_ncnt (sems ! n) = count_where (waits_on False n) Ws \<and>
     se_zcnt (sems ! n) = count_where (waits_on True n) Ws)"

definition sops_ok :: "nat \<Rightarrow> sembuf list \<Rightarrow> bool" where
  "sops_ok m bs \<longleftrightarrow> (\<forall>b \<in> set bs. unat (sb_num b) < m)"

definition shape_ok :: "sem_set \<Rightarrow> bool" where
  "shape_ok s \<longleftrightarrow> 0 < ss_nsems s \<and> length (ss_sems s) = ss_nsems s \<and> vals_ok (ss_sems s) \<and>
     (\<forall>u \<in> set (ss_undos s). length (un_adj u) = ss_nsems s) \<and> distinct (map un_group (ss_undos s))"

definition waits_ok :: "sem_set \<Rightarrow> sem_sleeper list \<Rightarrow> bool" where
  "waits_ok s Ws \<longleftrightarrow> ss_waiters s = length Ws \<and> counts_ok (ss_sems s) Ws \<and>
     (\<forall>w \<in> set Ws. zl_blocked w < length (zl_sops w) \<and> sops_ok (ss_nsems s) (zl_sops w))"

definition would_block :: "sem_set \<Rightarrow> sem_sleeper \<Rightarrow> bool" where
  "would_block s w \<longleftrightarrow> snd (semop_try (ss_sems s) (zl_sops w) 0) = TryBlocked (zl_blocked w)"

definition asleep_ok :: "sem_set \<Rightarrow> sem_sleeper list \<Rightarrow> bool" where
  "asleep_ok s Ws \<longleftrightarrow> (\<forall>w \<in> set Ws. zl_woken w \<or> \<not> ss_removed s \<and> would_block s w)"

definition set_inv :: "sem_set \<Rightarrow> sem_sleeper list \<Rightarrow> bool" where
  "set_inv s Ws \<longleftrightarrow> shape_ok s \<and> waits_ok s Ws \<and> asleep_ok s Ws"

definition wake_all :: "sem_sleeper list \<Rightarrow> sem_sleeper list" where
  "wake_all = map (\<lambda>w. w\<lparr>zl_woken := True\<rparr>)"

lemma wake_all_ok: "asleep_ok s (wake_all Ws)" "waits_ok s (wake_all Ws) = waits_ok s Ws"
proof -
  have "count_where (waits_on z n) (wake_all Ws) = count_where (waits_on z n) Ws" for z n
    by (induction Ws) (auto simp: wake_all_def waits_on_def)
  then show "waits_ok s (wake_all Ws) = waits_ok s Ws" by (simp add: waits_ok_def counts_ok_def) (simp add: wake_all_def)
qed (auto simp: asleep_ok_def wake_all_def)

text \<open>What the counters depend on.\<close>

definition same_waits :: "sem_set \<Rightarrow> sem_set \<Rightarrow> bool" where
  "same_waits s t \<longleftrightarrow> ss_id t = ss_id s \<and> ip_key (ss_perm t) = ip_key (ss_perm s) \<and> ss_nsems t = ss_nsems s \<and> ss_waiters t = ss_waiters s \<and>
     ss_removed t = ss_removed s \<and> map se_ncnt (ss_sems t) = map se_ncnt (ss_sems s) \<and> map se_zcnt (ss_sems t) = map se_zcnt (ss_sems s)"

lemma same_waits_refl [simp]: "same_waits s s"
  by (simp add: same_waits_def)

lemma same_waits_trans: "same_waits s t \<Longrightarrow> same_waits t u \<Longrightarrow> same_waits s u"
  by (simp add: same_waits_def)

lemma waits_cong: "same_waits s t \<Longrightarrow> waits_ok t Ws = waits_ok s Ws"
proof -
  assume h: "same_waits s t"
  then have n: "map se_ncnt (ss_sems t) = map se_ncnt (ss_sems s)" and z: "map se_zcnt (ss_sems t) = map se_zcnt (ss_sems s)"
    by (simp_all add: same_waits_def)
  from n have l: "length (ss_sems t) = length (ss_sems s)" by (rule map_eq_imp_length_eq)
  have "se_ncnt (ss_sems t ! n) = se_ncnt (ss_sems s ! n) \<and> se_zcnt (ss_sems t ! n) = se_zcnt (ss_sems s ! n)" if "n < length (ss_sems s)" for n
    using arg_cong [of _ _ "\<lambda>xs. xs ! n", OF n] arg_cong [of _ _ "\<lambda>xs. xs ! n", OF z] that l by simp
  then show ?thesis using h l by (auto simp: waits_ok_def counts_ok_def same_waits_def)
qed

lemma map_update_same: "(n < length xs \<Longrightarrow> f y = f (xs ! n)) \<Longrightarrow> map f (xs[n := y]) = map f xs"
  by (metis list_update_beyond list_update_id map_update not_le)

lemma bump_counts [simp]: "map se_ncnt (sem_bump n v sems) = map se_ncnt sems" "map se_zcnt (sem_bump n v sems) = map se_zcnt sems"
  by (simp_all add: sem_bump_def se_add_def map_update_same)

lemma bump_all_counts [simp]: "map se_ncnt (bump_all bs sems) = map se_ncnt sems" "map se_zcnt (bump_all bs sems) = map se_zcnt sems"
  by (induction bs arbitrary: sems) (simp_all add: bump_all_def)

text \<open>What is blocked depends on the values only.\<close>

lemma semop_try_cong:
  assumes "map se_val sems = map se_val sems'" and "sops_ok (length sems) bs"
  shows "snd (semop_try sems bs i) = snd (semop_try sems' bs i)"
  using assms
proof (induction bs arbitrary: sems sems' i)
  case (Cons b bs)
  let ?n = "unat (sb_num b)"
  have l: "length sems' = length sems" using Cons.prems(1) map_eq_imp_length_eq by metis
  have n: "?n < length sems" using Cons.prems(2) by (simp add: sops_ok_def)
  then have v: "se_val (sems ! ?n) = se_val (sems' ! ?n)" using Cons.prems(1) l by (metis nth_map)
  then have "map se_val (sem_bump ?n (sb_op b) sems) = map se_val (sem_bump ?n (sb_op b) sems')"
    using Cons.prems(1) by (simp add: sem_bump_def se_add_def map_update)
  from Cons.IH [OF this] show ?case using Cons.prems(2) v by (auto simp: semop_try_Cons sops_ok_def split: option.split)
qed simp

lemma would_block_cong:
  "map se_val (ss_sems t) = map se_val (ss_sems s) \<Longrightarrow> sops_ok (length (ss_sems t)) (zl_sops w) \<Longrightarrow> would_block t w = would_block s w"
  using semop_try_cong [of "ss_sems t" "ss_sems s"] by (simp add: would_block_def)

lemma asleep_cong:
  assumes "asleep_ok s Ws" and "waits_ok s Ws" and "map se_val (ss_sems t) = map se_val (ss_sems s)" and "length (ss_sems t) = ss_nsems s" and "ss_removed t = ss_removed s"
  shows "asleep_ok t Ws"
  using assms would_block_cong [OF assms(3)] by (simp add: asleep_ok_def waits_ok_def)

section \<open>The operations on one set\<close>

text \<open>Recording a success: pids and undo entries; values and counters stay.\<close>

lemma shape_undos:
  assumes "shape_ok s" and "ss_nsems t = ss_nsems s" and "map se_val (ss_sems t) = map se_val (ss_sems s)"
    and "\<And>u. u \<in> set (ss_undos t) \<Longrightarrow> length (un_adj u) = ss_nsems s" and "distinct (map un_group (ss_undos t))"
  shows "shape_ok t"
proof -
  show ?thesis using assms vals_ok_cong [OF assms(3)] map_eq_imp_length_eq [OF assms(3)] by (simp add: shape_ok_def)
qed

lemma record_keeps:
  assumes "shape_ok s"
  shows "shape_ok (semop_record env s b)" and "same_waits s (semop_record env s b)"
    and "map se_val (ss_sems (semop_record env s b)) = map se_val (ss_sems s)"
proof -
  show v: "map se_val (ss_sems (semop_record env s b)) = map se_val (ss_sems s)" and "same_waits s (semop_record env s b)"
    by (auto simp: semop_record_def sem_undo_get_def same_waits_def Let_def map_update_same)
  have "ss_nsems (semop_record env s b) = ss_nsems s"
    by (auto simp: semop_record_def sem_undo_get_def Let_def)
  moreover have "length (un_adj u) = ss_nsems s" if "u \<in> set (ss_undos (semop_record env s b))" for u
    using that assms by (auto simp: semop_record_def sem_undo_get_def undo_adjust_def shape_ok_def Let_def split: if_splits)
  moreover have "map un_group (undo_adjust g n v us) = map un_group us" for g n v us by (simp add: undo_adjust_def)
  then have "distinct (map un_group (ss_undos (semop_record env s b)))"
    using assms by (auto simp: semop_record_def sem_undo_get_def shape_ok_def Let_def)
  ultimately show "shape_ok (semop_record env s b)" using shape_undos [OF assms _ v] by blast
qed

lemma finish_keeps:
  assumes "shape_ok s"
  shows "shape_ok (semop_finish env bs s)" and "same_waits s (semop_finish env bs s)"
    and "map se_val (ss_sems (semop_finish env bs s)) = map se_val (ss_sems s)"
proof -
  have "shape_ok (foldl (semop_record env) s bs) \<and> same_waits s (foldl (semop_record env) s bs) \<and>
      map se_val (ss_sems (foldl (semop_record env) s bs)) = map se_val (ss_sems s)"
    using assms
  proof (induction bs arbitrary: s)
    case (Cons b bs)
    note r = record_keeps [OF Cons.prems, of env b]
    show ?case using Cons.IH [OF r(1)] r(3) same_waits_trans [OF r(2)] by auto
  qed simp
  then show "shape_ok (semop_finish env bs s)" and "same_waits s (semop_finish env bs s)"
    and "map se_val (ss_sems (semop_finish env bs s)) = map se_val (ss_sems s)"
    by (simp_all add: semop_finish_def shape_ok_def same_waits_def)
qed

text \<open>A task that falls asleep, and one that stops waiting.\<close>

lemma count_keeps:
  shows "shape_ok (sem_count f b s) = shape_ok s" and "map se_val (ss_sems (sem_count f b s)) = map se_val (ss_sems s)"
    and "ss_id (sem_count f b s) = ss_id s" "ss_perm (sem_count f b s) = ss_perm s" "ss_nsems (sem_count f b s) = ss_nsems s"
    and "ss_removed (sem_count f b s) = ss_removed s" "ss_waiters (sem_count f b s) = f (ss_waiters s)"
    and "length (ss_sems (sem_count f b s)) = length (ss_sems s)"
proof -
  show v: "map se_val (ss_sems (sem_count f b s)) = map se_val (ss_sems s)" by (simp add: sem_count_def Let_def map_update_same)
  from vals_ok_cong [OF this] show "shape_ok (sem_count f b s) = shape_ok s" by (simp add: shape_ok_def sem_count_def Let_def)
qed (simp_all add: sem_count_def Let_def)

lemma count_at:
  assumes "n < length (ss_sems s)"
  shows "se_ncnt (ss_sems (sem_count f b s) ! n) = (if unat (sb_num b) = n \<and> sb_op b \<noteq> 0 then f else id) (se_ncnt (ss_sems s ! n))"
    and "se_zcnt (ss_sems (sem_count f b s) ! n) = (if unat (sb_num b) = n \<and> sb_op b = 0 then f else id) (se_zcnt (ss_sems s ! n))"
  using assms by (cases "unat (sb_num b) = n"; auto simp: sem_count_def Let_def)+

lemma count_sleep:
  assumes "waits_ok s Ws" and "zl_blocked w < length (zl_sops w)" and "sops_ok (ss_nsems s) (zl_sops w)"
  shows "waits_ok (sem_count Suc (blk w) s) (Ws @ [w])"
proof -
  have "counts_ok (ss_sems (sem_count Suc (blk w) s)) (Ws @ [w])"
    using assms(1) by (auto simp: counts_ok_def waits_ok_def count_keeps(8) count_at waits_on_def)
  then show ?thesis using assms by (auto simp: waits_ok_def count_keeps)
qed

lemma count_unsleep:
  assumes "waits_ok s (As @ w # Bs)"
  shows "waits_ok (sem_count (\<lambda>n. n - 1) (blk w) s) (As @ Bs)"
proof -
  have "counts_ok (ss_sems (sem_count (\<lambda>n. n - 1) (blk w) s)) (As @ Bs)"
    using assms by (auto simp: counts_ok_def waits_ok_def count_keeps(8) count_at waits_on_def)
  then show ?thesis using assms by (auto simp: waits_ok_def count_keeps)
qed

text \<open>The end of a thread group.\<close>

lemma unat_clamp: "int (unat (clamp_val v)) = max 0 (min SEMVMX v)"
proof -
  have "uint (word_of_int x :: u16) = x" if "0 \<le> x" "x \<le> SEMVMX" for x
    using that by (simp add: unsigned_of_int take_bit_int_eq_self)
  then show ?thesis by (auto simp: clamp_val_def max_def min_def)
qed

lemma undo_sems:
  assumes "length sems = m" and "\<And>u. u \<in> set us \<Longrightarrow> length (un_adj u) = m"
  shows "length (foldl (\<lambda>sems u. map2 undo_entry (un_adj u) sems) sems us) = m"
    and "map se_ncnt (foldl (\<lambda>sems u. map2 undo_entry (un_adj u) sems) sems us) = map se_ncnt sems"
    and "map se_zcnt (foldl (\<lambda>sems u. map2 undo_entry (un_adj u) sems) sems us) = map se_zcnt sems"
    and "vals_ok sems \<Longrightarrow> vals_ok (foldl (\<lambda>sems u. map2 undo_entry (un_adj u) sems) sems us)"
proof -
  have step: "map se_ncnt (map2 undo_entry adj xs) = map se_ncnt xs \<and> map se_zcnt (map2 undo_entry adj xs) = map se_zcnt xs"
    if "length adj = length xs" for adj xs
    using that by (induction adj xs rule: list_induct2) (auto simp: undo_entry_def)
  have "int (unat (se_val (undo_entry a e))) \<le> SEMVMX" if "int (unat (se_val e)) \<le> SEMVMX" for a e
    using that unat_clamp [of "int (unat (se_val e)) + sint a"] by (simp add: undo_entry_def)
  then have vals: "vals_ok (map2 undo_entry adj xs)" if "vals_ok xs" for adj xs
    using that unfolding vals_ok_def by (auto dest!: set_zip_rightD)
  have "length (foldl (\<lambda>sems u. map2 undo_entry (un_adj u) sems) sems us) = m \<and>
    map se_ncnt (foldl (\<lambda>sems u. map2 undo_entry (un_adj u) sems) sems us) = map se_ncnt sems \<and>
    map se_zcnt (foldl (\<lambda>sems u. map2 undo_entry (un_adj u) sems) sems us) = map se_zcnt sems \<and>
    (vals_ok sems \<longrightarrow> vals_ok (foldl (\<lambda>sems u. map2 undo_entry (un_adj u) sems) sems us))"
    using assms
  proof (induction us arbitrary: sems)
    case (Cons u us)
    have l: "length (un_adj u) = length sems" using Cons.prems by simp
    have "length (map2 undo_entry (un_adj u) sems) = m" using Cons.prems l by simp
    from Cons.IH [OF this] Cons.prems(2) step [OF l] vals [of sems "un_adj u"] show ?case by auto
  qed simp
  then show "length (foldl (\<lambda>sems u. map2 undo_entry (un_adj u) sems) sems us) = m"
    and "map se_ncnt (foldl (\<lambda>sems u. map2 undo_entry (un_adj u) sems) sems us) = map se_ncnt sems"
    and "map se_zcnt (foldl (\<lambda>sems u. map2 undo_entry (un_adj u) sems) sems us) = map se_zcnt sems"
    and "vals_ok sems \<Longrightarrow> vals_ok (foldl (\<lambda>sems u. map2 undo_entry (un_adj u) sems) sems us)" by blast+
qed

lemma undo_keeps:
  assumes "shape_ok s"
  shows "shape_ok (undo_apply g s)" and "same_waits s (undo_apply g s)"
proof -
  have len: "length (ss_sems s) = ss_nsems s" using assms by (simp add: shape_ok_def)
  have "length (un_adj u) = ss_nsems s" if "u \<in> set (filter (\<lambda>u. un_group u = g) (ss_undos s))" for u
    using that assms by (auto simp: shape_ok_def)
  note us = undo_sems [where us = "filter (\<lambda>u. un_group u = g) (ss_undos s)", OF len this]
  show "shape_ok (undo_apply g s)" using assms us(1,4) by (simp add: shape_ok_def undo_apply_def distinct_map_filter)
  show "same_waits s (undo_apply g s)" using us(2,3) by (simp add: undo_apply_def same_waits_def)
qed

lemma undo_unchanged:
  assumes "shape_ok s" and "\<not> undo_changes g s"
  shows "ss_sems (undo_apply g s) = ss_sems s"
proof -
  have same: "map2 undo_entry (un_adj u) sems = sems" if "length (un_adj u) = length sems" "\<forall>a \<in> set (un_adj u). a = 0" for u sems
    using that by (intro nth_equalityI) (auto simp: undo_entry_def)
  have "map2 undo_entry (un_adj u) (ss_sems s) = ss_sems s" if "u \<in> set (filter (\<lambda>u. un_group u = g) (ss_undos s))" for u
  proof -
    have "length (un_adj u) = length (ss_sems s)" "\<forall>a \<in> set (un_adj u). a = 0" using that assms by (auto simp: undo_changes_def shape_ok_def)
    then show ?thesis by (rule same)
  qed
  then have "foldl (\<lambda>sems u. map2 undo_entry (un_adj u) sems) (ss_sems s) us = ss_sems s"
    if "set us \<subseteq> set (filter (\<lambda>u. un_group u = g) (ss_undos s))" for us
    using that by (induction us) auto
  then show ?thesis by (simp add: undo_apply_def)
qed

end
