(* ===== verification/SysvSem_Reach.thy ===== *)
theory SysvSem_Reach
  imports SysvSem_Inv
begin

text \<open>
  The invariant of a namespace's semaphores, that every call, wake-up and exit keeps it, and
  the states that can be reached.
\<close>

interpretation sns: ipc_waited ss_id "\<lambda>s. ip_key (ss_perm s)" ss_removed sem_find_by_id sem_find_by_key ss_waiters zl_set set_inv
  by unfold_locales (simp_all add: sem_find_by_id_def sem_find_by_key_def set_inv_def waits_ok_def)

text \<open>\<open>X\<close>: the removed sets that are about to be freed.\<close>

definition sem_inv :: "int set \<Rightarrow> sem_ns \<Rightarrow> bool" where
  "sem_inv X ns \<longleftrightarrow> sns.ns_ok X (sn_sets ns) (sn_next_id ns) (sn_sleepers ns)"

lemmas sem_invD = sns.ns_okD [OF sem_inv_def [THEN iffD1]]

lemmas sem_inv_by_id = sns.ns_by_id [OF sem_inv_def [THEN iffD1]]

lemmas sem_inv_idD = sns.ns_oid [OF sem_inv_def [THEN iffD1]]

lemma sem_inv_change:
  assumes "sem_inv X ns" and "obj_at ss_id i (sn_sets ns) = Some s"
    and "ss_id (f s) = i" "ip_key (ss_perm (f s)) = ip_key (ss_perm s)" "ss_removed s \<Longrightarrow> ss_removed (f s)"
    and "set_inv (f s) (on_set i W)" and "\<And>j. j \<noteq> i \<Longrightarrow> on_set j W = on_set j (sn_sleepers ns)"
    and "ss_removed (f s) \<Longrightarrow> ss_waiters (f s) \<noteq> 0 \<or> i \<in> Y" "X \<subseteq> insert i Y"
  shows "sem_inv Y ((sem_update ns i f)\<lparr>sn_sleepers := W\<rparr>)"
  using sns.ns_change [where f = f, OF assms(1) [unfolded sem_inv_def] assms(2-)] by (simp add: sem_inv_def sem_update_def)

lemma sem_inv_quiet:
  assumes "sem_inv {} ns" and s: "obj_at ss_id i (sn_sets ns) = Some s"
    and "ss_id (f s) = i" "ip_key (ss_perm (f s)) = ip_key (ss_perm s)" "ss_removed (f s) = ss_removed s"
    and "set_inv (f s) (on_set i (sn_sleepers ns))" and "ss_waiters (f s) = ss_waiters s"
  shows "sem_inv {} (sem_update ns i f)"
proof -
  have "sem_inv {} ((sem_update ns i f)\<lparr>sn_sleepers := sn_sleepers ns\<rparr>)"
    using assms(3-) sem_invD(3) [OF assms(1,2)] by (intro sem_inv_change [OF assms(1,2)]) simp_all
  then show ?thesis by (simp add: sem_update_def)
qed

lemma sem_update_same: "sem_inv X ns \<Longrightarrow> obj_at ss_id i (sn_sets ns) = Some s \<Longrightarrow> f s = s \<Longrightarrow> sem_update ns i f = ns"
  by (simp add: sem_update_def sns.update_same [OF sem_invD(1)])

text \<open>A change that wakes the set's tasks.\<close>

lemma on_set_notify: "on_set j (map (\<lambda>w. if zl_set w = i then w\<lparr>zl_woken := True\<rparr> else w) W) = (if j = i then wake_all else id) (on_set j W)"
  by (induction W) (auto simp: on_obj_def wake_all_def)

lemma sem_inv_notify:
  assumes "sem_inv X ns" and s: "obj_at ss_id i (sn_sets ns) = Some s"
    and f: "ss_id (f s) = i" "ip_key (ss_perm (f s)) = ip_key (ss_perm s)" "ss_removed s \<Longrightarrow> ss_removed (f s)"
    and inv: "shape_ok (f s)" "waits_ok (f s) (on_set i (sn_sleepers ns))"
    and X: "ss_removed (f s) \<Longrightarrow> ss_waiters (f s) \<noteq> 0 \<or> i \<in> Y" "X \<subseteq> insert i Y"
  shows "sem_inv Y (sem_notify i (sem_update ns i f))"
proof -
  let ?W = "map (\<lambda>w. if zl_set w = i then w\<lparr>zl_woken := True\<rparr> else w) (sn_sleepers ns)"
  have "set_inv (f s) (on_set i ?W)" using inv by (simp add: on_set_notify set_inv_def wake_all_ok)
  from sem_inv_change [OF assms(1) s, of f ?W Y, OF f this _ X] show ?thesis
    by (simp add: sem_notify_def sem_update_def on_set_notify)
qed

lemma same_waits_notify:
  assumes "sem_inv X ns" and s: "obj_at ss_id i (sn_sets ns) = Some s" and "same_waits s (f s)" and "shape_ok (f s)"
  shows "sem_inv X (sem_notify i (sem_update ns i f))"
proof (rule sem_inv_notify [OF assms(1) s])
  show "ss_id (f s) = i" "ip_key (ss_perm (f s)) = ip_key (ss_perm s)" "ss_removed s \<Longrightarrow> ss_removed (f s)"
    using assms(3) sem_inv_idD [OF assms(1,2)] by (simp_all add: same_waits_def)
  show "waits_ok (f s) (on_set i (sn_sleepers ns))"
    using sem_invD(2) [OF assms(1,2)] waits_cong [OF assms(3)] by (simp add: set_inv_def)
  show "ss_removed (f s) \<Longrightarrow> ss_waiters (f s) \<noteq> 0 \<or> i \<in> X"
    using assms(3) sem_invD(3) [OF assms(1,2)] by (simp add: same_waits_def)
qed (use assms(4) in auto)

text \<open>Freeing a removed set without waiters.\<close>

lemma sem_inv_maybe_free: "sem_inv (insert i X) ns \<Longrightarrow> sem_inv X (sem_set_maybe_free i ns)"
  using sns.ns_free [of i X "sn_sets ns" "sn_next_id ns" "sn_sleepers ns"] by (auto simp: sem_inv_def sem_set_maybe_free_def split: option.splits)

section \<open>The calls keep the invariant\<close>

lemma semget_cases:
  obtains "fst (sys_semget ns env key n flg) = ns"
  | s where "0 < n" "key = 0 \<or> sem_find_by_key (sn_sets ns) key = None"
    "fst (sys_semget ns env key n flg) = ns\<lparr>sn_sets := sn_sets ns @ [s], sn_next_id := sn_next_id ns + 1\<rparr>"
    "s = \<lparr>ss_id = sn_next_id ns, ss_perm = new_perm env key flg, ss_nsems = nat n,
       ss_otime = 0, ss_ctime = ie_now env, ss_removed = False, ss_waiters = 0,
       ss_sems = replicate (nat n) \<lparr>se_val = 0, se_last_pid = 0, se_ncnt = 0, se_zcnt = 0\<rparr>, ss_undos = []\<rparr>"
proof (cases "n \<le> 0 \<or> n > SEMMSL \<or> \<not> ie_alloc env \<or> flg AND IPC_CREAT = 0 \<and> key \<noteq> 0 \<or> key \<noteq> 0 \<and> sem_find_by_key (sn_sets ns) key \<noteq> None")
  case True
  then have "fst (sys_semget ns env key n flg) = ns" by (auto simp: sys_semget_def split: option.splits)
  then show ?thesis by (rule that(1))
next
  case False
  show ?thesis by (rule that(2)) (use False in \<open>auto simp: sys_semget_def\<close>)
qed

lemma inv_semget:
  assumes "sem_inv {} ns"
  shows "sem_inv {} (fst (sys_semget ns env key n flg))"
proof (rule semget_cases [of ns env key n flg])
  fix s
  assume c: "0 < n" "key = 0 \<or> sem_find_by_key (sn_sets ns) key = None"
    and eq: "fst (sys_semget ns env key n flg) = ns\<lparr>sn_sets := sn_sets ns @ [s], sn_next_id := sn_next_id ns + 1\<rparr>"
    and s_def: "s = \<lparr>ss_id = sn_next_id ns, ss_perm = new_perm env key flg, ss_nsems = nat n,
       ss_otime = 0, ss_ctime = ie_now env, ss_removed = False, ss_waiters = 0,
       ss_sems = replicate (nat n) \<lparr>se_val = 0, se_last_pid = 0, se_ncnt = 0, se_zcnt = 0\<rparr>, ss_undos = []\<rparr>"
  have "shape_ok s" "waits_ok s []" "asleep_ok s []" using c(1)
    by (auto simp: s_def shape_ok_def vals_ok_def waits_ok_def counts_ok_def asleep_ok_def)
  then have "set_inv s []" by (simp add: set_inv_def)
  then show ?thesis unfolding eq sem_inv_def
    using sns.ns_add [OF assms [unfolded sem_inv_def], of s] c(2) by (simp add: s_def new_perm_def)
qed (simp add: assms)

lemma round_set:
  assumes inv: "sem_inv {} ns" and s: "obj_at ss_id i (sn_sets ns) = Some s" and "\<not> ss_removed s" and "sops_ok (ss_nsems s) bs"
  shows "sem_inv {} (fst (semop_round ns env clk i bs deadline))"
proof -
  note si = sem_invD(2) [OF inv s, unfolded set_inv_def]
  obtain sems r where t: "semop_try (ss_sems s) bs 0 = (sems, r)" by (cases "semop_try (ss_sems s) bs 0")
  show ?thesis
  proof (cases r)
    case TryDone
    have len: "length (ss_sems s) = ss_nsems s" using si by (simp add: shape_ok_def)
    have vo: "vals_ok sems" using semop_try_refines [OF _ _ t] TryDone si assms(4) len by (auto simp: shape_ok_def sops_ok_def)
    have sems: "sems = bump_all bs (ss_sems s)" using semop_tryD [OF t] TryDone by simp
    let ?s = "s\<lparr>ss_sems := sems\<rparr>"
    have sw: "same_waits s ?s" by (simp add: same_waits_def sems)
    have "length sems = ss_nsems s" using len unfolding sems by (metis bump_all_counts(1) length_map)
    then have sh: "shape_ok ?s" using si vo by (simp add: shape_ok_def)
    show ?thesis
      using same_waits_notify [OF inv s, of "\<lambda>s. semop_finish env bs (s\<lparr>ss_sems := sems\<rparr>)"] finish_keeps(1,2) [OF sh, of env bs]
        same_waits_trans [OF sw] t TryDone s by (simp add: semop_round_def)
  next
    case (TryRange k)
    then have "semop_rollback sems (take k bs) = ss_sems s" using t semop_try_rollback(1) [of "ss_sems s" bs sems k] by simp
    then have "sem_update ns i (\<lambda>s. s\<lparr>ss_sems := semop_rollback sems (take k bs)\<rparr>) = ns" by (intro sem_update_same [OF inv s]) simp
    then show ?thesis using t TryRange s inv by (simp add: semop_round_def)
  next
    case (TryBlocked k)
    then have bk: "semop_rollback sems (take k bs) = ss_sems s" and k: "k < length bs" using t semop_try_rollback [of "ss_sems s" bs sems k] by simp_all
    then have b: "sem_update ns i (\<lambda>s. s\<lparr>ss_sems := semop_rollback sems (take k bs)\<rparr>) = ns" by (intro sem_update_same [OF inv s]) simp
    let ?w = "\<lparr>zl_env = env, zl_set = i, zl_sops = bs, zl_blocked = k, zl_deadline = deadline, zl_woken = False\<rparr>"
    let ?f = "\<lambda>s. sem_count Suc (bs ! k) (s\<lparr>ss_sems := semop_rollback sems (take k bs)\<rparr>)"
    have f: "?f s = sem_count Suc (blk ?w) s" using bk by simp
    have on: "on_set i (sn_sleepers ns @ [?w]) = on_set i (sn_sleepers ns) @ [?w]" by (simp add: on_obj_def)
    have w: "waits_ok (?f s) (on_set i (sn_sleepers ns) @ [?w])" unfolding f using si k assms(4) by (intro count_sleep) auto
    have "would_block s ?w" using t TryBlocked by (simp add: would_block_def)
    then have a: "asleep_ok s (on_set i (sn_sleepers ns) @ [?w])" using si assms(3) by (simp add: asleep_ok_def)
    have l: "length (ss_sems s) = ss_nsems s" using si by (simp add: shape_ok_def)
    have "asleep_ok (?f s) (on_set i (sn_sleepers ns) @ [?w])"
      unfolding f using a w l would_block_cong [OF count_keeps(2)] by (auto simp: asleep_ok_def waits_ok_def f count_keeps)
    then have "set_inv (?f s) (on_set i (sn_sleepers ns @ [?w]))" using w si by (simp add: on set_inv_def f count_keeps(1))
    moreover have "ss_id (?f s) = i" "ip_key (ss_perm (?f s)) = ip_key (ss_perm s)" "ss_removed (?f s) = ss_removed s"
      using sem_inv_idD [OF inv s] by (simp_all add: count_keeps)
    ultimately have "sem_inv {} ((sem_update ns i ?f)\<lparr>sn_sleepers := sn_sleepers ns @ [?w]\<rparr>)"
      using assms(3) by (intro sem_inv_change [OF inv s]) (auto simp: on_obj_def)
    then show ?thesis using t TryBlocked s inv b by (simp add: semop_round_def Let_def)
  qed
qed

lemma inv_semop:
  assumes "sem_inv {} ns"
  shows "sem_inv {} (fst (semop_common ns env clk i addr n deadline))"
proof -
  have "sem_inv {} (fst (semop_round ns env clk i sops deadline))"
    if "sem_find_by_id (sn_sets ns) i = Some s" "\<not> (\<exists>b \<in> set sops. unat (sb_num b) \<ge> ss_nsems s)" for s sops
    using that assms sem_inv_by_id [OF assms] by (intro round_set [of ns i s]) (auto simp: sops_ok_def not_le)
  then show ?thesis using assms by (auto simp: semop_common_def Let_def not_le split: option.splits)
qed

text \<open>A task stops waiting: its counters go down.\<close>

lemma set_inv_unsleep:
  assumes "set_inv s (As @ w # Bs)"
  shows "set_inv (sem_count (\<lambda>n. n - 1) (blk w) s) (As @ Bs)"
proof -
  let ?s = "sem_count (\<lambda>n. n - 1) (blk w) s"
  have wt: "waits_ok ?s (As @ Bs)" using assms count_unsleep by (simp add: set_inv_def)
  have "asleep_ok s (As @ Bs)" using assms by (auto simp: set_inv_def asleep_ok_def)
  then have "asleep_ok ?s (As @ Bs)" using wt assms would_block_cong [OF count_keeps(2)]
    by (auto simp: set_inv_def asleep_ok_def waits_ok_def count_keeps shape_ok_def)
  then show ?thesis using wt assms by (simp add: set_inv_def count_keeps)
qed

lemma inv_unsleep:
  assumes inv: "sem_inv {} ns" and k: "k < length (sn_sleepers ns)"
  defines "w \<equiv> sn_sleepers ns ! k"
  shows "sem_inv {zl_set w} ((sem_update ns (zl_set w) (sem_count (\<lambda>n. n - 1) (blk w)))
    \<lparr>sn_sleepers := take k (sn_sleepers ns) @ drop (Suc k) (sn_sleepers ns)\<rparr>)"
proof -
  have "w \<in> set (sn_sleepers ns)" using k by (simp add: w_def)
  then obtain s where s: "obj_at ss_id (zl_set w) (sn_sets ns) = Some s" using sem_invD(4) [OF inv] by blast
  show ?thesis
    using sns.ns_unsleep [OF inv [unfolded sem_inv_def] k s [unfolded w_def], of "sem_count (\<lambda>n. n - 1) (blk w)"] set_inv_unsleep
    by (simp add: sem_inv_def sem_update_def count_keeps w_def)
qed

lemma sem_inv_subset: "sem_inv X ns \<Longrightarrow> obj_at ss_id i (sn_sets ns) = Some s \<Longrightarrow> \<not> ss_removed s \<Longrightarrow> X \<subseteq> {i} \<Longrightarrow> sem_inv {} ns"
  unfolding sem_inv_def by (rule sns.ns_live)

lemma inv_wake:
  assumes inv: "sem_inv {} ns" and k: "k < length (sn_sleepers ns)"
  shows "sem_inv {} (fst (sem_wake ns k interrupted clk))"
proof -
  define w where "w = sn_sleepers ns ! k"
  define ns1 where "ns1 = (sem_update ns (zl_set w) (sem_count (\<lambda>n. n - 1) (blk w)))
    \<lparr>sn_sleepers := take k (sn_sleepers ns) @ drop (Suc k) (sn_sleepers ns)\<rparr>"
  have inv1: "sem_inv {zl_set w} ns1" using inv_unsleep [OF inv k] by (simp add: ns1_def w_def)
  have "w \<in> set (sn_sleepers ns)" using k by (simp add: w_def)
  then obtain s0 where s0: "obj_at ss_id (zl_set w) (sn_sets ns) = Some s0" using sem_invD(4) [OF inv] by blast
  define s where "s = sem_count (\<lambda>n. n - 1) (blk w) s0"
  have s: "obj_at ss_id (zl_set w) (sn_sets ns1) = Some s"
    using sns.at_update [OF sem_invD(1) [OF inv] s0, of "sem_count (\<lambda>n. n - 1) (blk w)"] sem_inv_idD [OF inv s0]
    by (simp add: ns1_def s_def sem_update_def count_keeps)
  have "w \<in> set (on_set (zl_set w) (sn_sleepers ns))" using k by (simp add: w_def on_obj_def)
  then have so: "sops_ok (ss_nsems s) (zl_sops w)" using sem_invD(2) [OF inv s0] by (auto simp: set_inv_def waits_ok_def s_def count_keeps)
  have wk: "sem_wake ns k interrupted clk =
      (if ss_removed s then (sem_set_maybe_free (zl_set w) ns1, SemDone (Inl EIDRM))
       else if interrupted then (ns1, SemDone (Inl EINTR))
       else semop_round ns1 (zl_env w) clk (zl_set w) (zl_sops w) (zl_deadline w))"
    unfolding sem_wake_def Let_def w_def [symmetric] ns1_def [symmetric] by (simp add: s)
  show ?thesis
  proof (cases "ss_removed s")
    case True
    then show ?thesis using sem_inv_maybe_free [OF inv1] by (simp add: wk)
  next
    case False
    then have "sem_inv {} ns1" using sem_inv_subset [OF inv1 s] by simp
    then show ?thesis using False round_set [OF _ s _ so] by (simp add: wk)
  qed
qed

section \<open>semctl\<close>

lemma inv_rmid:
  assumes inv: "sem_inv {} ns" and s: "obj_at ss_id i (sn_sets ns) = Some s"
  shows "sem_inv {} (sem_set_maybe_free i (sem_notify i (sem_update ns i (\<lambda>s. s\<lparr>ss_removed := True\<rparr>))))"
proof -
  have si: "set_inv s (on_set i (sn_sleepers ns))" by (rule sem_invD(2) [OF inv s])
  have "sem_inv {i} (sem_notify i (sem_update ns i (\<lambda>s. s\<lparr>ss_removed := True\<rparr>)))"
    by (rule sem_inv_notify [OF inv s])
      (use si sem_inv_idD [OF inv s] in \<open>auto simp: set_inv_def shape_ok_def waits_ok_def\<close>)
  then show ?thesis by (rule sem_inv_maybe_free)
qed

lemma shape_setval:
  assumes "shape_ok s" and "0 \<le> val" and "val \<le> SEMVMX"
  shows "shape_ok (s\<lparr>ss_sems := (ss_sems s)[n := (ss_sems s ! n)\<lparr>se_val := word_of_int val\<rparr>],
    ss_undos := map (\<lambda>u. u\<lparr>un_adj := (un_adj u)[n := 0]\<rparr>) (ss_undos s), ss_ctime := c\<rparr>)"
proof -
  have "int (unat (word_of_int val :: u16)) = val" using assms(2,3) by (simp add: unsigned_of_int take_bit_int_eq_self)
  then have "vals_ok ((ss_sems s)[n := (ss_sems s ! n)\<lparr>se_val := word_of_int val\<rparr>])"
    using assms set_update_subset_insert [of "ss_sems s" n] by (fastforce simp: vals_ok_def shape_ok_def)
  then show ?thesis using assms(1) by (auto simp: shape_ok_def comp_def)
qed

lemma shape_setall:
  assumes "shape_ok s" and "length vals = ss_nsems s" and "\<And>v. v \<in> set vals \<Longrightarrow> int (unat v) \<le> SEMVMX"
  shows "shape_ok (s\<lparr>ss_sems := set_vals vals (ss_sems s), ss_undos := map (\<lambda>u. u\<lparr>un_adj := replicate (ss_nsems s) 0\<rparr>) (ss_undos s), ss_ctime := c\<rparr>)"
proof -
  have "vals_ok (set_vals vals (ss_sems s))" using assms(3) by (auto simp: vals_ok_def set_vals_def dest!: set_zip_leftD)
  then show ?thesis using assms(1,2) by (auto simp: shape_ok_def set_vals_def comp_def)
qed

lemma set_vals_counts:
  "length vals = length sems \<Longrightarrow> map se_ncnt (set_vals vals sems) = map se_ncnt sems \<and> map se_zcnt (set_vals vals sems) = map se_zcnt sems"
  unfolding set_vals_def by (induction vals sems rule: list_induct2) auto

lemma inv_setval:
  assumes inv: "sem_inv {} ns" and s: "obj_at ss_id i (sn_sets ns) = Some s"
  shows "sem_inv {} (fst (semctl_setval ns env s semnum arg))"
proof -
  have sh: "shape_ok s" using sem_invD(2) [OF inv s] by (simp add: set_inv_def)
  have "sem_inv {} (sem_notify i (sem_update ns i (\<lambda>s. s\<lparr>ss_sems := (ss_sems s)[n := (ss_sems s ! n)\<lparr>se_val := word_of_int val\<rparr>],
      ss_undos := map (\<lambda>u. u\<lparr>un_adj := (un_adj u)[n := 0]\<rparr>) (ss_undos s), ss_ctime := ie_now env\<rparr>)))" if "0 \<le> val" "val \<le> SEMVMX" for n val
    by (rule same_waits_notify [OF inv s]) (use shape_setval [OF sh that] in \<open>simp_all add: same_waits_def map_update_same\<close>)
  then show ?thesis using inv sem_inv_idD [OF inv s] by (simp add: semctl_setval_def Let_def not_less del: of_int_sint)
qed

lemma inv_setall:
  assumes inv: "sem_inv {} ns" and s: "obj_at ss_id i (sn_sets ns) = Some s"
  shows "sem_inv {} (fst (semctl_setall ns env s arg))"
proof -
  have sh: "shape_ok s" using sem_invD(2) [OF inv s] by (simp add: set_inv_def)
  have "sem_inv {} (sem_notify i (sem_update ns i (\<lambda>s. s\<lparr>ss_sems := set_vals vals (ss_sems s),
      ss_undos := map (\<lambda>u. u\<lparr>un_adj := replicate (ss_nsems s) 0\<rparr>) (ss_undos s), ss_ctime := ie_now env\<rparr>)))"
    if "length vals = ss_nsems s" "\<And>v. v \<in> set vals \<Longrightarrow> int (unat v) \<le> SEMVMX" for vals
    by (rule same_waits_notify [OF inv s])
      (use shape_setall [OF sh that] set_vals_counts [of vals "ss_sems s"] sh that(1) in \<open>simp_all add: same_waits_def shape_ok_def\<close>)
  note ok = this
  show ?thesis
  proof (cases "ie_read env arg (2 * ss_nsems s)")
    case (Some bs)
    let ?vals = "map (\<lambda>i. of_nat (le_field (2 * i) 2 bs) :: u16) [0..<ss_nsems s]"
    show ?thesis
    proof (cases "\<exists>v \<in> set ?vals. int (unat v) > SEMVMX")
      case False
      then have "int (unat v) \<le> SEMVMX" if "v \<in> set ?vals" for v using that linorder_not_le by blast
      from ok [of ?vals, OF _ this] show ?thesis using inv Some False sem_inv_idD [OF inv s] by (simp add: semctl_setall_def Let_def)
    qed (use inv Some in \<open>simp add: semctl_setall_def Let_def\<close>)
  qed (use inv in \<open>simp add: semctl_setall_def\<close>)
qed

lemma inv_set:
  assumes inv: "sem_inv {} ns" and s: "obj_at ss_id i (sn_sets ns) = Some s" and nr: "\<not> ss_removed s"
  shows "sem_inv {} (fst (semctl_set ns env s arg))"
proof -
  have si: "set_inv s (on_set i (sn_sleepers ns))" by (rule sem_invD(2) [OF inv s])
  have "sem_inv {} (sem_update ns i (\<lambda>s. s\<lparr>ss_perm := p, ss_ctime := ie_now env\<rparr>))" if "ip_key p = ip_key (ss_perm s)" for p
  proof -
    have "set_inv (s\<lparr>ss_perm := p, ss_ctime := ie_now env\<rparr>) (on_set i (sn_sleepers ns))"
      using si by (simp add: set_inv_def shape_ok_def waits_ok_def asleep_ok_def would_block_def)
    then show ?thesis using that sem_inv_idD [OF inv s] by (intro sem_inv_quiet [OF inv s]) simp_all
  qed
  moreover have "ip_key p = ip_key (ss_perm s)" if "set_perm env req (ss_perm s) = Inr p" for req p
    using that by (auto simp: set_perm_def Let_def split: prod.splits if_splits)
  ultimately show ?thesis using inv sem_inv_idD [OF inv s] by (auto simp: semctl_set_def split: option.splits sum.splits)
qed

lemma inv_semctl:
  assumes inv: "sem_inv {} ns"
  shows "sem_inv {} (fst (sys_semctl ns env semid semnum cmd arg))"
proof (cases "sem_find_by_id (sn_sets ns) semid")
  case (Some s)
  then have s: "obj_at ss_id semid (sn_sets ns) = Some s" and nr: "\<not> ss_removed s" using sem_inv_by_id [OF inv] by auto
  have "sem_inv {} (fst (semctl_rmid ns env s))" using inv_rmid [OF inv s] inv sem_inv_idD [OF inv s] by (simp add: semctl_rmid_def)
  then show ?thesis using Some inv inv_setval [OF inv s] inv_setall [OF inv s] inv_set [OF inv s nr] by (simp add: sys_semctl_def Let_def)
qed (use inv in \<open>simp add: sys_semctl_def Let_def\<close>)

section \<open>The end of a thread group\<close>

lemma inv_undo:
  assumes inv: "sem_inv {} ns" and s: "obj_at ss_id i (sn_sets ns) = Some s"
  shows "sem_inv {} ((if undo_changes g s then sem_notify i else id) (sem_update ns i (undo_apply g)))"
proof -
  have si: "shape_ok s" "waits_ok s (on_set i (sn_sleepers ns))" "asleep_ok s (on_set i (sn_sleepers ns))"
    using sem_invD(2) [OF inv s] by (simp_all add: set_inv_def)
  note k = undo_keeps [OF si(1), of g]
  show ?thesis
  proof (cases "undo_changes g s")
    case True
    then show ?thesis using same_waits_notify [where f = "undo_apply g", OF inv s k(2,1)] by simp
  next
    case False
    note same = undo_unchanged [OF si(1) this]
    have "set_inv (undo_apply g s) (on_set i (sn_sleepers ns))"
      using si k waits_cong [OF k(2)] same by (auto simp: set_inv_def same_waits_def asleep_ok_def would_block_def)
    then have "sem_inv {} (sem_update ns i (undo_apply g))"
      using k(2) sem_inv_idD [OF inv s] by (intro sem_inv_quiet [OF inv s]) (simp_all add: same_waits_def)
    then show ?thesis using False by simp
  qed
qed

lemma at_sem_update:
  assumes "sem_inv X ns" and "obj_at ss_id i (sn_sets ns) = Some s" and "ss_id (f s) = i"
  shows "obj_at ss_id j (sn_sets (sem_update ns i f)) = (if j = i then Some (f s) else obj_at ss_id j (sn_sets ns))"
  using sns.at_update [where f = f, OF sem_invD(1) [OF assms(1)] assms(2,3)] by (simp add: sem_update_def)

lemma sets_notify [simp]: "sn_sets (sem_notify i ns) = sn_sets ns"
  by (simp add: sem_notify_def)

abbreviation exit_step :: "nat \<Rightarrow> sem_ns \<Rightarrow> sem_set \<Rightarrow> sem_ns" where
  "exit_step g ns s \<equiv> (if undo_changes g s then sem_notify (ss_id s) else id) (sem_update ns (ss_id s) (undo_apply g))"

lemma exit_fold:
  assumes "sem_inv {} ns" and "distinct (map ss_id xs)" and "\<And>x. x \<in> set xs \<Longrightarrow> obj_at ss_id (ss_id x) (sn_sets ns) = Some x"
  shows "sem_inv {} (foldl (exit_step g) ns xs) \<and>
    (\<forall>j. obj_at ss_id j (sn_sets (foldl (exit_step g) ns xs)) =
       (if j \<in> ss_id ` set xs then map_option (undo_apply g) else id) (obj_at ss_id j (sn_sets ns)))"
  using assms
proof (induction xs arbitrary: ns)
  case (Cons x xs)
  let ?ns = "exit_step g ns x"
  have x: "obj_at ss_id (ss_id x) (sn_sets ns) = Some x" using Cons.prems(3) by simp
  have "sn_sets ?ns = sn_sets (sem_update ns (ss_id x) (undo_apply g))" by simp
  then have at: "obj_at ss_id j (sn_sets ?ns) = (if j = ss_id x then Some (undo_apply g x) else obj_at ss_id j (sn_sets ns))" for j
    using at_sem_update [OF Cons.prems(1) x, of "undo_apply g"] by (simp add: undo_apply_def)
  have "obj_at ss_id (ss_id y) (sn_sets ?ns) = Some y" if "y \<in> set xs" for y
  proof -
    have "ss_id y \<noteq> ss_id x" using that Cons.prems(2) by (metis distinct.simps(2) image_eqI list.set_map list.simps(9))
    then show ?thesis using that Cons.prems(3) by (simp add: at)
  qed
  from Cons.IH [OF inv_undo [OF Cons.prems(1) x] _ this] Cons.prems(2)
  have IH: "sem_inv {} (foldl (exit_step g) ?ns xs)"
    "obj_at ss_id j (sn_sets (foldl (exit_step g) ?ns xs)) = (if j \<in> ss_id ` set xs then map_option (undo_apply g) else id) (obj_at ss_id j (sn_sets ?ns))" for j
    by simp_all
  have "ss_id x \<notin> ss_id ` set xs" using Cons.prems(2) by simp
  then show ?case using IH(1) x unfolding foldl.simps IH(2) at by auto
qed simp

lemma inv_exit:
  assumes "sem_inv {} ns"
  shows "sem_inv {} (sysv_sem_exit ns g)"
    and "obj_at ss_id j (sn_sets (sysv_sem_exit ns g)) = map_option (undo_apply g) (obj_at ss_id j (sn_sets ns))"
proof -
  note t = sem_invD(1) [OF assms]
  have d: "distinct (map ss_id (sn_sets ns))" using t by (simp add: sns.table_ok_def)
  have at: "obj_at ss_id (ss_id x) (sn_sets ns) = Some x" if "x \<in> set (sn_sets ns)" for x using that sns.at_iff [OF t] by simp
  have "obj_at ss_id j (sn_sets ns) = None" if "j \<notin> ss_id ` set (sn_sets ns)" using that by (auto simp: obj_at_def find_None_iff)
  then show "sem_inv {} (sysv_sem_exit ns g)"
    and "obj_at ss_id j (sn_sets (sysv_sem_exit ns g)) = map_option (undo_apply g) (obj_at ss_id j (sn_sets ns))"
    using exit_fold [OF assms d at, of g] by (auto simp: sysv_sem_exit_def)
qed

section \<open>Reachable states\<close>

definition sem_ns_init :: sem_ns where
  "sem_ns_init = \<lparr>sn_sets = [], sn_next_id = 1, sn_sleepers = []\<rparr>"

inductive sem_step :: "sem_ns \<Rightarrow> sem_ns \<Rightarrow> bool" where
  semget: "sem_step ns (fst (sys_semget ns env key n flg))"
| semop: "sem_step ns (fst (sys_semop ns env clk semid addr nsops))"
| semtimedop: "sem_step ns (fst (sys_semtimedop ns env clk timeout semid addr nsops timeout_addr))"
| wake: "k < length (sn_sleepers ns) \<Longrightarrow> sem_step ns (fst (sem_wake ns k interrupted clk))"
| semctl: "sem_step ns (fst (sys_semctl ns env semid semnum cmd arg))"
| group_exit: "sem_step ns (sysv_sem_exit ns g)"

inductive sem_reachable :: "sem_ns \<Rightarrow> bool" where
  init: "sem_reachable sem_ns_init"
| step: "sem_reachable ns \<Longrightarrow> sem_step ns ns' \<Longrightarrow> sem_reachable ns'"

lemma sem_step_inv: "sem_step ns ns' \<Longrightarrow> sem_inv {} ns \<Longrightarrow> sem_inv {} ns'"
  by (induction rule: sem_step.induct)
    (auto simp: inv_semget inv_semop inv_wake inv_semctl inv_exit sys_semop_def sys_semtimedop_def split: option.splits)

lemma sem_reachable_inv: "sem_reachable ns \<Longrightarrow> sem_inv {} ns"
proof (induction rule: sem_reachable.induct)
  case init
  show ?case by (simp add: sem_inv_def sem_ns_init_def sns.ns_empty)
next
  case (step ns ns')
  then show ?case using sem_step_inv by blast
qed

text \<open>When a namespace with no task left goes away, so do its sets.\<close>

lemma teardown_frees:
  assumes "sem_inv {} ns" and "sn_sleepers ns = []"
  shows "sn_sets (sem_ns_teardown ns) = []"
proof -
  have "sem_set_maybe_free (ss_id x) (sem_notify (ss_id x) (sem_update ns' (ss_id x) (\<lambda>s. s\<lparr>ss_removed := True\<rparr>))) =
      ns'\<lparr>sn_sets := obj_drop ss_id (ss_id x) (sn_sets ns')\<rparr>"
    if "sem_inv {} ns'" "sn_sleepers ns' = []" "obj_at ss_id (ss_id x) (sn_sets ns') = Some x" for ns' x
  proof -
    have "ss_waiters x = 0" using sem_invD(2) [OF that(1,3)] that(2) by (simp add: set_inv_def waits_ok_def on_obj_def)
    moreover have "obj_drop ss_id (ss_id x) (obj_update ss_id (ss_id x) (\<lambda>s. s\<lparr>ss_removed := True\<rparr>) xs) = obj_drop ss_id (ss_id x) xs" for xs
      by (induction xs) (auto simp: obj_drop_def obj_update_def)
    ultimately show ?thesis using at_sem_update [OF that(1,3), of "\<lambda>s. s\<lparr>ss_removed := True\<rparr>" "ss_id x"] that(2)
      by (cases ns') (simp add: sem_set_maybe_free_def sem_notify_def sem_update_def)
  qed
  note drop = this
  have "sn_sets (foldl (\<lambda>ns s. sem_set_maybe_free (ss_id s) (sem_notify (ss_id s) (sem_update ns (ss_id s) (\<lambda>s. s\<lparr>ss_removed := True\<rparr>)))) ns xs) = []"
    if "sem_inv {} ns" "sn_sleepers ns = []" "sn_sets ns = xs" for ns xs
    using that
  proof (induction xs arbitrary: ns)
    case (Cons x xs)
    have d: "distinct (map ss_id (x # xs))" using sem_invD(1) [OF Cons.prems(1)] Cons.prems(3) by (simp add: sns.table_ok_def)
    have x: "obj_at ss_id (ss_id x) (sn_sets ns) = Some x" using Cons.prems(3) by (simp add: obj_at_def)
    note eq = drop [OF Cons.prems(1,2) x]
    have "obj_drop ss_id (ss_id x) (sn_sets ns) = xs" using d Cons.prems(3) by (auto simp: obj_drop_def filter_id_conv) (metis image_eqI)
    then show ?case using Cons.IH [of "ns\<lparr>sn_sets := xs\<rparr>"] Cons.prems(2) eq inv_rmid [OF Cons.prems(1) x] by (simp add: x)
  qed simp
  then show ?thesis using assms by (simp add: sem_ns_teardown_def)
qed

end
