(* ===== verification/SysvSem_Props.thy ===== *)
theory SysvSem_Props
  imports SysvSem_Reach
begin

text \<open>
  What the semaphores promise: values in range, arrays of operations that happen as a whole or
  not at all, exact counters, no task asleep on what it could do, and \<^verbatim>\<open>SEM_UNDO\<close>.
\<close>

section \<open>Undo\<close>

text \<open>The adjustment a thread group has pending on a semaphore.\<close>

definition adj_of :: "nat \<Rightarrow> sem_set \<Rightarrow> nat \<Rightarrow> u16" where
  "adj_of g s n = (case find (\<lambda>u. un_group u = g) (ss_undos s) of None \<Rightarrow> 0 | Some u \<Rightarrow> un_adj u ! n)"

definition op_sum :: "(sembuf \<Rightarrow> bool) \<Rightarrow> nat \<Rightarrow> sembuf list \<Rightarrow> u16" where
  "op_sum P n bs = sum_list (map sb_op (filter (\<lambda>b. P b \<and> unat (sb_num b) = n) bs))"

abbreviation undone :: "sembuf \<Rightarrow> bool" where
  "undone b \<equiv> sb_flg b AND SEM_UNDO \<noteq> 0"

lemma bump_all_val: "n < length sems \<Longrightarrow> se_val (bump_all bs sems ! n) = se_val (sems ! n) + op_sum (\<lambda>_. True) n bs"
proof (induction bs arbitrary: sems)
  case (Cons b bs)
  have "bump_all (b # bs) sems = bump_all bs (sem_bump (unat (sb_num b)) (sb_op b) sems)" by (simp add: bump_all_def)
  then show ?case using Cons by (auto simp: op_sum_def sem_bump_def se_add_def nth_list_update)
qed (simp add: bump_all_def op_sum_def)

lemma find_adjust:
  "find (\<lambda>u. un_group u = g) (undo_adjust g n v us) =
     map_option (\<lambda>u. u\<lparr>un_adj := (un_adj u)[n := un_adj u ! n - v]\<rparr>) (find (\<lambda>u. un_group u = g) us)"
  by (induction us) (auto simp: undo_adjust_def)

lemma find_append: "find P (xs @ ys) = (case find P xs of None \<Rightarrow> find P ys | Some x \<Rightarrow> Some x)"
  by (induction xs) auto

lemma undo_get_find:
  assumes "ie_alloc env"
  shows "snd (sem_undo_get env s)" and "find (\<lambda>u. un_group u = ie_group env) (ss_undos (fst (sem_undo_get env s))) =
    Some (case find (\<lambda>u. un_group u = ie_group env) (ss_undos s) of None \<Rightarrow> \<lparr>un_group = ie_group env, un_adj = replicate (ss_nsems s) 0\<rparr> | Some u \<Rightarrow> u)"
proof -
  show "find (\<lambda>u. un_group u = ie_group env) (ss_undos (fst (sem_undo_get env s))) =
      Some (case find (\<lambda>u. un_group u = ie_group env) (ss_undos s) of None \<Rightarrow> \<lparr>un_group = ie_group env, un_adj = replicate (ss_nsems s) 0\<rparr> | Some u \<Rightarrow> u)"
  proof (cases "find (\<lambda>u. un_group u = ie_group env) (ss_undos s)")
    case None
    then have "\<not> (\<exists>u \<in> set (ss_undos s). un_group u = ie_group env)" by (simp add: find_None_iff)
    then show ?thesis using assms None by (simp add: sem_undo_get_def find_append)
  next
    case (Some u)
    from find_SomeD [OF this] have "\<exists>u \<in> set (ss_undos s). un_group u = ie_group env" by blast
    then show ?thesis using Some by (simp add: sem_undo_get_def)
  qed
qed (simp add: sem_undo_get_def assms)

lemma record_adj:
  assumes "shape_ok s" and "ie_alloc env" and "unat (sb_num b) < ss_nsems s" and "n < ss_nsems s"
  shows "adj_of (ie_group env) (semop_record env s b) n = adj_of (ie_group env) s n - (if undone b \<and> unat (sb_num b) = n then sb_op b else 0)"
proof -
  define s1 where "s1 = s\<lparr>ss_sems := (ss_sems s)[unat (sb_num b) := (ss_sems s ! unat (sb_num b))\<lparr>se_last_pid := ie_tgid env\<rparr>]\<rparr>"
  have s1: "ss_undos s1 = ss_undos s" "ss_nsems s1 = ss_nsems s" by (simp_all add: s1_def)
  have eq: "semop_record env s b = (if undone b \<and> sb_op b \<noteq> 0 then
      (case sem_undo_get env s1 of (s2, found) \<Rightarrow> if found then s2\<lparr>ss_undos := undo_adjust (ie_group env) (unat (sb_num b)) (sb_op b) (ss_undos s2)\<rparr> else s2) else s1)"
    by (simp add: semop_record_def Let_def s1_def)
  have len: "length (un_adj u) = ss_nsems s" if "find (\<lambda>u. un_group u = ie_group env) (ss_undos s) = Some u" for u
    using find_SomeD [OF that] assms(1) by (simp add: shape_ok_def)
  show ?thesis
  proof (cases "undone b \<and> sb_op b \<noteq> 0")
    case True
    obtain s2 where s2: "sem_undo_get env s1 = (s2, True)" using undo_get_find(1) [OF assms(2), of s1] by (cases "sem_undo_get env s1") simp
    have u: "find (\<lambda>u. un_group u = ie_group env) (ss_undos s2) = Some (case find (\<lambda>u. un_group u = ie_group env) (ss_undos s) of
        None \<Rightarrow> \<lparr>un_group = ie_group env, un_adj = replicate (ss_nsems s) 0\<rparr> | Some u \<Rightarrow> u)"
      using undo_get_find(2) [OF assms(2), of s1] unfolding s1 s2 fst_conv .
    show ?thesis using True len assms(3,4)
      by (cases "find (\<lambda>u. un_group u = ie_group env) (ss_undos s)") (simp_all add: eq s2 adj_of_def find_adjust u nth_list_update)
  qed (auto simp: eq adj_of_def s1)
qed

lemma finish_adj:
  assumes "shape_ok s" and "ie_alloc env" and "sops_ok (ss_nsems s) bs" and "n < ss_nsems s"
  shows "adj_of (ie_group env) (semop_finish env bs s) n = adj_of (ie_group env) s n - op_sum undone n bs"
proof -
  have "adj_of (ie_group env) (foldl (semop_record env) s bs) n = adj_of (ie_group env) s n - op_sum undone n bs"
    using assms
  proof (induction bs arbitrary: s)
    case (Cons b bs)
    have "ss_nsems (semop_record env s b) = ss_nsems s" using record_keeps(2) [OF Cons.prems(1), of env b] by (simp add: same_waits_def)
    then show ?case
      using Cons.IH [OF record_keeps(1) [OF Cons.prems(1)]] record_adj [OF Cons.prems(1,2), of b n] Cons.prems(2-4)
      by (auto simp: sops_ok_def op_sum_def)
  qed (simp add: op_sum_def)
  then show ?thesis by (simp add: semop_finish_def adj_of_def)
qed

lemma filter_group:
  "distinct (map un_group us) \<Longrightarrow> filter (\<lambda>u. un_group u = g) us = (case find (\<lambda>u. un_group u = g) us of None \<Rightarrow> [] | Some u \<Rightarrow> [u])"
proof (induction us)
  case (Cons u us)
  have "filter (\<lambda>u. un_group u = g) us = []" if "un_group u = g"
    using Cons.prems that by (auto simp: filter_empty_conv image_iff)
  then show ?case using Cons by auto
qed simp

lemma undo_apply_val:
  assumes "shape_ok s" and "n < ss_nsems s"
  shows "se_val (ss_sems (undo_apply g s) ! n) = (let a = adj_of g s n; v = se_val (ss_sems s ! n) in if a = 0 then v else clamp_val (int (unat v) + sint a))"
proof -
  have len: "length (un_adj u) = ss_nsems s" if "find (\<lambda>u. un_group u = g) (ss_undos s) = Some u" for u
    using find_SomeD [OF that] assms(1) by (simp add: shape_ok_def)
  have "distinct (map un_group (ss_undos s))" "length (ss_sems s) = ss_nsems s" using assms(1) by (simp_all add: shape_ok_def)
  then show ?thesis using assms(2) len
    by (auto simp: undo_apply_def filter_group adj_of_def undo_entry_def Let_def split: option.splits)
qed

text \<open>What an operation took is what the adjustment gives back, both values being in range.\<close>

lemma undo_exact:
  assumes "int (unat v) \<le> SEMVMX" and "int (unat v') \<le> SEMVMX" and "v' = v + d" and "a = - d"
  shows "(if a = 0 then v' else clamp_val (int (unat v') + sint a)) = v"
proof -
  have a: "a = v - v'" using assms(3,4) by simp
  have "sint (v - v') = int (unat v) - int (unat v')"
  proof -
    have nn: "- 32768 \<le> int (unat v) - int (unat v')" "int (unat v) - int (unat v') < 32768" using assms(1,2) by linarith+
    have "v - v' = word_of_int (int (unat v) - int (unat v'))" by simp
    then have "sint (v - v') = signed_take_bit 15 (int (unat v) - int (unat v'))" by (simp only: signed_of_int) simp
    also have "\<dots> = int (unat v) - int (unat v')" by (rule signed_take_bit_int_eq_self) (use nn in simp_all)
    finally show ?thesis .
  qed
  then have "clamp_val (int (unat v') + sint a) = word_of_int (int (unat v))" using assms(1) by (simp add: a clamp_val_def)
  then show ?thesis using assms(3,4) by auto
qed

lemma sem_vals_cong: "map se_val sems = map se_val sems' \<Longrightarrow> sem_vals sems = sem_vals sems'"
proof -
  have *: "sem_vals xs n = (if n < length (map se_val xs) then int (unat (map se_val xs ! n)) else 0)" for xs n by (simp add: sem_vals_def)
  show "map se_val sems = map se_val sems' \<Longrightarrow> ?thesis" unfolding fun_eq_iff * by simp
qed

section \<open>An example\<close>

definition sem_env :: "u32 \<Rightarrow> u8 list \<Rightarrow> ipc_env" where
  "sem_env uid bytes = \<lparr>ie_euid = uid, ie_egid = uid, ie_capable = False, ie_tid = 9, ie_tgid = 9, ie_group = 4, ie_abi = GUEST_ABI_I386, ie_now = 77,
     ie_make_kuid = id, ie_make_kgid = id, ie_uid_shown = id, ie_gid_shown = id, ie_pid_shown = id,
     ie_read = (\<lambda>a n. Some (take n bytes)), ie_writable = (\<lambda>a n. True), ie_alloc = True\<rparr>"

definition ex_entry :: "u16 \<Rightarrow> nat \<Rightarrow> sem_entry" where
  "ex_entry v n = \<lparr>se_val = v, se_last_pid = 0, se_ncnt = n, se_zcnt = 0\<rparr>"

definition ex_set :: "u16 \<Rightarrow> nat \<Rightarrow> sem_set" where
  "ex_set v n = \<lparr>ss_id = 1, ss_perm = \<lparr>ip_key = 5, ip_uid = 10, ip_gid = 10, ip_cuid = 10, ip_cgid = 10, ip_mode = 0x180\<rparr>, ss_nsems = 1,
     ss_otime = 0, ss_ctime = 77, ss_removed = False, ss_waiters = n, ss_sems = [ex_entry v n], ss_undos = []\<rparr>"

definition ex_down :: sembuf where
  "ex_down = \<lparr>sb_num = 0, sb_op = - 1, sb_flg = SEM_UNDO\<rparr>"

definition ex_sleeper :: sem_sleeper where
  "ex_sleeper = \<lparr>zl_env = sem_env 10 [0, 0, 0xff, 0xff, 0, 0x10], zl_set = 1, zl_sops = [ex_down], zl_blocked = 0, zl_deadline = None, zl_woken = False\<rparr>"

definition ex_ns :: "u16 \<Rightarrow> sem_sleeper list \<Rightarrow> sem_ns" where
  "ex_ns v W = \<lparr>sn_sets = [ex_set v (length W)], sn_next_id = 2, sn_sleepers = W\<rparr>"

lemmas ex_sem_defs = ex_ns_def ex_set_def ex_entry_def ex_down_def ex_sleeper_def sem_env_def

lemma ex_semget: "fst (sys_semget sem_ns_init (sem_env 10 []) 5 1 0x380) = ex_ns 0 []"
  by (simp add: sys_semget_def sem_find_by_key_def sem_ns_init_def new_perm_def ex_sem_defs)

lemma ex_find: "sem_find_by_id (sn_sets (ex_ns v W)) 1 = Some (ex_set v (length W))" "obj_at ss_id 1 (sn_sets (ex_ns v W)) = Some (ex_set v (length W))"
  by (simp_all add: sem_find_by_id_def obj_at_def ex_sem_defs)

lemma ex_setval: "fst (sys_semctl (ex_ns 0 []) (sem_env 10 []) 1 0 SETVAL 5) = ex_ns 5 []"
  by (simp add: sys_semctl_def sem_find_by_id_def semctl_setval_def Let_def sem_notify_def sem_update_def obj_update_def ex_sem_defs)

lemma ex_decode: "decode_sops 1 [0, 0, 0xff, 0xff, 0, 0x10] = [ex_down]"
  by (simp add: decode_sops_def decode_sembuf_def le_field_def le_nat_def ex_down_def)

lemma ex_try: "semop_try [ex_entry 0 n] [ex_down] 0 = ([ex_entry 0 n], TryBlocked 0)"
  by (simp add: semop_try_Cons sem_stop_def ex_down_def ex_entry_def)

lemma ex_apply:
  "\<exists>vs. seq_apply (sem_vals (ss_sems (ex_set 5 0))) (abs_ops [ex_down, ex_down]) = Some vs \<and> vs 0 = 3"
  by (simp add: abs_ops_def sem_vals_def ex_sem_defs)

lemma ex_done: "snd (semop_round (ex_ns 5 []) (sem_env 10 []) 0 1 [ex_down, ex_down] None) = SemDone (Inr 0)"
proof -
  have "snd (semop_try [ex_entry 5 0] [ex_down, ex_down] 0) = TryDone"
    by (simp add: semop_try_Cons sem_stop_def sem_bump_def se_add_def ex_down_def ex_entry_def)
  then show ?thesis by (auto simp: semop_round_def ex_find ex_set_def split: prod.splits)
qed

lemma ex_sleep: "fst (sys_semop (ex_ns 0 []) (sem_env 10 [0, 0, 0xff, 0xff, 0, 0x10]) 0 1 0 1) = ex_ns 0 [ex_sleeper]"
proof -
  have "ipc_access_ok (sem_env 10 [0, 0, 0xff, 0xff, 0, 0x10]) (ss_perm (ex_set 0 0)) 2"
    by (simp add: ipc_access_ok_def ipc_granted_def ex_sem_defs)
  then show ?thesis
    using ex_try [of 0] ex_decode
    by (simp add: sys_semop_def semop_common_def sem_find_by_id_def obj_at_def semop_round_def Let_def semop_rollback_def sem_count_def expired_def sem_update_def obj_update_def ex_sem_defs)
qed

lemma ex_sem_reachable: "sem_reachable (ex_ns 0 [])" "sem_reachable (ex_ns 5 [])" "sem_reachable (ex_ns 0 [ex_sleeper])"
proof -
  show r0: "sem_reachable (ex_ns 0 [])" using sem_reachable.step [OF sem_reachable.init sem_step.semget] unfolding ex_semget [symmetric] .
  show "sem_reachable (ex_ns 5 [])" using sem_reachable.step [OF r0 sem_step.semctl] unfolding ex_setval [symmetric] .
  show "sem_reachable (ex_ns 0 [ex_sleeper])" using sem_reachable.step [OF r0 sem_step.semop] unfolding ex_sleep [symmetric] .
qed

section \<open>Properties\<close>



text \<open>
  C29 (refinement). An array of operations happens as a whole or not at all. If the operations can be done one after the other
  on the values as they are, \<^verbatim>\<open>semop\<close> returns 0 and the values are the ones this gives; if not, it does not return 0,
  whatever it had applied is taken back, and the values are those from before. The other sets do not change.
\<close>

theorem semop_atomic:
  assumes "sem_reachable ns" and "obj_at ss_id i (sn_sets ns) = Some s" and "sops_ok (ss_nsems s) bs"
    and "semop_round ns env clk i bs deadline = (ns', res)"
  shows "\<exists>s'. obj_at ss_id i (sn_sets ns') = Some s' \<and>
      (case seq_apply (sem_vals (ss_sems s)) (abs_ops bs) of
         Some vs \<Rightarrow> res = SemDone (Inr 0) \<and> sem_vals (ss_sems s') = vs
       | None \<Rightarrow> res \<noteq> SemDone (Inr 0) \<and> map se_val (ss_sems s') = map se_val (ss_sems s)) \<and>
      (\<forall>j. j \<noteq> i \<longrightarrow> obj_at ss_id j (sn_sets ns') = obj_at ss_id j (sn_sets ns))"
proof -
  note inv = sem_reachable_inv [OF assms(1)]
  have sh: "shape_ok s" using sem_invD(2) [OF inv assms(2)] by (simp add: set_inv_def)
  obtain sems r where t: "semop_try (ss_sems s) bs 0 = (sems, r)" by (cases "semop_try (ss_sems s) bs 0")
  have ref: "if r = TryDone then seq_apply (sem_vals (ss_sems s)) (abs_ops bs) = Some (sem_vals sems) \<and> vals_ok sems
      else seq_apply (sem_vals (ss_sems s)) (abs_ops bs) = None"
    using semop_try_refines [OF _ _ t] sh assms(3) by (simp add: shape_ok_def sops_ok_def)
  define bk :: "nat \<Rightarrow> sem_set \<Rightarrow> sem_set" where "bk = (\<lambda>k s. s\<lparr>ss_sems := semop_rollback sems (take k bs)\<rparr>)"
  define f where "f = (\<lambda>s. case r of TryDone \<Rightarrow> semop_finish env bs (s\<lparr>ss_sems := sems\<rparr>) | TryRange k \<Rightarrow> bk k s
    | TryBlocked k \<Rightarrow> if res = SemSleep then sem_count Suc (bs ! k) (bk k s) else bk k s)"
  have sets: "sn_sets ns' = sn_sets (sem_update ns i f)" and res: "res = SemDone (Inr 0) \<longleftrightarrow> r = TryDone"
    using assms(2,4) t by (auto simp: f_def bk_def semop_round_def Let_def sem_update_def split: sem_try.splits if_splits)
  have vals: "ss_id (f s) = ss_id s \<and> map se_val (ss_sems (f s)) = map se_val (if r = TryDone then sems else ss_sems s)"
  proof (cases r)
    case TryDone
    have b: "sems = bump_all bs (ss_sems s)" using semop_tryD [OF t] TryDone by simp
    have "length sems = ss_nsems s" using sh unfolding b shape_ok_def by (metis bump_all_counts(1) length_map)
    then have "shape_ok (s\<lparr>ss_sems := sems\<rparr>)" using sh ref TryDone by (simp add: shape_ok_def)
    from finish_keeps [OF this, of env bs] show ?thesis using TryDone by (simp add: f_def same_waits_def)
  next
    case (TryRange k)
    then show ?thesis using semop_try_rollback(1) [of "ss_sems s" bs sems k] t by (simp add: f_def bk_def)
  next
    case (TryBlocked k)
    then show ?thesis using semop_try_rollback(1) [of "ss_sems s" bs sems k] t by (simp add: f_def bk_def count_keeps)
  qed
  have at: "obj_at ss_id j (sn_sets ns') = (if j = i then Some (f s) else obj_at ss_id j (sn_sets ns))" for j
    unfolding sets by (rule at_sem_update [OF inv assms(2)]) (use vals sem_inv_idD [OF inv assms(2)] in simp)
  have "sem_vals (ss_sems (f s)) = sem_vals sems" if "r = TryDone" by (rule sem_vals_cong) (use vals that in simp)
  then show ?thesis using ref res vals by (auto simp: at)
qed

theorem semop_atomic_witness:
  "\<exists>s'. obj_at ss_id 1 (sn_sets (fst (semop_round (ex_ns 5 []) (sem_env 10 []) 0 1 [ex_down, ex_down] None))) = Some s' \<and>
     sem_vals (ss_sems s') 0 = 3"
proof -
  have r: "semop_round (ex_ns 5 []) (sem_env 10 []) 0 1 [ex_down, ex_down] None =
      (fst (semop_round (ex_ns 5 []) (sem_env 10 []) 0 1 [ex_down, ex_down] None), snd (semop_round (ex_ns 5 []) (sem_env 10 []) 0 1 [ex_down, ex_down] None))" by simp
  have "sops_ok (ss_nsems (ex_set 5 (length []))) [ex_down, ex_down]" by (simp add: sops_ok_def ex_sem_defs)
  from semop_atomic [OF ex_sem_reachable(2) ex_find(2) this r] show ?thesis using ex_apply by auto
qed

text \<open>
  C30 (liveness). No wake-up is lost: a task that is asleep and has not been woken waits on a set that exists and is not
  removed, and its array still cannot be done on the values as they are, the operation it is
  counted at being one that has to wait.
\<close>

theorem sem_no_lost_wakeup:
  assumes "sem_reachable ns" and "w \<in> set (sn_sleepers ns)" and "\<not> zl_woken w"
  shows "\<exists>s. sem_find_by_id (sn_sets ns) (zl_set w) = Some s \<and> snd (semop_try (ss_sems s) (zl_sops w) 0) = TryBlocked (zl_blocked w) \<and>
    seq_apply (sem_vals (ss_sems s)) (abs_ops (zl_sops w)) = None"
proof -
  note inv = sem_reachable_inv [OF assms(1)]
  obtain s where s: "obj_at ss_id (zl_set w) (sn_sets ns) = Some s" using sem_invD(4) [OF inv assms(2)] by blast
  have "w \<in> set (on_set (zl_set w) (sn_sleepers ns))" using assms(2) by (simp add: on_obj_def)
  then have w: "\<not> ss_removed s" "would_block s w" "sops_ok (ss_nsems s) (zl_sops w)" "shape_ok s"
    using sem_invD(2) [OF inv s] assms(3) by (auto simp: set_inv_def asleep_ok_def waits_ok_def)
  moreover obtain sems where "semop_try (ss_sems s) (zl_sops w) 0 = (sems, TryBlocked (zl_blocked w))"
    using w(2) by (metis would_block_def prod.collapse)
  from semop_try_refines [OF _ _ this] have "seq_apply (sem_vals (ss_sems s)) (abs_ops (zl_sops w)) = None"
    using w(3,4) by (simp add: shape_ok_def sops_ok_def)
  ultimately show ?thesis using s sem_inv_by_id [OF inv] by (auto simp: would_block_def)
qed

theorem sem_no_lost_wakeup_witness:
  "\<exists>s. sem_find_by_id (sn_sets (ex_ns 0 [ex_sleeper])) 1 = Some s \<and> seq_apply (sem_vals (ss_sems s)) (abs_ops [ex_down]) = None"
  using sem_no_lost_wakeup [OF ex_sem_reachable(3), of ex_sleeper] by (auto simp: ex_ns_def ex_sleeper_def)

text \<open>
  \<^verbatim>\<open>GETNCNT\<close> and \<^verbatim>\<open>GETZCNT\<close> return the number of tasks asleep on the semaphore because an operation
  has to wait for it to rise, and to be zero; a set that is removed is kept as long as a task
  is asleep on it, and no longer.
\<close>

theorem sem_counts_exact:
  assumes "sem_reachable ns" and "sem_find_by_id (sn_sets ns) i = Some s" and "n < ss_nsems s"
  shows "sys_semctl ns env i (int n) GETNCNT arg = (ns, Inr (int (count_where (waits_on False n) (on_set i (sn_sleepers ns)))), None) \<and>
    sys_semctl ns env i (int n) GETZCNT arg = (ns, Inr (int (count_where (waits_on True n) (on_set i (sn_sleepers ns)))), None) \<and>
    (\<forall>t \<in> set (sn_sets ns). ss_removed t \<longrightarrow> on_set (ss_id t) (sn_sleepers ns) \<noteq> [])"
proof -
  note inv = sem_reachable_inv [OF assms(1)]
  have s: "obj_at ss_id i (sn_sets ns) = Some s" using sem_inv_by_id [OF inv] assms(2) by blast
  have "counts_ok (ss_sems s) (on_set i (sn_sleepers ns))" "length (ss_sems s) = ss_nsems s"
    using sem_invD(2) [OF inv s] by (simp_all add: set_inv_def waits_ok_def shape_ok_def)
  then have "sys_semctl ns env i (int n) GETNCNT arg = (ns, Inr (int (count_where (waits_on False n) (on_set i (sn_sleepers ns)))), None)"
    and "sys_semctl ns env i (int n) GETZCNT arg = (ns, Inr (int (count_where (waits_on True n) (on_set i (sn_sleepers ns)))), None)"
    using assms(2,3) by (simp_all add: sys_semctl_def semctl_get_def Let_def counts_ok_def)
  moreover have "on_set (ss_id t) (sn_sleepers ns) \<noteq> []" if "t \<in> set (sn_sets ns)" "ss_removed t" for t
  proof -
    have "obj_at ss_id (ss_id t) (sn_sets ns) = Some t" using sns.at_iff [OF sem_invD(1) [OF inv]] that by simp
    from sem_invD(2) [OF inv this] sem_invD(3) [OF inv this] show ?thesis using that by (auto simp: set_inv_def waits_ok_def)
  qed
  ultimately show ?thesis by blast
qed

theorem sem_counts_exact_witness:
  "sys_semctl (ex_ns 0 [ex_sleeper]) (sem_env 10 []) 1 0 GETNCNT 0 = (ex_ns 0 [ex_sleeper], Inr 1, None)"
  using sem_counts_exact [OF ex_sem_reachable(3) ex_find(1), of 0 "sem_env 10 []" 0]
  by (simp add: ex_ns_def ex_set_def on_obj_def waits_on_def ex_sleeper_def ex_down_def)



text \<open>
  C40 (error). \<^verbatim>\<open>IPC_RMID\<close> is refused with \<^verbatim>\<open>EPERM\<close>, and nothing changes, for a caller who is neither owner nor creator
  nor has \<^verbatim>\<open>CAP_SYS_ADMIN\<close>. \<^verbatim>\<open>IPC_SET\<close> is not: whoever the caller is, it succeeds with the ids the
  caller gives, so a caller refused by \<^verbatim>\<open>IPC_RMID\<close> can make itself owner of any set
  and is no longer refused.
\<close>

theorem sem_ipc_set_takes_over:
  assumes "sem_reachable ns" and "sem_find_by_id (sn_sets ns) i = Some s" and "\<not> ipc_owner_ok env (ss_perm s)"
    and "ie_read env arg (ipc_perm_size (ie_64bit env)) = Some bs" and "ipc_perm_read (ie_64bit env) bs = (uid, gid, mode)"
    and "ie_make_kuid env uid = ie_euid env" and "ie_euid env \<noteq> USER_NS_INVALID_ID" and "ie_make_kgid env gid \<noteq> USER_NS_INVALID_ID"
  shows "sys_semctl ns env i n IPC_RMID a = (ns, Inl EPERM, None) \<and>
    snd (sys_semctl ns env i n IPC_SET arg) = (Inr 0, None) \<and>
    snd (sys_semctl (fst (sys_semctl ns env i n IPC_SET arg)) env i n IPC_RMID a) = (Inr 0, None)"
proof -
  note inv = sem_reachable_inv [OF assms(1)]
  have s: "obj_at ss_id i (sn_sets ns) = Some s" "\<not> ss_removed s" using sem_inv_by_id [OF inv] assms(2) by blast+
  have rm: "snd (sys_semctl ns' env i n IPC_RMID a) = (if ipc_owner_ok env (ss_perm t) then Inr 0 else Inl EPERM, None)"
    if "sem_find_by_id (sn_sets ns') i = Some t" for ns' t using that by (simp add: sys_semctl_def semctl_rmid_def Let_def)
  let ?p = "(ss_perm s)\<lparr>ip_uid := ie_euid env, ip_gid := ie_make_kgid env gid, ip_mode := mode AND 0x1FF\<rparr>"
  have set: "sys_semctl ns env i n IPC_SET arg = (sem_update ns i (\<lambda>s. s\<lparr>ss_perm := ?p, ss_ctime := ie_now env\<rparr>), Inr 0, None)"
    using assms(2,4-) sem_inv_idD [OF inv s(1)] by (simp add: sys_semctl_def semctl_set_def set_perm_def Let_def)
  have inv': "sem_inv {} (fst (sys_semctl ns env i n IPC_SET arg))" by (rule inv_semctl [OF inv])
  have "sem_find_by_id (sn_sets (fst (sys_semctl ns env i n IPC_SET arg))) i = Some (s\<lparr>ss_perm := ?p, ss_ctime := ie_now env\<rparr>)"
    unfolding sem_inv_by_id [OF inv'] using at_sem_update [OF inv s(1), of "\<lambda>s. s\<lparr>ss_perm := ?p, ss_ctime := ie_now env\<rparr>" i] s(2) sem_inv_idD [OF inv s(1)] by (simp add: set)
  from rm [OF this] have "snd (sys_semctl (fst (sys_semctl ns env i n IPC_SET arg)) env i n IPC_RMID a) = (Inr 0, None)" by (simp add: ipc_owner_ok_def)
  moreover have "sys_semctl ns env i n IPC_RMID a = (ns, Inl EPERM, None)" using assms(2,3) by (simp add: sys_semctl_def semctl_rmid_def Let_def)
  ultimately show ?thesis by (simp add: set)
qed

theorem sem_ipc_set_takes_over_witness:
  "snd (sys_semctl (ex_ns 5 []) (sem_env 66 [0, 0, 0, 0, 66, 0, 0, 0, 66, 0, 0, 0]) 1 0 IPC_RMID 0) = (Inl EPERM, None) \<and>
   snd (sys_semctl (fst (sys_semctl (ex_ns 5 []) (sem_env 66 [0, 0, 0, 0, 66, 0, 0, 0, 66, 0, 0, 0]) 1 0 IPC_SET 0))
     (sem_env 66 [0, 0, 0, 0, 66, 0, 0, 0, 66, 0, 0, 0]) 1 0 IPC_RMID 0) = (Inr 0, None)"
proof -
  let ?bs = "[0, 0, 0, 0, 66, 0, 0, 0, 66, 0, 0, 0] :: u8 list"
  let ?env = "sem_env 66 ?bs"
  have o: "\<not> ipc_owner_ok ?env (ss_perm (ex_set 5 (length [])))" by (simp add: ipc_owner_ok_def ex_set_def sem_env_def)
  have r: "ie_read ?env 0 (ipc_perm_size (ie_64bit ?env)) = Some ?bs"
    by (simp add: sem_env_def ipc_perm_size_def guest_abi_is_64bit_def)
  have p: "ipc_perm_read (ie_64bit ?env) ?bs = (66, 66, 0)"
    by (simp add: ipc_perm_read_def sem_env_def guest_abi_is_64bit_def le_field_def le_nat_def)
  have u: "ie_make_kuid ?env 66 = ie_euid ?env" "ie_euid ?env \<noteq> USER_NS_INVALID_ID" "ie_make_kgid ?env 66 \<noteq> USER_NS_INVALID_ID"
    by (simp_all add: sem_env_def)
  from sem_ipc_set_takes_over [OF ex_sem_reachable(2) ex_find(1) o r p u, of 0 0] show ?thesis by simp
qed

end
