(* ===== verification/SysvMsg.thy ===== *)
theory SysvMsg
  imports SysvIpc
begin

text \<open>
  \<^verbatim>\<open>kernel/sysvmsg.c\<close>: System V message queues. As with semaphores every call is one step under the
  namespace's lock; a sender waiting for room or a receiver waiting for a message ends its
  step asleep and goes on in another step. Byte counts are numbers: a queue's bytes are those of
  messages in memory.
\<close>

section \<open>State\<close>

abbreviation MSGMAX :: nat where "MSGMAX \<equiv> 8192"
abbreviation MSGMNB :: nat where "MSGMNB \<equiv> 16384"
abbreviation MSG_NOERROR :: u32 where "MSG_NOERROR \<equiv> 0x1000"
abbreviation MSG_EXCEPT :: u32 where "MSG_EXCEPT \<equiv> 0x2000"
abbreviation MSG_COPY :: u32 where "MSG_COPY \<equiv> 0x4000"
abbreviation MSG_STAT :: u32 where "MSG_STAT \<equiv> 11"
abbreviation MSG_STAT_ANY :: u32 where "MSG_STAT_ANY \<equiv> 13"

record msg_msg =
  mm_type :: int
  mm_size :: nat
  mm_data :: "u8 list"

record msg_queue =
  mq_id :: int
  mq_perm :: ipc_perm
  mq_cbytes :: nat
  mq_qnum :: nat
  mq_qbytes :: nat
  mq_lspid :: int
  mq_lrpid :: int
  mq_stime :: int
  mq_rtime :: int
  mq_ctime :: int
  mq_removed :: bool
  mq_waiters :: nat
  mq_messages :: "msg_msg list"

text \<open>A task asleep on \<^verbatim>\<open>snd_cond\<close> with its message, or on \<^verbatim>\<open>rcv_cond\<close> with its buffer, size and type.\<close>

datatype msg_wait = WaitSnd msg_msg | WaitRcv u64 nat int

record msg_sleeper =
  ml_env :: ipc_env
  ml_queue :: int
  ml_wait :: msg_wait
  ml_flg :: u32
  ml_woken :: bool

record msg_ns =
  gn_queues :: "msg_queue list"
  gn_next_id :: int
  gn_sleepers :: "msg_sleeper list"

definition msg_find_by_key :: "msg_queue list \<Rightarrow> u32 \<Rightarrow> msg_queue option" where
  "msg_find_by_key qs key = find (\<lambda>q. \<not> mq_removed q \<and> ip_key (mq_perm q) = key) qs"

definition msg_find_by_id :: "msg_queue list \<Rightarrow> int \<Rightarrow> msg_queue option" where
  "msg_find_by_id qs i = find (\<lambda>q. \<not> mq_removed q \<and> mq_id q = i) qs"

definition msg_update :: "msg_ns \<Rightarrow> int \<Rightarrow> (msg_queue \<Rightarrow> msg_queue) \<Rightarrow> msg_ns" where
  "msg_update ns i f = ns\<lparr>gn_queues := obj_update mq_id i f (gn_queues ns)\<rparr>"

text \<open>\<^verbatim>\<open>notify\<close> of one of the two conditions of a queue.\<close>

fun waits_snd :: "msg_wait \<Rightarrow> bool" where
  "waits_snd (WaitSnd m) = True"
| "waits_snd (WaitRcv a n t) = False"

definition msg_notify :: "bool \<Rightarrow> int \<Rightarrow> msg_ns \<Rightarrow> msg_ns" where
  "msg_notify snd_cond i ns = ns\<lparr>gn_sleepers :=
     map (\<lambda>w. if ml_queue w = i \<and> waits_snd (ml_wait w) = snd_cond then w\<lparr>ml_woken := True\<rparr> else w) (gn_sleepers ns)\<rparr>"

definition msg_queue_maybe_free :: "int \<Rightarrow> msg_ns \<Rightarrow> msg_ns" where
  "msg_queue_maybe_free i ns =
     (case obj_at mq_id i (gn_queues ns) of None \<Rightarrow> ns
      | Some q \<Rightarrow> if \<not> mq_removed q \<or> mq_waiters q \<noteq> 0 then ns else ns\<lparr>gn_queues := obj_drop mq_id i (gn_queues ns)\<rparr>)"

section \<open>msgget\<close>

definition new_queue :: "ipc_env \<Rightarrow> int \<Rightarrow> u32 \<Rightarrow> u32 \<Rightarrow> msg_queue" where
  "new_queue env i key flg = \<lparr>mq_id = i, mq_perm = new_perm env key flg, mq_cbytes = 0, mq_qnum = 0, mq_qbytes = MSGMNB,
     mq_lspid = 0, mq_lrpid = 0, mq_stime = 0, mq_rtime = 0, mq_ctime = ie_now env, mq_removed = False, mq_waiters = 0, mq_messages = []\<rparr>"

definition sys_msgget :: "msg_ns \<Rightarrow> ipc_env \<Rightarrow> u32 \<Rightarrow> u32 \<Rightarrow> msg_ns \<times> int res" where
  "sys_msgget ns env key flg =
     (case (if key = 0 then None else msg_find_by_key (gn_queues ns) key) of
        Some q \<Rightarrow> if flg AND IPC_CREAT \<noteq> 0 \<and> flg AND IPC_EXCL \<noteq> 0 then (ns, Inl EEXIST) else (ns, Inr (mq_id q))
      | None \<Rightarrow>
          if flg AND IPC_CREAT = 0 \<and> key \<noteq> 0 then (ns, Inl ENOENT)
          else if \<not> ie_alloc env then (ns, Inl ENOMEM)
          else (ns\<lparr>gn_queues := gn_queues ns @ [new_queue env (gn_next_id ns) key flg], gn_next_id := gn_next_id ns + 1\<rparr>, Inr (gn_next_id ns)))"

section \<open>msgsnd\<close>

definition long_size :: "ipc_env \<Rightarrow> nat" where
  "long_size env = (if ie_64bit env then 8 else 4)"

text \<open>The guest's \<^verbatim>\<open>msgbuf\<close>: a \<^verbatim>\<open>long\<close> and the payload.\<close>

definition msg_read_from_guest :: "ipc_env \<Rightarrow> u64 \<Rightarrow> nat \<Rightarrow> msg_msg res" where
  "msg_read_from_guest env msgp msgsz =
     (case ie_read env msgp (long_size env) of
        None \<Rightarrow> Inl EFAULT
      | Some bs \<Rightarrow>
          let t = (if ie_64bit env then sint (of_nat (le_field 0 8 bs) :: u64) else sint (of_nat (le_field 0 4 bs) :: u32)) in
          if \<not> ie_alloc env then Inl ENOMEM
          else if msgsz = 0 then Inr \<lparr>mm_type = t, mm_size = 0, mm_data = []\<rparr>
          else (case ie_read env (msgp + of_nat (long_size env)) msgsz of
              None \<Rightarrow> Inl EFAULT
            | Some d \<Rightarrow> Inr \<lparr>mm_type = t, mm_size = msgsz, mm_data = d\<rparr>))"

text \<open>What a call ends with: a value and what it wrote, asleep, or to be restarted after a signal.\<close>

datatype msg_out = MsgDone "int res" "(u64 \<times> u8 list) list" | MsgSleep | MsgRestart

definition msg_enqueue :: "ipc_env \<Rightarrow> msg_msg \<Rightarrow> msg_queue \<Rightarrow> msg_queue" where
  "msg_enqueue env m q = q\<lparr>mq_messages := mq_messages q @ [m], mq_cbytes := mq_cbytes q + mm_size m, mq_qnum := mq_qnum q + 1,
     mq_lspid := ie_tgid env, mq_stime := ie_now env\<rparr>"

definition msg_sleep :: "msg_ns \<Rightarrow> ipc_env \<Rightarrow> int \<Rightarrow> msg_wait \<Rightarrow> u32 \<Rightarrow> msg_ns" where
  "msg_sleep ns env i w flg = (msg_update ns i (\<lambda>q. q\<lparr>mq_waiters := mq_waiters q + 1\<rparr>))
     \<lparr>gn_sleepers := gn_sleepers ns @ [\<lparr>ml_env = env, ml_queue = i, ml_wait = w, ml_flg = flg, ml_woken = False\<rparr>]\<rparr>"

text \<open>The loop of \<^verbatim>\<open>msgsnd\<close>, from its test on.\<close>

definition msgsnd_round :: "msg_ns \<Rightarrow> ipc_env \<Rightarrow> int \<Rightarrow> msg_msg \<Rightarrow> u32 \<Rightarrow> msg_ns \<times> msg_out" where
  "msgsnd_round ns env i m flg =
     (case obj_at mq_id i (gn_queues ns) of
        None \<Rightarrow> (ns, MsgDone (Inl EINVAL) [])
      | Some q \<Rightarrow>
          if mq_cbytes q + mm_size m > mq_qbytes q then
            (if flg AND IPC_NOWAIT \<noteq> 0 then (ns, MsgDone (Inl EAGAIN) []) else (msg_sleep ns env i (WaitSnd m) flg, MsgSleep))
          else (msg_notify False i (msg_update ns i (msg_enqueue env m)), MsgDone (Inr 0) []))"

definition sys_msgsnd_guest :: "msg_ns \<Rightarrow> ipc_env \<Rightarrow> int \<Rightarrow> u64 \<Rightarrow> u64 \<Rightarrow> u32 \<Rightarrow> msg_ns \<times> msg_out" where
  "sys_msgsnd_guest ns env msqid msgp msgsz flg =
     (if unat msgsz > MSGMAX then (ns, MsgDone (Inl EINVAL) [])
      else (case msg_read_from_guest env msgp (unat msgsz) of
          Inl e \<Rightarrow> (ns, MsgDone (Inl e) [])
        | Inr m \<Rightarrow>
            if mm_type m < 1 then (ns, MsgDone (Inl EINVAL) [])
            else (case msg_find_by_id (gn_queues ns) msqid of
                None \<Rightarrow> (ns, MsgDone (Inl EINVAL) [])
              | Some q \<Rightarrow>
                  if \<not> ipc_access_ok env (mq_perm q) 2 then (ns, MsgDone (Inl EACCES) [])
                  else msgsnd_round ns env msqid m flg)))"

section \<open>msgrcv\<close>

text \<open>
  The message \<^verbatim>\<open>msg_pick\<close> returns, with its place in the queue; \<open>best\<close> is the loop's variable.
  \<^verbatim>\<open>-msgtyp\<close> is 64-bit arithmetic.
\<close>

fun msg_pick :: "msg_msg list \<Rightarrow> int \<Rightarrow> u32 \<Rightarrow> nat \<Rightarrow> (nat \<times> msg_msg) option \<Rightarrow> (nat \<times> msg_msg) option" where
  "msg_pick [] msgtyp flg k best = best"
| "msg_pick (m # ms) msgtyp flg k best =
     (if msgtyp = 0 then Some (k, m)
      else if msgtyp > 0 then
        (if flg AND MSG_EXCEPT \<noteq> 0 then (if mm_type m \<noteq> msgtyp then Some (k, m) else msg_pick ms msgtyp flg (k + 1) best)
         else if mm_type m = msgtyp then Some (k, m)
         else msg_pick ms msgtyp flg (k + 1) best)
      else if mm_type m \<le> s64 (- msgtyp) \<and> (best = None \<or> mm_type m < mm_type (snd (the best))) then msg_pick ms msgtyp flg (k + 1) (Some (k, m))
      else msg_pick ms msgtyp flg (k + 1) best)"

definition msg_dequeue :: "ipc_env \<Rightarrow> nat \<Rightarrow> msg_msg \<Rightarrow> msg_queue \<Rightarrow> msg_queue" where
  "msg_dequeue env k m q = q\<lparr>mq_messages := take k (mq_messages q) @ drop (Suc k) (mq_messages q), mq_cbytes := mq_cbytes q - mm_size m,
     mq_qnum := mq_qnum q - 1, mq_lrpid := ie_tgid env, mq_rtime := ie_now env\<rparr>"

text \<open>The copy to the guest, after the message has left the queue.\<close>

definition msg_copy_out :: "ipc_env \<Rightarrow> u64 \<Rightarrow> nat \<Rightarrow> msg_msg \<Rightarrow> msg_out" where
  "msg_copy_out env msgp msgsz m =
     (let n = (if mm_size m > msgsz then msgsz else mm_size m); body = msgp + of_nat (long_size env);
          tb = (if ie_64bit env then le_bytes 8 (word_of_int (mm_type m) :: u64) else le_bytes 4 (word_of_int (mm_type m) :: u32)) in
      if \<not> ie_writable env msgp (long_size env) then MsgDone (Inl EFAULT) []
      else if n > 0 \<and> \<not> ie_writable env body n then MsgDone (Inl EFAULT) [(msgp, tb)]
      else MsgDone (Inr (int n)) ((msgp, tb) # (if n > 0 then [(body, take n (mm_data m))] else [])))"

definition msgrcv_round :: "msg_ns \<Rightarrow> ipc_env \<Rightarrow> int \<Rightarrow> u64 \<Rightarrow> nat \<Rightarrow> int \<Rightarrow> u32 \<Rightarrow> msg_ns \<times> msg_out" where
  "msgrcv_round ns env i msgp msgsz msgtyp flg =
     (case obj_at mq_id i (gn_queues ns) of
        None \<Rightarrow> (ns, MsgDone (Inl EINVAL) [])
      | Some q \<Rightarrow>
          (case msg_pick (mq_messages q) msgtyp flg 0 None of
             None \<Rightarrow> if flg AND IPC_NOWAIT \<noteq> 0 then (ns, MsgDone (Inl ENOMSG) []) else (msg_sleep ns env i (WaitRcv msgp msgsz msgtyp) flg, MsgSleep)
           | Some (k, m) \<Rightarrow>
               if mm_size m > msgsz \<and> flg AND MSG_NOERROR = 0 then (ns, MsgDone (Inl E2BIG) [])
               else (msg_notify True i (msg_update ns i (msg_dequeue env k m)), msg_copy_out env msgp msgsz m)))"

definition sys_msgrcv_guest :: "msg_ns \<Rightarrow> ipc_env \<Rightarrow> int \<Rightarrow> u64 \<Rightarrow> u64 \<Rightarrow> int \<Rightarrow> u32 \<Rightarrow> msg_ns \<times> msg_out" where
  "sys_msgrcv_guest ns env msqid msgp msgsz msgtyp flg =
     (if flg AND MSG_COPY \<noteq> 0 then (ns, MsgDone (Inl EINVAL) [])
      else (case msg_find_by_id (gn_queues ns) msqid of
          None \<Rightarrow> (ns, MsgDone (Inl EINVAL) [])
        | Some q \<Rightarrow>
            if \<not> ipc_access_ok env (mq_perm q) 4 then (ns, MsgDone (Inl EACCES) [])
            else msgrcv_round ns env msqid msgp (unat msgsz) msgtyp flg))"

text \<open>
  The end of a wait. \<open>sig\<close>: none when the condition was notified; else whether the call is
  restarted (\<^verbatim>\<open>signal_restart_or_eintr_nohand\<close>) or fails with \<^verbatim>\<open>EINTR\<close>.
\<close>

definition msg_wake :: "msg_ns \<Rightarrow> nat \<Rightarrow> bool option \<Rightarrow> msg_ns \<times> msg_out" where
  "msg_wake ns k sig =
     (let w = gn_sleepers ns ! k; i = ml_queue w;
          ns1 = (msg_update ns i (\<lambda>q. q\<lparr>mq_waiters := mq_waiters q - 1\<rparr>))\<lparr>gn_sleepers := take k (gn_sleepers ns) @ drop (Suc k) (gn_sleepers ns)\<rparr> in
      case obj_at mq_id i (gn_queues ns1) of
        None \<Rightarrow> (ns1, MsgDone (Inl EIDRM) [])
      | Some q \<Rightarrow>
          if mq_removed q then (msg_queue_maybe_free i ns1, MsgDone (Inl EIDRM) [])
          else (case sig of
              Some restart \<Rightarrow> (ns1, if restart then MsgRestart else MsgDone (Inl EINTR) [])
            | None \<Rightarrow>
                (case ml_wait w of
                   WaitSnd m \<Rightarrow> msgsnd_round ns1 (ml_env w) i m (ml_flg w)
                 | WaitRcv msgp msgsz msgtyp \<Rightarrow> msgrcv_round ns1 (ml_env w) i msgp msgsz msgtyp (ml_flg w))))"

section \<open>msgctl\<close>

definition msgctl_rmid :: "msg_ns \<Rightarrow> ipc_env \<Rightarrow> msg_queue \<Rightarrow> msg_ns \<times> msg_out" where
  "msgctl_rmid ns env q =
     (if \<not> ipc_owner_ok env (mq_perm q) then (ns, MsgDone (Inl EPERM) [])
      else (msg_queue_maybe_free (mq_id q) (msg_notify False (mq_id q) (msg_notify True (mq_id q)
              (msg_update ns (mq_id q) (\<lambda>q. q\<lparr>mq_removed := True\<rparr>)))), MsgDone (Inr 0) []))"

text \<open>The two layouts of \<^verbatim>\<open>struct msqid64_ds\<close>; \<^verbatim>\<open>msg_qbytes\<close> is at byte 88 or 68.\<close>

definition msqid_ds :: "ipc_env \<Rightarrow> msg_queue \<Rightarrow> u8 list" where
  "msqid_ds env q =
     ipc_perm_write env (mq_perm q) @
     (if ie_64bit env then
        le_bytes 8 (word_of_int (mq_stime q) :: u64) @ le_bytes 8 (word_of_int (mq_rtime q) :: u64) @ le_bytes 8 (word_of_int (mq_ctime q) :: u64) @
        le_bytes 8 (of_nat (mq_cbytes q) :: u64) @ le_bytes 8 (of_nat (mq_qnum q) :: u64) @ le_bytes 8 (of_nat (mq_qbytes q) :: u64) @
        le_bytes 4 (word_of_int (ie_pid_shown env (mq_lspid q)) :: u32) @ le_bytes 4 (word_of_int (ie_pid_shown env (mq_lrpid q)) :: u32) @ replicate 16 0
      else
        le_bytes 4 (word_of_int (mq_stime q) :: u32) @ replicate 4 0 @ le_bytes 4 (word_of_int (mq_rtime q) :: u32) @ replicate 4 0 @
        le_bytes 4 (word_of_int (mq_ctime q) :: u32) @ replicate 4 0 @
        le_bytes 4 (of_nat (mq_cbytes q) :: u32) @ le_bytes 4 (of_nat (mq_qnum q) :: u32) @ le_bytes 4 (of_nat (mq_qbytes q) :: u32) @
        le_bytes 4 (word_of_int (ie_pid_shown env (mq_lspid q)) :: u32) @ le_bytes 4 (word_of_int (ie_pid_shown env (mq_lrpid q)) :: u32) @ replicate 8 0)"

definition msqid_qbytes :: "bool \<Rightarrow> u8 list \<Rightarrow> nat" where
  "msqid_qbytes is64 bs = (if is64 then le_field 88 8 bs else le_field 68 4 bs)"

definition msgctl_set :: "msg_ns \<Rightarrow> ipc_env \<Rightarrow> msg_queue \<Rightarrow> u64 \<Rightarrow> msg_ns \<times> msg_out" where
  "msgctl_set ns env q buf =
     (if \<not> ipc_owner_ok env (mq_perm q) then (ns, MsgDone (Inl EPERM) [])
      else (case ie_read env buf (if ie_64bit env then 120 else 88) of
          None \<Rightarrow> (ns, MsgDone (Inl EFAULT) [])
        | Some bs \<Rightarrow>
            (case set_perm env (ipc_perm_read (ie_64bit env) bs) (mq_perm q) of
               Inl e \<Rightarrow> (ns, MsgDone (Inl e) [])
             | Inr p \<Rightarrow> (msg_notify True (mq_id q) (msg_update ns (mq_id q)
                  (\<lambda>q. q\<lparr>mq_perm := p, mq_qbytes := msqid_qbytes (ie_64bit env) bs, mq_ctime := ie_now env\<rparr>)), MsgDone (Inr 0) []))))"

definition msgctl_stat :: "ipc_env \<Rightarrow> msg_queue \<Rightarrow> u64 \<Rightarrow> msg_out" where
  "msgctl_stat env q buf =
     (if ie_writable env buf (length (msqid_ds env q)) then MsgDone (Inr 0) [(buf, msqid_ds env q)] else MsgDone (Inl EFAULT) [])"

definition sys_msgctl_guest :: "msg_ns \<Rightarrow> ipc_env \<Rightarrow> int \<Rightarrow> u32 \<Rightarrow> u64 \<Rightarrow> msg_ns \<times> msg_out" where
  "sys_msgctl_guest ns env msqid cmd buf =
     (let base = cmd AND NOT IPC_64 in
      if base = IPC_INFO then (ns, MsgDone (Inl EINVAL) [])
      else (case msg_find_by_id (gn_queues ns) msqid of
          None \<Rightarrow> (ns, MsgDone (Inl EINVAL) [])
        | Some q \<Rightarrow>
            if base = IPC_RMID then msgctl_rmid ns env q
            else if base = IPC_SET then msgctl_set ns env q buf
            else if base = IPC_STAT \<or> base = MSG_STAT \<or> base = MSG_STAT_ANY then (ns, msgctl_stat env q buf)
            else (ns, MsgDone (Inl EINVAL) [])))"

text \<open>The entry points of 32-bit guests: sizes are extended with zeros, the type with its sign.\<close>

definition sys_msgsnd :: "msg_ns \<Rightarrow> ipc_env \<Rightarrow> int \<Rightarrow> u32 \<Rightarrow> u32 \<Rightarrow> u32 \<Rightarrow> msg_ns \<times> msg_out" where
  "sys_msgsnd ns env msqid msgp msgsz flg = sys_msgsnd_guest ns env msqid (ucast msgp) (ucast msgsz) flg"

definition sys_msgrcv :: "msg_ns \<Rightarrow> ipc_env \<Rightarrow> int \<Rightarrow> u32 \<Rightarrow> u32 \<Rightarrow> u32 \<Rightarrow> u32 \<Rightarrow> msg_ns \<times> msg_out" where
  "sys_msgrcv ns env msqid msgp msgsz msgtyp flg = sys_msgrcv_guest ns env msqid (ucast msgp) (ucast msgsz) (sint msgtyp) flg"

section \<open>The end of a namespace, and /proc/sysvipc/msg\<close>

definition msg_ns_teardown :: "msg_ns \<Rightarrow> msg_ns" where
  "msg_ns_teardown ns =
     foldl (\<lambda>ns q. msg_queue_maybe_free (mq_id q) (msg_notify False (mq_id q) (msg_notify True (mq_id q)
              (msg_update ns (mq_id q) (\<lambda>q. q\<lparr>mq_removed := True\<rparr>))))) ns (gn_queues ns)"

record msg_row =
  mr_key :: int
  mr_id :: int
  mr_mode :: u32
  mr_bytes :: "nat \<times> nat"
  mr_pids :: "int \<times> int"
  mr_ids :: "u32 list"
  mr_times :: "int list"

definition proc_sysvipc_show_msg :: "ipc_env \<Rightarrow> msg_ns \<Rightarrow> msg_row list" where
  "proc_sysvipc_show_msg env ns =
     map (\<lambda>q. let p = mq_perm q in \<lparr>mr_key = sint (ip_key p), mr_id = mq_id q, mr_mode = ip_mode p AND 0x1FF, mr_bytes = (mq_cbytes q, mq_qnum q),
           mr_pids = (ie_pid_shown env (mq_lspid q), ie_pid_shown env (mq_lrpid q)),
           mr_ids = [ie_uid_shown env (ip_uid p), ie_gid_shown env (ip_gid p), ie_uid_shown env (ip_cuid p), ie_gid_shown env (ip_cgid p)],
           mr_times = [mq_stime q, mq_rtime q, mq_ctime q]\<rparr>)
       (filter (\<lambda>q. \<not> mq_removed q) (gn_queues ns))"

end
