(* ===== verification/SysvMsg_Inv.thy ===== *)
theory SysvMsg_Inv
  imports SysvMsg
begin

text \<open>
  The invariant of a namespace's message queues: counters that are exact, messages that are well
  formed, and no task asleep on what it could do; and the states that can be reached.
\<close>

section \<open>The choice of a message\<close>

definition wanted :: "int \<Rightarrow> u32 \<Rightarrow> msg_msg \<Rightarrow> bool" where
  "wanted t flg m \<longleftrightarrow>
     (if t = 0 then True else if t > 0 then (flg AND MSG_EXCEPT \<noteq> 0) = (mm_type m \<noteq> t) else mm_type m \<le> s64 (- t))"

text \<open>The first of the messages that are wanted; for a negative type, the first of those with the lowest type.\<close>

definition picked :: "int \<Rightarrow> u32 \<Rightarrow> msg_msg list \<Rightarrow> (nat \<times> msg_msg) option \<Rightarrow> bool" where
  "picked t flg ms r \<longleftrightarrow>
     (case r of None \<Rightarrow> (\<forall>m \<in> set ms. \<not> wanted t flg m)
      | Some (k, m) \<Rightarrow> k < length ms \<and> ms ! k = m \<and> wanted t flg m \<and>
          (\<forall>j < k. wanted t flg (ms ! j) \<longrightarrow> t < 0 \<and> mm_type m < mm_type (ms ! j)) \<and>
          (t < 0 \<longrightarrow> (\<forall>j < length ms. wanted t flg (ms ! j) \<longrightarrow> mm_type m \<le> mm_type (ms ! j))))"

lemma picked_keep:
  assumes "picked t flg ms r" and "\<not> wanted t flg m \<or> t < 0 \<and> (\<exists>p. r = Some p \<and> mm_type (snd p) \<le> mm_type m)"
  shows "picked t flg (ms @ [m]) r"
  using assms by (auto simp: picked_def nth_append less_Suc_eq split: option.splits)

lemma picked_new:
  assumes "picked t flg ms r" and "wanted t flg m" and "r = None \<or> t < 0 \<and> mm_type m < mm_type (snd (the r))"
  shows "picked t flg (ms @ [m]) (Some (length ms, m))"
proof (cases r)
  case None
  then have "\<not> wanted t flg (ms ! j)" if "j < length ms" for j using assms(1) that by (simp add: picked_def)
  then show ?thesis using assms(2) by (auto simp: picked_def nth_append less_Suc_eq)
next
  case (Some p)
  obtain k b where p: "p = (k, b)" by (cases p)
  have t: "t < 0" "mm_type m < mm_type b" using assms(3) Some p by simp_all
  have "mm_type m < mm_type (ms ! j)" if "j < length ms" "wanted t flg (ms ! j)" for j
    using assms(1) Some p t that by (force simp: picked_def)
  then show ?thesis using assms(2) t by (auto simp: picked_def nth_append less_Suc_eq intro: less_imp_le)
qed

lemma picked_extend: "0 \<le> t \<Longrightarrow> picked t flg ms (Some p) \<Longrightarrow> picked t flg (ms @ ms') (Some p)"
  by (auto simp: picked_def nth_append split: prod.splits)

lemma msg_pick_from:
  assumes "picked t flg ms best" and "best = None \<or> t < 0"
  shows "picked t flg (ms @ ms') (msg_pick ms' t flg (length ms) best)"
  using assms
proof (induction ms' arbitrary: ms best)
  case (Cons m ms')
  have stop: "picked t flg (ms @ m # ms') (Some (length ms, m))" if "0 \<le> t" "wanted t flg m"
    using picked_extend [OF that(1) picked_new [OF Cons.prems(1) that(2)], of ms'] Cons.prems(2) that(1) by auto
  have new: "picked t flg (ms @ m # ms') (msg_pick ms' t flg (length ms + 1) (Some (length ms, m)))"
    if "t < 0" "wanted t flg m" "best = None \<or> mm_type m < mm_type (snd (the best))"
    using Cons.IH [OF picked_new [OF Cons.prems(1) that(2)]] that by simp
  have keep: "picked t flg (ms @ m # ms') (msg_pick ms' t flg (length ms + 1) best)"
    if "\<not> wanted t flg m \<or> t < 0 \<and> (\<exists>p. best = Some p \<and> mm_type (snd p) \<le> mm_type m)"
    using Cons.IH [OF picked_keep [OF Cons.prems(1) that] Cons.prems(2)] by simp
  consider "t = 0" | "t > 0" | "t < 0" by linarith
  then show ?case
  proof cases
    case 1
    then show ?thesis using stop by (simp add: wanted_def)
  next
    case 2
    then show ?thesis using stop keep by (auto simp: wanted_def)
  next
    case 3
    then have w: "wanted t flg m \<longleftrightarrow> mm_type m \<le> s64 (- t)" by (simp add: wanted_def)
    show ?thesis
    proof (cases "wanted t flg m \<and> (best = None \<or> mm_type m < mm_type (snd (the best)))")
      case True
      then show ?thesis using new 3 w by simp
    next
      case False
      then have "\<not> wanted t flg m \<or> t < 0 \<and> (\<exists>p. best = Some p \<and> mm_type (snd p) \<le> mm_type m)" using 3 by auto
      from keep [OF this] show ?thesis using 3 w False by auto
    qed
  qed
qed simp

lemma msg_pick_spec: "picked t flg ms (msg_pick ms t flg 0 None)"
  using msg_pick_from [of t flg "[]" None ms] by (simp add: picked_def)

lemma msg_pick_None: "msg_pick ms t flg 0 None = None \<longleftrightarrow> (\<forall>m \<in> set ms. \<not> wanted t flg m)"
proof -
  have "msg_pick ms t flg 0 None = None \<Longrightarrow> \<forall>m \<in> set ms. \<not> wanted t flg m" using msg_pick_spec [of t flg ms] by (simp add: picked_def)
  moreover have False if "msg_pick ms t flg 0 None = Some p" "\<forall>m \<in> set ms. \<not> wanted t flg m" for p
    using msg_pick_spec [of t flg ms] that by (cases p) (auto simp: picked_def)
  ultimately show ?thesis using option.exhaust by metis
qed

lemma msg_pick_SomeD: "msg_pick ms t flg 0 None = Some (k, m) \<Longrightarrow> k < length ms \<and> ms ! k = m"
  using msg_pick_spec [of t flg ms] by (simp add: picked_def)

section \<open>The invariant of one queue\<close>

definition msg_ok :: "msg_msg \<Rightarrow> bool" where
  "msg_ok m \<longleftrightarrow> 1 \<le> mm_type m \<and> mm_size m \<le> MSGMAX"

definition stuck :: "msg_queue \<Rightarrow> msg_sleeper \<Rightarrow> bool" where
  "stuck q w = (case ml_wait w of WaitSnd m \<Rightarrow> mq_qbytes q < mq_cbytes q + mm_size m
     | WaitRcv a n t \<Rightarrow> msg_pick (mq_messages q) t (ml_flg w) 0 None = None)"

definition sleeper_ok :: "msg_queue \<Rightarrow> msg_sleeper \<Rightarrow> bool" where
  "sleeper_ok q w \<longleftrightarrow> (case ml_wait w of WaitSnd m \<Rightarrow> msg_ok m | _ \<Rightarrow> True) \<and> (ml_woken w \<or> \<not> mq_removed q \<and> stuck q w)"

lemma waiters_irrelevant: "sleeper_ok (q\<lparr>mq_waiters := n\<rparr>) w = sleeper_ok q w"
  by (cases "ml_wait w") (simp_all add: sleeper_ok_def stuck_def)

definition msgs_ok :: "msg_queue \<Rightarrow> bool" where
  "msgs_ok q \<longleftrightarrow> mq_qnum q = length (mq_messages q) \<and> mq_cbytes q = sum_list (map mm_size (mq_messages q)) \<and> (\<forall>m \<in> set (mq_messages q). msg_ok m)"

definition queue_inv :: "msg_queue \<Rightarrow> msg_sleeper list \<Rightarrow> bool" where
  "queue_inv q Ws \<longleftrightarrow> msgs_ok q \<and> mq_waiters q = length Ws \<and> (\<forall>w \<in> set Ws. sleeper_ok q w)"

interpretation qns: ipc_waited mq_id "\<lambda>q. ip_key (mq_perm q)" mq_removed msg_find_by_id msg_find_by_key mq_waiters ml_queue queue_inv
  by unfold_locales (simp_all add: msg_find_by_id_def msg_find_by_key_def queue_inv_def)

definition msg_inv :: "int set \<Rightarrow> msg_ns \<Rightarrow> bool" where
  "msg_inv X ns \<longleftrightarrow> qns.ns_ok X (gn_queues ns) (gn_next_id ns) (gn_sleepers ns)"

lemmas msg_invD = qns.ns_okD [OF msg_inv_def [THEN iffD1]]

lemmas msg_inv_by_id = qns.ns_by_id [OF msg_inv_def [THEN iffD1]]

lemmas msg_inv_idD = qns.ns_oid [OF msg_inv_def [THEN iffD1]]

lemma msg_inv_maybe_free: "msg_inv (insert i X) ns \<Longrightarrow> msg_inv X (msg_queue_maybe_free i ns)"
  using qns.ns_free [of i X "gn_queues ns" "gn_next_id ns" "gn_sleepers ns"] by (auto simp: msg_inv_def msg_queue_maybe_free_def split: option.splits)

text \<open>A change of one queue that wakes the tasks asleep on the conditions \<open>C\<close>; the others stay stuck.\<close>

definition wake_on :: "bool set \<Rightarrow> int \<Rightarrow> msg_sleeper list \<Rightarrow> msg_sleeper list" where
  "wake_on C i = map (\<lambda>w. if ml_queue w = i \<and> waits_snd (ml_wait w) \<in> C then w\<lparr>ml_woken := True\<rparr> else w)"

lemma notify_eq: "msg_notify c i ns = ns\<lparr>gn_sleepers := wake_on {c} i (gn_sleepers ns)\<rparr>"
  by (simp add: msg_notify_def wake_on_def)

lemma wake_on_twice: "wake_on C i (wake_on D i W) = wake_on (C \<union> D) i W"
  by (auto simp: wake_on_def)

lemma on_wake: "on_obj ml_queue j (wake_on C i W) = (if j = i then wake_on C i (on_obj ml_queue j W) else on_obj ml_queue j W)"
  by (induction W) (auto simp: on_obj_def wake_on_def)

lemma msg_inv_change:
  assumes inv: "msg_inv X ns" and q: "obj_at mq_id i (gn_queues ns) = Some q"
    and f: "mq_id (f q) = i" "ip_key (mq_perm (f q)) = ip_key (mq_perm q)" "mq_removed q \<Longrightarrow> mq_removed (f q)" "mq_waiters (f q) = mq_waiters q"
    and ok: "msgs_ok (f q)"
    and st: "\<And>w. waits_snd (ml_wait w) \<notin> C \<Longrightarrow> \<not> mq_removed q \<Longrightarrow> stuck q w \<Longrightarrow> \<not> mq_removed (f q) \<and> stuck (f q) w"
    and X: "mq_removed (f q) \<Longrightarrow> mq_waiters q \<noteq> 0 \<or> i \<in> Y" "X \<subseteq> insert i Y"
  shows "msg_inv Y ((msg_update ns i f)\<lparr>gn_sleepers := wake_on C i (gn_sleepers ns)\<rparr>)"
proof -
  note qi = msg_invD(2) [OF inv q]
  have "sleeper_ok (f q) w'" if "w' \<in> set (wake_on C i (on_obj ml_queue i (gn_sleepers ns)))" for w'
  proof -
    from that obtain w where w: "w \<in> set (on_obj ml_queue i (gn_sleepers ns))" "w' = (if ml_queue w = i \<and> waits_snd (ml_wait w) \<in> C then w\<lparr>ml_woken := True\<rparr> else w)"
      by (auto simp: wake_on_def)
    then have "ml_queue w = i" "sleeper_ok q w" using qi by (auto simp: on_obj_def queue_inv_def)
    then show ?thesis using w(2) st [of w] by (auto simp: sleeper_ok_def)
  qed
  then have "queue_inv (f q) (on_obj ml_queue i (wake_on C i (gn_sleepers ns)))"
    using qi ok f(4) by (simp add: queue_inv_def on_wake) (simp add: wake_on_def)
  then have "qns.ns_ok Y (obj_update mq_id i f (gn_queues ns)) (gn_next_id ns) (wake_on C i (gn_sleepers ns))"
    by (intro qns.ns_change [OF inv [unfolded msg_inv_def] q]) (use f X in \<open>auto simp: on_wake\<close>)
  then show ?thesis by (simp add: msg_inv_def msg_update_def)
qed

section \<open>The calls keep the invariant\<close>

lemma inv_msgget:
  assumes inv: "msg_inv {} ns"
  shows "msg_inv {} (fst (sys_msgget ns env key flg))"
proof (cases "if key = 0 then None else msg_find_by_key (gn_queues ns) key")
  case None
  then have "key = 0 \<or> msg_find_by_key (gn_queues ns) key = None" by (auto split: if_splits)
  then have "qns.ns_ok {} (gn_queues ns @ [new_queue env (gn_next_id ns) key flg]) (gn_next_id ns + 1) (gn_sleepers ns)"
    by (intro qns.ns_add [OF inv [unfolded msg_inv_def]]) (auto simp: new_queue_def new_perm_def queue_inv_def msgs_ok_def)
  then show ?thesis using None inv by (simp add: sys_msgget_def msg_inv_def)
qed (use inv in \<open>simp add: sys_msgget_def\<close>)

lemma inv_sleep:
  assumes inv: "msg_inv {} ns" and q: "obj_at mq_id i (gn_queues ns) = Some q" and nr: "\<not> mq_removed q"
    and w: "case w of WaitSnd m \<Rightarrow> msg_ok m | _ \<Rightarrow> True"
    and st: "stuck q \<lparr>ml_env = env, ml_queue = i, ml_wait = w, ml_flg = flg, ml_woken = False\<rparr>"
  shows "msg_inv {} (msg_sleep ns env i w flg)"
proof -
  let ?w = "\<lparr>ml_env = env, ml_queue = i, ml_wait = w, ml_flg = flg, ml_woken = False\<rparr>" and ?f = "\<lambda>q. q\<lparr>mq_waiters := mq_waiters q + 1\<rparr>"
  have "sleeper_ok q ?w" using w nr st by (simp add: sleeper_ok_def)
  then have "queue_inv (?f q) (on_obj ml_queue i (gn_sleepers ns @ [?w]))"
    using msg_invD(2) [OF inv q] by (auto simp: queue_inv_def msgs_ok_def on_obj_def waiters_irrelevant)
  then have "qns.ns_ok {} (obj_update mq_id i ?f (gn_queues ns)) (gn_next_id ns) (gn_sleepers ns @ [?w])"
    by (intro qns.ns_change [OF inv [unfolded msg_inv_def] q]) (use nr msg_inv_idD [OF inv q] in \<open>auto simp: on_obj_def\<close>)
  then show ?thesis by (simp add: msg_sleep_def msg_inv_def msg_update_def)
qed

lemma inv_snd_round:
  assumes inv: "msg_inv {} ns" and q: "obj_at mq_id i (gn_queues ns) = Some q" and nr: "\<not> mq_removed q" and m: "msg_ok m"
  shows "msg_inv {} (fst (msgsnd_round ns env i m flg))"
proof -
  have "msg_inv {} ((msg_update ns i (msg_enqueue env m))\<lparr>gn_sleepers := wake_on {False} i (gn_sleepers ns)\<rparr>)"
  proof (rule msg_inv_change [OF inv q])
    show "msgs_ok (msg_enqueue env m q)" using msg_invD(2) [OF inv q] m by (auto simp: queue_inv_def msgs_ok_def msg_enqueue_def)
    show "\<not> mq_removed (msg_enqueue env m q) \<and> stuck (msg_enqueue env m q) w" if "waits_snd (ml_wait w) \<notin> {False}" "\<not> mq_removed q" "stuck q w" for w
      using that by (cases "ml_wait w") (simp_all add: stuck_def msg_enqueue_def)
  qed (use msg_inv_idD [OF inv q] nr in \<open>auto simp: msg_enqueue_def\<close>)
  then have "msg_inv {} (msg_notify False i (msg_update ns i (msg_enqueue env m)))" by (simp add: notify_eq msg_update_def)
  moreover have "msg_inv {} (msg_sleep ns env i (WaitSnd m) flg)" if "mq_qbytes q < mq_cbytes q + mm_size m"
    by (rule inv_sleep [OF inv q nr]) (use m that in \<open>simp_all add: stuck_def\<close>)
  ultimately show ?thesis using inv q by (simp add: msgsnd_round_def)
qed

lemma sum_list_remove: "k < length ms \<Longrightarrow> sum_list (map f (take k ms @ drop (Suc k) ms)) = sum_list (map f ms) - (f (ms ! k) :: nat)"
proof -
  assume "k < length ms"
  then have "sum_list (map f ms) = sum_list (map f (take k ms @ ms ! k # drop (Suc k) ms))" by (simp only: id_take_nth_drop [symmetric])
  then show ?thesis by simp
qed

lemma dequeue_ok:
  assumes "msgs_ok q" and "k < length (mq_messages q)"
  shows "msgs_ok (msg_dequeue env k (mq_messages q ! k) q)"
  using assms sum_list_remove [OF assms(2), of mm_size]
  by (auto simp: msgs_ok_def msg_dequeue_def dest: in_set_takeD in_set_dropD)

lemma inv_rcv_round:
  assumes inv: "msg_inv {} ns" and q: "obj_at mq_id i (gn_queues ns) = Some q" and nr: "\<not> mq_removed q"
  shows "msg_inv {} (fst (msgrcv_round ns env i msgp msgsz msgtyp flg))"
proof (cases "msg_pick (mq_messages q) msgtyp flg 0 None")
  case None
  have "msg_inv {} (msg_sleep ns env i (WaitRcv msgp msgsz msgtyp) flg)"
    by (rule inv_sleep [OF inv q nr]) (use None in \<open>simp_all add: stuck_def\<close>)
  then show ?thesis using inv q None by (simp add: msgrcv_round_def)
next
  case (Some p)
  obtain k m where p: "p = (k, m)" by (cases p)
  have k: "k < length (mq_messages q)" "mq_messages q ! k = m" using msg_pick_SomeD Some p by auto
  have "msg_inv {} ((msg_update ns i (msg_dequeue env k m))\<lparr>gn_sleepers := wake_on {True} i (gn_sleepers ns)\<rparr>)"
  proof (rule msg_inv_change [OF inv q])
    show "msgs_ok (msg_dequeue env k m q)" using msg_invD(2) [OF inv q] dequeue_ok [OF _ k(1)] k(2) by (simp add: queue_inv_def)
    have "set (mq_messages (msg_dequeue env k m q)) \<subseteq> set (mq_messages q)" by (auto simp: msg_dequeue_def dest: in_set_takeD in_set_dropD)
    then show "\<not> mq_removed (msg_dequeue env k m q) \<and> stuck (msg_dequeue env k m q) w" if "waits_snd (ml_wait w) \<notin> {True}" "\<not> mq_removed q" "stuck q w" for w
      using that by (cases "ml_wait w") (auto simp: stuck_def msg_pick_None msg_dequeue_def)
  qed (use msg_inv_idD [OF inv q] nr in \<open>auto simp: msg_dequeue_def\<close>)
  then have "msg_inv {} (msg_notify True i (msg_update ns i (msg_dequeue env k m)))" by (simp add: notify_eq msg_update_def)
  then show ?thesis using inv q Some p by (simp add: msgrcv_round_def)
qed

lemma read_size: "msg_read_from_guest env msgp n = Inr m \<Longrightarrow> mm_size m = n"
  by (auto simp: msg_read_from_guest_def Let_def split: option.splits if_splits)

lemma inv_msgsnd:
  assumes inv: "msg_inv {} ns"
  shows "msg_inv {} (fst (sys_msgsnd_guest ns env i msgp msgsz flg))"
proof -
  have "msg_inv {} (fst (msgsnd_round ns env i m flg))"
    if "msg_find_by_id (gn_queues ns) i = Some q" "msg_read_from_guest env msgp (unat msgsz) = Inr m" "\<not> MSGMAX < unat msgsz" "\<not> mm_type m < 1" for q m
    using that read_size [OF that(2)] inv_snd_round [OF inv, of i q m env flg] msg_inv_by_id [OF inv] by (simp add: msg_ok_def)
  then show ?thesis using inv by (simp add: sys_msgsnd_guest_def split: option.split sum.split)
qed

lemma inv_msgrcv:
  assumes inv: "msg_inv {} ns"
  shows "msg_inv {} (fst (sys_msgrcv_guest ns env i msgp msgsz msgtyp flg))"
  using inv inv_rcv_round [OF inv] msg_inv_by_id [OF inv] by (auto simp: sys_msgrcv_guest_def split: option.split)

lemma at_msg_update:
  assumes "msg_inv X ns" and "obj_at mq_id i (gn_queues ns) = Some q" and "mq_id (f q) = i"
  shows "obj_at mq_id j (gn_queues (msg_update ns i f)) = (if j = i then Some (f q) else obj_at mq_id j (gn_queues ns))"
  using qns.at_update [where f = f, OF msg_invD(1) [OF assms(1)] assms(2,3)] by (simp add: msg_update_def)

lemma queues_notify [simp]: "gn_queues (msg_notify c i ns) = gn_queues ns"
  by (simp add: msg_notify_def)

lemma inv_msg_wake:
  assumes inv: "msg_inv {} ns" and k: "k < length (gn_sleepers ns)"
  shows "msg_inv {} (fst (msg_wake ns k sig))"
proof -
  define w where "w = gn_sleepers ns ! k"
  define ns1 where "ns1 = (msg_update ns (ml_queue w) (\<lambda>q. q\<lparr>mq_waiters := mq_waiters q - 1\<rparr>))
    \<lparr>gn_sleepers := take k (gn_sleepers ns) @ drop (Suc k) (gn_sleepers ns)\<rparr>"
  have "w \<in> set (gn_sleepers ns)" using k by (simp add: w_def)
  then obtain q0 where q0: "obj_at mq_id (ml_queue w) (gn_queues ns) = Some q0" using msg_invD(4) [OF inv] by blast
  have "qns.ns_ok {ml_queue w} (gn_queues ns1) (gn_next_id ns1) (gn_sleepers ns1)"
    using qns.ns_unsleep [OF inv [unfolded msg_inv_def] k q0 [unfolded w_def], of "\<lambda>q. q\<lparr>mq_waiters := mq_waiters q - 1\<rparr>"]
    by (simp add: ns1_def w_def msg_update_def queue_inv_def msgs_ok_def waiters_irrelevant)
  then have inv1: "msg_inv {ml_queue w} ns1" by (simp add: msg_inv_def)
  define q where "q = q0\<lparr>mq_waiters := mq_waiters q0 - 1\<rparr>"
  have q: "obj_at mq_id (ml_queue w) (gn_queues ns1) = Some q"
    using at_msg_update [OF inv q0, of "\<lambda>q. q\<lparr>mq_waiters := mq_waiters q - 1\<rparr>"] msg_inv_idD [OF inv q0] by (simp add: ns1_def q_def)
  have "w \<in> set (on_obj ml_queue (ml_queue w) (gn_sleepers ns))" using k by (simp add: w_def on_obj_def)
  then have so: "sleeper_ok q0 w" using msg_invD(2) [OF inv q0] by (simp add: queue_inv_def)
  have wk: "msg_wake ns k sig =
      (if mq_removed q then (msg_queue_maybe_free (ml_queue w) ns1, MsgDone (Inl EIDRM) [])
       else (case sig of Some restart \<Rightarrow> (ns1, if restart then MsgRestart else MsgDone (Inl EINTR) [])
         | None \<Rightarrow> (case ml_wait w of WaitSnd m \<Rightarrow> msgsnd_round ns1 (ml_env w) (ml_queue w) m (ml_flg w)
             | WaitRcv msgp msgsz msgtyp \<Rightarrow> msgrcv_round ns1 (ml_env w) (ml_queue w) msgp msgsz msgtyp (ml_flg w))))"
    unfolding msg_wake_def Let_def w_def [symmetric] ns1_def [symmetric] by (simp add: q)
  show ?thesis
  proof (cases "mq_removed q")
    case True
    then show ?thesis using msg_inv_maybe_free [OF inv1] by (simp add: wk)
  next
    case False
    have i: "msg_inv {} ns1" using qns.ns_live [OF inv1 [unfolded msg_inv_def] q False] by (simp add: msg_inv_def)
    show ?thesis
    proof (cases sig)
      case None
      show ?thesis
      proof (cases "ml_wait w")
        case (WaitSnd m)
        then show ?thesis unfolding wk using False None so inv_snd_round [OF i q False, of m] by (simp add: sleeper_ok_def)
      next
        case (WaitRcv a n t)
        then show ?thesis unfolding wk using False None inv_rcv_round [OF i q False] by simp
      qed
    next
      case (Some r)
      then show ?thesis unfolding wk using False i by simp
    qed
  qed
qed

lemma msg_rmid_inv:
  assumes inv: "msg_inv {} ns" and q: "obj_at mq_id i (gn_queues ns) = Some q"
  shows "msg_inv {} (msg_queue_maybe_free i (msg_notify False i (msg_notify True i (msg_update ns i (\<lambda>q. q\<lparr>mq_removed := True\<rparr>)))))"
proof -
  have "msg_inv {i} ((msg_update ns i (\<lambda>q. q\<lparr>mq_removed := True\<rparr>))\<lparr>gn_sleepers := wake_on {True, False} i (gn_sleepers ns)\<rparr>)"
    by (rule msg_inv_change [OF inv q]) (use msg_invD(2) [OF inv q] msg_inv_idD [OF inv q] in \<open>auto simp: queue_inv_def msgs_ok_def\<close>)
  then have "msg_inv {i} (msg_notify False i (msg_notify True i (msg_update ns i (\<lambda>q. q\<lparr>mq_removed := True\<rparr>))))"
    by (simp add: notify_eq msg_update_def wake_on_twice)
  then show ?thesis by (rule msg_inv_maybe_free)
qed

lemma msg_set_inv:
  assumes inv: "msg_inv {} ns" and q: "obj_at mq_id i (gn_queues ns) = Some q" and nr: "\<not> mq_removed q" and key: "ip_key p = ip_key (mq_perm q)"
  shows "msg_inv {} (msg_notify True i (msg_update ns i (\<lambda>q. q\<lparr>mq_perm := p, mq_qbytes := n, mq_ctime := t\<rparr>)))"
proof -
  let ?f = "\<lambda>q. q\<lparr>mq_perm := p, mq_qbytes := n, mq_ctime := t\<rparr>"
  have "msg_inv {} ((msg_update ns i ?f)\<lparr>gn_sleepers := wake_on {True} i (gn_sleepers ns)\<rparr>)"
  proof (rule msg_inv_change [OF inv q])
    show "\<not> mq_removed (?f q) \<and> stuck (?f q) w" if "waits_snd (ml_wait w) \<notin> {True}" "\<not> mq_removed q" "stuck q w" for w
      using that by (cases "ml_wait w") (auto simp: stuck_def)
  qed (use msg_invD(2) [OF inv q] msg_inv_idD [OF inv q] key nr in \<open>auto simp: queue_inv_def msgs_ok_def\<close>)
  then show ?thesis by (simp add: notify_eq msg_update_def)
qed

lemma inv_msgctl:
  assumes inv: "msg_inv {} ns"
  shows "msg_inv {} (fst (sys_msgctl_guest ns env i cmd buf))"
proof (cases "msg_find_by_id (gn_queues ns) i")
  case (Some q)
  then have q: "obj_at mq_id i (gn_queues ns) = Some q" and nr: "\<not> mq_removed q" using msg_inv_by_id [OF inv] by auto
  note i = msg_inv_idD [OF inv q]
  have "msg_inv {} (fst (msgctl_rmid ns env q))" using msg_rmid_inv [OF inv q] inv i by (simp add: msgctl_rmid_def)
  moreover have "ip_key p = ip_key (mq_perm q)" if "set_perm env req (mq_perm q) = Inr p" for req p
    using that by (auto simp: set_perm_def Let_def split: prod.splits if_splits)
  then have "msg_inv {} (fst (msgctl_set ns env q buf))" using msg_set_inv [OF inv q nr] inv i
    by (auto simp: msgctl_set_def split: option.splits sum.splits)
  ultimately show ?thesis using Some inv by (simp add: sys_msgctl_guest_def Let_def)
qed (use inv in \<open>simp add: sys_msgctl_guest_def Let_def\<close>)

section \<open>Reachable states\<close>

definition msg_ns_init :: msg_ns where
  "msg_ns_init = \<lparr>gn_queues = [], gn_next_id = 1, gn_sleepers = []\<rparr>"

inductive msg_step :: "msg_ns \<Rightarrow> msg_ns \<Rightarrow> bool" where
  msgget: "msg_step ns (fst (sys_msgget ns env key flg))"
| msgsnd: "msg_step ns (fst (sys_msgsnd_guest ns env i msgp msgsz flg))"
| msgrcv: "msg_step ns (fst (sys_msgrcv_guest ns env i msgp msgsz msgtyp flg))"
| wake: "k < length (gn_sleepers ns) \<Longrightarrow> msg_step ns (fst (msg_wake ns k sig))"
| msgctl: "msg_step ns (fst (sys_msgctl_guest ns env i cmd buf))"

inductive msg_reachable :: "msg_ns \<Rightarrow> bool" where
  init: "msg_reachable msg_ns_init"
| step: "msg_reachable ns \<Longrightarrow> msg_step ns ns' \<Longrightarrow> msg_reachable ns'"

lemma msg_reachable_inv: "msg_reachable ns \<Longrightarrow> msg_inv {} ns"
proof (induction rule: msg_reachable.induct)
  case init
  show ?case by (simp add: msg_inv_def msg_ns_init_def qns.ns_empty)
next
  case (step ns ns')
  from step.hyps(2) step.IH show ?case
    by (induction rule: msg_step.induct) (auto simp: inv_msgget inv_msgsnd inv_msgrcv inv_msg_wake inv_msgctl)
qed

end
