(* ===== verification/SysvMsg_Props.thy ===== *)
theory SysvMsg_Props
  imports SysvMsg_Inv
begin

text \<open>
  What the message queues promise: exact counters, the order in which messages are received,
  errors that change nothing, and no task asleep on what it could do.
\<close>

section \<open>An example\<close>

definition msg_env :: "u8 list \<Rightarrow> ipc_env" where
  "msg_env bytes = \<lparr>ie_euid = 10, ie_egid = 10, ie_capable = False, ie_tid = 9, ie_tgid = 9, ie_group = 4, ie_abi = GUEST_ABI_I386, ie_now = 77,
     ie_make_kuid = id, ie_make_kgid = id, ie_uid_shown = id, ie_gid_shown = id, ie_pid_shown = id,
     ie_read = (\<lambda>a n. Some (take n (drop (unat a) bytes))), ie_writable = (\<lambda>a n. True), ie_alloc = True\<rparr>"

definition ex_msg :: msg_msg where
  "ex_msg = \<lparr>mm_type = 7, mm_size = 2, mm_data = [1, 2]\<rparr>"

definition ex_queue :: "msg_msg list \<Rightarrow> nat \<Rightarrow> msg_queue" where
  "ex_queue ms n = \<lparr>mq_id = 1, mq_perm = \<lparr>ip_key = 5, ip_uid = 10, ip_gid = 10, ip_cuid = 10, ip_cgid = 10, ip_mode = 0x180\<rparr>,
     mq_cbytes = sum_list (map mm_size ms), mq_qnum = length ms, mq_qbytes = MSGMNB,
     mq_lspid = (if ms = [] then 0 else 9), mq_lrpid = 0, mq_stime = (if ms = [] then 0 else 77), mq_rtime = 0, mq_ctime = 77,
     mq_removed = False, mq_waiters = n, mq_messages = ms\<rparr>"

definition ex_receiver :: msg_sleeper where
  "ex_receiver = \<lparr>ml_env = msg_env [], ml_queue = 1, ml_wait = WaitRcv 0 2 7, ml_flg = 0, ml_woken = False\<rparr>"

definition ex_mns :: "msg_msg list \<Rightarrow> msg_sleeper list \<Rightarrow> msg_ns" where
  "ex_mns ms W = \<lparr>gn_queues = [ex_queue ms (length W)], gn_next_id = 2, gn_sleepers = W\<rparr>"

lemmas ex_msg_defs = ex_mns_def ex_queue_def ex_msg_def ex_receiver_def msg_env_def

lemma ex_msgget: "fst (sys_msgget msg_ns_init (msg_env []) 5 0x380) = ex_mns [] []"
  by (simp add: sys_msgget_def msg_find_by_key_def msg_ns_init_def new_queue_def new_perm_def ex_msg_defs)

lemma ex_mfind: "msg_find_by_id (gn_queues (ex_mns ms W)) 1 = Some (ex_queue ms (length W))"
    "obj_at mq_id 1 (gn_queues (ex_mns ms W)) = Some (ex_queue ms (length W))"
  by (simp_all add: msg_find_by_id_def obj_at_def ex_mns_def ex_queue_def)

lemma ex_access: "ipc_access_ok (msg_env bs) (mq_perm (ex_queue ms n)) 2" "ipc_access_ok (msg_env bs) (mq_perm (ex_queue ms n)) 4"
  by (simp_all add: ipc_access_ok_def ipc_granted_def msg_env_def ex_queue_def)

lemma ex_read: "msg_read_from_guest (msg_env [7, 0, 0, 0, 1, 2]) 0 2 = Inr ex_msg"
  by (simp add: msg_read_from_guest_def long_size_def guest_abi_is_64bit_def le_field_def le_nat_def msg_env_def ex_msg_def)

lemma ex_send: "fst (sys_msgsnd_guest (ex_mns [] []) (msg_env [7, 0, 0, 0, 1, 2]) 1 0 2 0) = ex_mns [ex_msg] []"
proof -
  have "fst (msgsnd_round (ex_mns [] []) (msg_env [7, 0, 0, 0, 1, 2]) 1 ex_msg 0) = ex_mns [ex_msg] []"
    by (simp add: msgsnd_round_def obj_at_def msg_notify_def msg_update_def obj_update_def msg_enqueue_def ex_msg_defs)
  then show ?thesis using ex_read by (simp add: sys_msgsnd_guest_def ex_mfind ex_access) (simp add: ex_msg_def)
qed

lemma ex_wait: "fst (sys_msgrcv_guest (ex_mns [] []) (msg_env []) 1 0 2 7 0) = ex_mns [] [ex_receiver]"
proof -
  have "fst (msgrcv_round (ex_mns [] []) (msg_env []) 1 0 2 7 0) = ex_mns [] [ex_receiver]"
    by (simp add: msgrcv_round_def obj_at_def msg_sleep_def msg_update_def obj_update_def ex_msg_defs)
  then show ?thesis by (simp add: sys_msgrcv_guest_def ex_mfind ex_access)
qed

lemma ex_msg_reachable: "msg_reachable (ex_mns [] [])" "msg_reachable (ex_mns [ex_msg] [])" "msg_reachable (ex_mns [] [ex_receiver])"
proof -
  show r0: "msg_reachable (ex_mns [] [])" using msg_reachable.step [OF msg_reachable.init msg_step.msgget] unfolding ex_msgget [symmetric] .
  show "msg_reachable (ex_mns [ex_msg] [])" using msg_reachable.step [OF r0 msg_step.msgsnd] unfolding ex_send [symmetric] .
  show "msg_reachable (ex_mns [] [ex_receiver])" using msg_reachable.step [OF r0 msg_step.msgrcv] unfolding ex_wait [symmetric] .
qed

section \<open>Properties\<close>

text \<open>
  C35 (invariant). In every state that can be reached, a queue's \<^verbatim>\<open>cbytes\<close> and \<^verbatim>\<open>qnum\<close> are the bytes and the number of the
  messages in it, every message has a positive type and at most \<^verbatim>\<open>MSGMAX\<close> bytes, \<^verbatim>\<open>waiters\<close> is the
  number of tasks asleep on the queue, a removed queue has such a task, and ids are unique.
\<close>

theorem msg_counters_exact:
  assumes "msg_reachable ns" and "q \<in> set (gn_queues ns)"
  shows "mq_qnum q = length (mq_messages q) \<and> mq_cbytes q = sum_list (map mm_size (mq_messages q)) \<and>
    (\<forall>m \<in> set (mq_messages q). 1 \<le> mm_type m \<and> mm_size m \<le> MSGMAX) \<and>
    mq_waiters q = count_where (\<lambda>w. ml_queue w = mq_id q) (gn_sleepers ns) \<and>
    (mq_removed q \<longrightarrow> (\<exists>w \<in> set (gn_sleepers ns). ml_queue w = mq_id q)) \<and>
    (\<forall>p \<in> set (gn_queues ns). mq_id p = mq_id q \<longrightarrow> p = q) \<and> mq_id q < gn_next_id ns"
proof -
  note inv = msg_reachable_inv [OF assms(1)]
  note t = msg_invD(1) [OF inv]
  have at: "obj_at mq_id (mq_id q) (gn_queues ns) = Some q" using qns.at_iff [OF t] assms(2) by simp
  note qi = msg_invD(2) [OF inv at]
  have w: "mq_waiters q = count_where (\<lambda>w. ml_queue w = mq_id q) (gn_sleepers ns)" using qi by (simp add: queue_inv_def on_obj_def count_where_def)
  have "\<exists>w \<in> set (gn_sleepers ns). ml_queue w = mq_id q" if "mq_removed q"
    using msg_invD(3) [OF inv at that] count_where_0_iff [of "\<lambda>w. ml_queue w = mq_id q" "gn_sleepers ns"] w by auto
  moreover have "mq_id q < gn_next_id ns" using t assms(2) by (simp add: qns.table_ok_def)
  ultimately show ?thesis using w qi qns.table_unique [OF t _ assms(2)] by (simp add: queue_inv_def msgs_ok_def msg_ok_def)
qed

theorem msg_counters_exact_witness:
  "mq_cbytes (ex_queue [ex_msg] 0) = 2 \<and> mq_qnum (ex_queue [ex_msg] 0) = 1"
  using msg_counters_exact [OF ex_msg_reachable(2), of "ex_queue [ex_msg] 0"] by (simp add: ex_mns_def ex_queue_def ex_msg_def)

text \<open>
  C32 (functional). What \<^verbatim>\<open>msgrcv\<close> receives when the queue holds a message that is wanted: for type 0 the first message, for
  a positive type the first of that type or, with \<^verbatim>\<open>MSG_EXCEPT\<close>, of another, for a negative type the first of the
  lowest type up to its absolute value. So messages of one type are received in the order they were
  sent. That message alone leaves the queue, and what is copied to the guest is its type and its bytes.
\<close>

theorem msgrcv_order:
  assumes "msg_reachable ns" and "msg_find_by_id (gn_queues ns) i = Some q" and "ipc_access_ok env (mq_perm q) 4" and "flg AND MSG_COPY = 0"
    and "\<exists>m \<in> set (mq_messages q). wanted t flg m" and "flg AND MSG_NOERROR \<noteq> 0 \<or> (\<forall>m \<in> set (mq_messages q). mm_size m \<le> unat msgsz)"
    and "sys_msgrcv_guest ns env i msgp msgsz t flg = (ns', res)"
  shows "\<exists>as m bs q'. mq_messages q = as @ m # bs \<and> wanted t flg m \<and>
      (\<forall>x \<in> set as. mm_type x \<noteq> mm_type m \<and> (wanted t flg x \<longrightarrow> t < 0)) \<and>
      (t < 0 \<longrightarrow> (\<forall>x \<in> set (mq_messages q). wanted t flg x \<longrightarrow> mm_type m \<le> mm_type x)) \<and>
      obj_at mq_id i (gn_queues ns') = Some q' \<and> mq_messages q' = as @ bs \<and> res = msg_copy_out env msgp (unat msgsz) m"
proof -
  note inv = msg_reachable_inv [OF assms(1)]
  have q: "obj_at mq_id i (gn_queues ns) = Some q" using msg_inv_by_id [OF inv] assms(2) by blast
  obtain k m where p: "msg_pick (mq_messages q) t flg 0 None = Some (k, m)"
    using assms(5) msg_pick_None [of "mq_messages q" t flg] by (metis option.exhaust prod.exhaust)
  let ?as = "take k (mq_messages q)" and ?bs = "drop (Suc k) (mq_messages q)"
  from msg_pick_spec [of t flg "mq_messages q"] have k: "k < length (mq_messages q)" "mq_messages q ! k = m" "wanted t flg m"
    and before: "\<And>j. j < k \<Longrightarrow> wanted t flg (mq_messages q ! j) \<Longrightarrow> t < 0 \<and> mm_type m < mm_type (mq_messages q ! j)"
    and low: "t < 0 \<Longrightarrow> j < length (mq_messages q) \<Longrightarrow> wanted t flg (mq_messages q ! j) \<Longrightarrow> mm_type m \<le> mm_type (mq_messages q ! j)" for j
    by (auto simp: p picked_def)
  have split: "mq_messages q = ?as @ m # ?bs" using id_take_nth_drop [OF k(1)] k(2) by simp
  have "mm_type x \<noteq> mm_type m \<and> (wanted t flg x \<longrightarrow> t < 0)" if "x \<in> set ?as" for x
  proof -
    from that k(1) obtain j where "j < k" "x = mq_messages q ! j" by (auto simp: in_set_conv_nth)
    with before [of j] k(3) show ?thesis by (auto simp: wanted_def split: if_splits)
  qed
  moreover have "mm_type m \<le> mm_type x" if "t < 0" "x \<in> set (mq_messages q)" "wanted t flg x" for x
    using that low by (metis in_set_conv_nth)
  moreover have "m \<in> set (mq_messages q)" using split by (metis in_set_conv_decomp)
  then have "msgrcv_round ns env i msgp (unat msgsz) t flg = (msg_notify True i (msg_update ns i (msg_dequeue env k m)), msg_copy_out env msgp (unat msgsz) m)"
    using q p assms(6) by (auto simp: msgrcv_round_def)
  then have ns': "ns' = msg_notify True i (msg_update ns i (msg_dequeue env k m))" "res = msg_copy_out env msgp (unat msgsz) m"
    using assms(2-4,7) by (auto simp: sys_msgrcv_guest_def)
  moreover have "obj_at mq_id i (gn_queues ns') = Some (msg_dequeue env k m q)"
    using at_msg_update [OF inv q, of "msg_dequeue env k m" i] msg_inv_idD [OF inv q] by (simp add: ns' msg_dequeue_def)
  moreover have "mq_messages (msg_dequeue env k m q) = ?as @ ?bs" by (simp add: msg_dequeue_def)
  ultimately show ?thesis using split k(3) by blast
qed

theorem msgrcv_order_witness:
  "\<exists>q'. obj_at mq_id 1 (gn_queues (fst (sys_msgrcv_guest (ex_mns [ex_msg] []) (msg_env []) 1 0 2 7 0))) = Some q' \<and> mq_messages q' = [] \<and>
     snd (sys_msgrcv_guest (ex_mns [ex_msg] []) (msg_env []) 1 0 2 7 0) = MsgDone (Inr 2) [(0, [7, 0, 0, 0]), (4, [1, 2])]"
proof -
  let ?r = "sys_msgrcv_guest (ex_mns [ex_msg] []) (msg_env []) 1 0 2 7 0"
  have h: "\<exists>m \<in> set (mq_messages (ex_queue [ex_msg] 0)). wanted 7 0 m" "(0 :: u32) AND MSG_COPY = 0"
    "(0 :: u32) AND MSG_NOERROR \<noteq> 0 \<or> (\<forall>m \<in> set (mq_messages (ex_queue [ex_msg] 0)). mm_size m \<le> unat (2 :: u64))"
    by (simp_all add: ex_queue_def ex_msg_def wanted_def)
  have r: "?r = (fst ?r, snd ?r)" by simp
  have e: "[ex_msg] = as @ m # bs \<longleftrightarrow> as = [] \<and> m = ex_msg \<and> bs = []" for as m bs by (cases as) auto
  have c: "msg_copy_out (msg_env []) 0 (unat (2 :: u64)) ex_msg = MsgDone (Inr 2) [(0, [7, 0, 0, 0]), (4, [1, 2])]"
    by (simp add: msg_copy_out_def long_size_def guest_abi_is_64bit_def msg_env_def ex_msg_def le_bytes_def upt_rec)
  from msgrcv_order [OF ex_msg_reachable(2) ex_mfind(1) [of "[ex_msg]" "[]", unfolded list.size] ex_access(2) h(2,1,3) r] obtain as m bs q' where
    "mq_messages (ex_queue [ex_msg] 0) = as @ m # bs" "obj_at mq_id 1 (gn_queues (fst ?r)) = Some q'" "mq_messages q' = as @ bs"
    "snd ?r = msg_copy_out (msg_env []) 0 (unat (2 :: u64)) m" by blast
  moreover have "mq_messages (ex_queue [ex_msg] 0) = [ex_msg]" by (simp add: ex_queue_def)
  ultimately show ?thesis using e c by auto
qed

text \<open>
  C33 (liveness). No wake-up is lost. A task asleep in \<^verbatim>\<open>msgsnd\<close> that has not been woken has a queue that exists and has no room for
  its message; one asleep in \<^verbatim>\<open>msgrcv\<close> has a queue that exists and holds no message it wants.
\<close>

theorem msg_no_lost_wakeup:
  assumes "msg_reachable ns" and "w \<in> set (gn_sleepers ns)" and "\<not> ml_woken w"
  shows "\<exists>q. msg_find_by_id (gn_queues ns) (ml_queue w) = Some q \<and>
    (case ml_wait w of WaitSnd m \<Rightarrow> mq_qbytes q < sum_list (map mm_size (mq_messages q)) + mm_size m
     | WaitRcv a n t \<Rightarrow> \<forall>m \<in> set (mq_messages q). \<not> wanted t (ml_flg w) m)"
proof -
  note inv = msg_reachable_inv [OF assms(1)]
  obtain q where q: "obj_at mq_id (ml_queue w) (gn_queues ns) = Some q" using msg_invD(4) [OF inv assms(2)] by blast
  have "w \<in> set (on_obj ml_queue (ml_queue w) (gn_sleepers ns))" using assms(2) by (simp add: on_obj_def)
  then have "\<not> mq_removed q" "stuck q w" "msgs_ok q" using msg_invD(2) [OF inv q] assms(3) by (auto simp: queue_inv_def sleeper_ok_def)
  then show ?thesis using q msg_inv_by_id [OF inv] by (cases "ml_wait w") (auto simp: stuck_def msgs_ok_def msg_pick_None)
qed

theorem msg_no_lost_wakeup_witness:
  "msg_find_by_id (gn_queues (ex_mns [] [ex_receiver])) 1 = Some (ex_queue [] 1)"
  using msg_no_lost_wakeup [OF ex_msg_reachable(3), of ex_receiver]
  by (auto simp: ex_mns_def ex_receiver_def msg_find_by_id_def ex_queue_def split: if_splits)

text \<open>
  C36 (error). A call that fails changes nothing: no message is queued by a \<^verbatim>\<open>msgsnd\<close> that fails and none is taken by a \<^verbatim>\<open>msgrcv\<close> that
  does, nor does a \<^verbatim>\<open>msgctl\<close> that fails remove or alter a queue, except that a \<^verbatim>\<open>msgrcv\<close> whose buffer cannot be written
  (\<^verbatim>\<open>EFAULT\<close>) has taken its message, which is lost. A failed \<^verbatim>\<open>msgsnd\<close> without
  \<^verbatim>\<open>IPC_NOWAIT\<close> fails for its arguments only, not for a full queue.
\<close>

theorem msg_errors_change_nothing:
  assumes "msg_reachable ns"
  shows "(\<forall>e ws. snd (sys_msgsnd_guest ns env i msgp msgsz flg) = MsgDone (Inl e) ws \<longrightarrow>
      fst (sys_msgsnd_guest ns env i msgp msgsz flg) = ns \<and> ws = [] \<and> (e = EAGAIN \<longrightarrow> flg AND IPC_NOWAIT \<noteq> 0)) \<and>
   (\<forall>e ws. snd (sys_msgrcv_guest ns env i msgp msgsz t flg) = MsgDone (Inl e) ws \<longrightarrow>
      (if e = EFAULT then \<exists>q k m. msg_find_by_id (gn_queues ns) i = Some q \<and> picked t flg (mq_messages q) (Some (k, m)) \<and>
           fst (sys_msgrcv_guest ns env i msgp msgsz t flg) = msg_notify True i (msg_update ns i (msg_dequeue env k m))
       else fst (sys_msgrcv_guest ns env i msgp msgsz t flg) = ns)) \<and>
   (\<forall>e ws. snd (sys_msgctl_guest ns env i cmd buf) = MsgDone (Inl e) ws \<longrightarrow> fst (sys_msgctl_guest ns env i cmd buf) = ns)"
proof (intro conjI allI impI)
  fix e ws
  assume h: "snd (sys_msgsnd_guest ns env i msgp msgsz flg) = MsgDone (Inl e) ws"
  have rd: "e' \<noteq> EAGAIN" if "msg_read_from_guest env msgp n = Inl e'" for n e'
    using that by (auto simp: msg_read_from_guest_def Let_def split: option.splits if_splits)
  have rnd: "fst (msgsnd_round ns env i m flg) = ns \<and> ws = [] \<and> (e = EAGAIN \<longrightarrow> flg AND IPC_NOWAIT \<noteq> 0)"
    if "snd (msgsnd_round ns env i m flg) = MsgDone (Inl e) ws" for m
    using that by (auto simp: msgsnd_round_def split: option.splits if_splits)
  show "fst (sys_msgsnd_guest ns env i msgp msgsz flg) = ns" "ws = []" "e = EAGAIN \<Longrightarrow> flg AND IPC_NOWAIT \<noteq> 0"
    using h rd rnd by (auto simp: sys_msgsnd_guest_def split: option.splits sum.splits if_splits)
next
  fix e ws
  assume h: "snd (sys_msgrcv_guest ns env i msgp msgsz t flg) = MsgDone (Inl e) ws"
  show "if e = EFAULT then \<exists>q k m. msg_find_by_id (gn_queues ns) i = Some q \<and> picked t flg (mq_messages q) (Some (k, m)) \<and>
           fst (sys_msgrcv_guest ns env i msgp msgsz t flg) = msg_notify True i (msg_update ns i (msg_dequeue env k m))
       else fst (sys_msgrcv_guest ns env i msgp msgsz t flg) = ns"
  proof (cases "flg AND MSG_COPY = 0 \<and> (\<exists>q. msg_find_by_id (gn_queues ns) i = Some q \<and> ipc_access_ok env (mq_perm q) 4)")
    case True
    then obtain q where q: "msg_find_by_id (gn_queues ns) i = Some q" and
      r: "sys_msgrcv_guest ns env i msgp msgsz t flg = msgrcv_round ns env i msgp (unat msgsz) t flg" by (auto simp: sys_msgrcv_guest_def)
    have co: "e' = EFAULT" if "msg_copy_out env msgp n m = MsgDone (Inl e') ws'" for n m e' ws'
      using that by (auto simp: msg_copy_out_def Let_def split: if_splits)
    have at: "obj_at mq_id i (gn_queues ns) = Some q" using msg_inv_by_id [OF msg_reachable_inv [OF assms]] q by blast
    show ?thesis
    proof (cases "msg_pick (mq_messages q) t flg 0 None")
      case None
      then show ?thesis using h unfolding r by (auto simp: msgrcv_round_def at split: if_splits)
    next
      case (Some p)
      obtain k m where p: "p = (k, m)" by (cases p)
      have "picked t flg (mq_messages q) (Some (k, m))" using msg_pick_spec [of t flg "mq_messages q"] Some p by simp
      then show ?thesis using h q Some p co unfolding r by (cases "unat msgsz < mm_size m \<and> flg AND MSG_NOERROR = 0") (auto simp: msgrcv_round_def at)
    qed
  qed (use h in \<open>auto simp: sys_msgrcv_guest_def split: option.splits if_splits\<close>)
next
  fix e ws
  assume "snd (sys_msgctl_guest ns env i cmd buf) = MsgDone (Inl e) ws"
  then show "fst (sys_msgctl_guest ns env i cmd buf) = ns"
    by (auto simp: sys_msgctl_guest_def msgctl_rmid_def msgctl_set_def Let_def split: option.splits sum.splits if_splits)
qed

theorem msg_errors_change_nothing_witness:
  "sys_msgrcv_guest (ex_mns [ex_msg] []) (msg_env []) 1 0 1 7 0 = (ex_mns [ex_msg] [], MsgDone (Inl E2BIG) [])"
proof -
  have r: "snd (sys_msgrcv_guest (ex_mns [ex_msg] []) (msg_env []) 1 0 1 7 0) = MsgDone (Inl E2BIG) []"
    by (simp add: sys_msgrcv_guest_def msgrcv_round_def ex_mfind ex_access) (simp add: ex_queue_def ex_msg_def)
  then have "fst (sys_msgrcv_guest (ex_mns [ex_msg] []) (msg_env []) 1 0 1 7 0) = ex_mns [ex_msg] []"
    using msg_errors_change_nothing [OF ex_msg_reachable(2), of "msg_env []" 1 0 1 0 7 0 0] by simp
  with r show ?thesis by (metis prod.collapse)
qed

end
