(* ===== verification/Futex.thy ===== *)
theory Futex
  imports Ish_Prelude
begin

text \<open>
  \<^verbatim>\<open>kernel/futex.c\<close>: futexes. Everything the code does under \<^verbatim>\<open>futex_lock\<close> is one step. A call that waits
  leaves its frame (the \<^verbatim>\<open>struct futex_wait\<close> and the locals of the call) in \<open>f_waits\<close> and goes on from there in
  a later step; freeing that entry is the end of the C stack frame. Guest memory is host bytes
  that tasks reach through their page tables (\<open>fe_ptr\<close>); what another thread stores into the word
  between a load and the compare-and-swap that follows it is an argument (\<open>fe_races\<close>). The trace ring and the choice
  of stack or heap for the frame (\<^verbatim>\<open>futex_heap_wait_mode\<close>) are debugging aids and left out.
\<close>

section \<open>Times\<close>

record timespec =
  tv_sec :: int
  tv_nsec :: int

definition timespec_add :: "timespec \<Rightarrow> timespec \<Rightarrow> timespec" where
  "timespec_add x y =
     (let s = s64 (tv_sec x + tv_sec y); n = tv_nsec x + tv_nsec y
      in if n \<ge> 1000000000 then \<lparr>tv_sec = s64 (s + 1), tv_nsec = n - 1000000000\<rparr> else \<lparr>tv_sec = s, tv_nsec = n\<rparr>)"

definition timespec_subtract :: "timespec \<Rightarrow> timespec \<Rightarrow> timespec" where
  "timespec_subtract x y =
     (if tv_nsec x < tv_nsec y
      then \<lparr>tv_sec = s64 (s64 (tv_sec x - 1) - tv_sec y), tv_nsec = tv_nsec x + 1000000000 - tv_nsec y\<rparr>
      else \<lparr>tv_sec = s64 (tv_sec x - tv_sec y), tv_nsec = tv_nsec x - tv_nsec y\<rparr>)"

definition timespec_positive :: "timespec \<Rightarrow> bool" where
  "timespec_positive ts \<longleftrightarrow> tv_sec ts > 0 \<or> (tv_sec ts = 0 \<and> tv_nsec ts > 0)"

definition ts_zero :: timespec where
  "ts_zero = \<lparr>tv_sec = 0, tv_nsec = 0\<rparr>"

section \<open>State\<close>

abbreviation FUTEX_WAITERS :: u32 where "FUTEX_WAITERS \<equiv> 0x80000000"
abbreviation FUTEX_OWNER_DIED :: u32 where "FUTEX_OWNER_DIED \<equiv> 0x40000000"
abbreviation FUTEX_TID_MASK :: u32 where "FUTEX_TID_MASK \<equiv> 0x3fffffff"
abbreviation FUTEX_PRIVATE_FLAG :: u32 where "FUTEX_PRIVATE_FLAG \<equiv> 128"
abbreviation FUTEX_CLOCK_REALTIME :: u32 where "FUTEX_CLOCK_REALTIME \<equiv> 256"
abbreviation FUTEX_WAIT_MAGIC :: u64 where "FUTEX_WAIT_MAGIC \<equiv> 0x0FEEDFACEF00D01"

record futex_key =
  fk_kind :: u64
  fk_object0 :: u64
  fk_object1 :: u64
  fk_offset :: u64

record futex =
  fx_refcount :: nat
  fx_key :: futex_key
  fx_queue :: "nat list"
  fx_pi_queue :: "nat list"
  fx_pi_owner :: u32
  fx_wake_seq :: u64

text \<open>
  Where a waiting call is: watching for its wake before it sleeps, asleep in \<^verbatim>\<open>wait_for\<close>, looking up the
  owner of a PI lock with \<^verbatim>\<open>futex_lock\<close> dropped, or asleep for a PI lock.
\<close>

datatype wait_pc = Wait_spin | Wait_sleep | Pi_look u32 u32 | Pi_sleep

record futex_wait =
  w_magic :: u64
  w_notified :: bool
  w_futex :: nat
  w_task :: nat
  w_bitset :: u32
  w_interrupted :: bool
  w_tid :: u32
  w_pi_owned :: bool
  w_uaddr :: u64
  w_timeout :: "timespec option"
  w_deadline :: timespec
  w_pi :: bool
  w_trylock :: bool
  w_pi_queued :: bool
  w_pc :: wait_pc

text \<open>The fields of \<^verbatim>\<open>struct task\<close> that belong to futexes.\<close>

record ftask =
  ft_park :: "nat option"
  ft_park_uaddr :: u64
  ft_wake_seq :: u64
  ft_timed :: bool
  ft_deadline :: timespec
  ft_timeout :: timespec
  ft_robust :: u64

record fstate =
  f_heap :: "futex heap"
  f_hash :: "nat \<Rightarrow> nat list"
  f_waits :: "futex_wait heap"
  f_tasks :: "ftask list"
  f_pi_waiting :: nat
  f_store :: "nat \<Rightarrow> u8"
  f_abort :: bool

text \<open>
  The calling task and its surroundings: its address space (\<open>fe_ptr write addr\<close> is the host address and whether
  an access there may fault on the host, \<open>fe_host_ok\<close> that it does not, \<open>fe_range\<close> is \<^verbatim>\<open>user_range_valid_mem\<close>; \<open>fe_shared\<close> is \<^verbatim>\<open>mem_shared_page_id\<close>
  of a page), its ids, the clocks, its signals, and whether an allocation fails.
\<close>

record fenv =
  fe_task :: nat
  fe_tid :: u32
  fe_abi :: guest_abi
  fe_mem :: u64
  fe_shared :: "u64 \<Rightarrow> (u64 \<times> u64 \<times> u64 \<times> u64) option"
  fe_ptr :: "bool \<Rightarrow> u64 \<Rightarrow> (nat \<times> bool) option"
  fe_host_ok :: "nat \<Rightarrow> bool"
  fe_range :: "u64 \<Rightarrow> nat \<Rightarrow> bool"
  fe_nomem :: "futex_key \<Rightarrow> bool"
  fe_now :: timespec
  fe_guest_now :: "bool \<Rightarrow> timespec"
  fe_freeze :: bool
  fe_trap_stop :: bool
  fe_pending :: u64
  fe_group_pending :: u64
  fe_wake_blocked :: u64
  fe_restart :: bool
  fe_spin :: bool
  fe_pids :: "u32 \<Rightarrow> (nat \<times> bool \<times> bool) option"
  fe_races :: "u32 list"

datatype outcome = Return "nat res" | Spinning nat | Blocked nat timespec bool | Looking nat u32

text \<open>Changing one futex, one frame, one task.\<close>

definition futex_upd :: "nat \<Rightarrow> (futex \<Rightarrow> futex) \<Rightarrow> fstate \<Rightarrow> fstate" where
  "futex_upd a g st = (case heap_get (f_heap st) a of
     None \<Rightarrow> st | Some f \<Rightarrow> st\<lparr>f_heap := heap_put (f_heap st) a (g f)\<rparr>)"

definition wait_upd :: "nat \<Rightarrow> (futex_wait \<Rightarrow> futex_wait) \<Rightarrow> fstate \<Rightarrow> fstate" where
  "wait_upd i g st = (case heap_get (f_waits st) i of
     None \<Rightarrow> st | Some w \<Rightarrow> st\<lparr>f_waits := heap_put (f_waits st) i (g w)\<rparr>)"

definition task_upd :: "nat \<Rightarrow> (ftask \<Rightarrow> ftask) \<Rightarrow> fstate \<Rightarrow> fstate" where
  "task_upd t g st = (if t < length (f_tasks st) then st\<lparr>f_tasks := (f_tasks st)[t := g (f_tasks st ! t)]\<rparr> else st)"

definition futex_assert :: "bool \<Rightarrow> fstate \<Rightarrow> fstate" where
  "futex_assert b st = (if b then st else st\<lparr>f_abort := True\<rparr>)"

definition queue_remove :: "nat \<Rightarrow> nat \<Rightarrow> fstate \<Rightarrow> fstate" where
  "queue_remove a i = futex_upd a (fx_queue_update (removeAll i))"

definition pi_queue_remove :: "nat \<Rightarrow> nat \<Rightarrow> fstate \<Rightarrow> fstate" where
  "pi_queue_remove a i = futex_upd a (fx_pi_queue_update (removeAll i))"

definition wait_notify :: "nat \<Rightarrow> fstate \<Rightarrow> fstate" where
  "wait_notify i = wait_upd i (w_notified_update (\<lambda>_. True))"

section \<open>Guest memory\<close>

definition host_load :: "(nat \<Rightarrow> u8) \<Rightarrow> nat \<Rightarrow> u32" where
  "host_load m p = le_word (map m [p ..< p + 4])"

definition host_store :: "nat \<Rightarrow> u32 \<Rightarrow> (nat \<Rightarrow> u8) \<Rightarrow> nat \<Rightarrow> u8" where
  "host_store p v m = (\<lambda>q. if p \<le> q \<and> q < p + 4 then le_bytes 4 v ! (q - p) else m q)"

definition user_ptr :: "fenv \<Rightarrow> bool \<Rightarrow> u64 \<Rightarrow> nat option" where
  "user_ptr env wr addr = (case fe_ptr env wr addr of
     None \<Rightarrow> None | Some (p, may_fault) \<Rightarrow> if may_fault \<and> \<not> fe_host_ok env p then None else Some p)"

text \<open>
  \<^verbatim>\<open>user_read\<close> and \<^verbatim>\<open>user_write\<close> (\<^verbatim>\<open>kernel/user.c\<close>) check the whole range and then copy page by page; a page that is not
  mapped ends the copy, with the pages before it written.
\<close>

fun user_read_bytes :: "fenv \<Rightarrow> (nat \<Rightarrow> u8) \<Rightarrow> u64 \<Rightarrow> nat \<Rightarrow> u8 list option" where
  "user_read_bytes env m addr 0 = Some []"
| "user_read_bytes env m addr (Suc n) = (case user_ptr env False addr of None \<Rightarrow> None
     | Some p \<Rightarrow> (case user_read_bytes env m (addr + 1) n of None \<Rightarrow> None | Some bs \<Rightarrow> Some (m p # bs)))"

definition user_read :: "fenv \<Rightarrow> (nat \<Rightarrow> u8) \<Rightarrow> u64 \<Rightarrow> nat \<Rightarrow> u8 list option" where
  "user_read env m addr n = (if fe_range env addr n then user_read_bytes env m addr n else None)"

fun user_write_bytes :: "fenv \<Rightarrow> u64 \<Rightarrow> u8 list \<Rightarrow> (nat \<Rightarrow> u8) \<Rightarrow> bool \<times> (nat \<Rightarrow> u8)" where
  "user_write_bytes env addr [] m = (True, m)"
| "user_write_bytes env addr (b # bs) m = (case user_ptr env True addr of None \<Rightarrow> (False, m)
     | Some p \<Rightarrow> user_write_bytes env (addr + 1) bs (m(p := b)))"

definition user_write :: "fenv \<Rightarrow> u64 \<Rightarrow> u8 list \<Rightarrow> (nat \<Rightarrow> u8) \<Rightarrow> bool \<times> (nat \<Rightarrow> u8)" where
  "user_write env addr bs m = (if fe_range env addr (length bs) then user_write_bytes env addr bs m else (False, m))"

definition futex_load :: "fenv \<Rightarrow> u64 \<Rightarrow> fstate \<Rightarrow> u32 option" where
  "futex_load env addr st = map_option (host_load (f_store st)) (user_ptr env False addr)"

section \<open>Keys and the table of futexes\<close>

definition futex_shared_key :: "fenv \<Rightarrow> u64 \<Rightarrow> futex_key option" where
  "futex_shared_key env addr = (case fe_shared env (drop_bit 12 addr) of None \<Rightarrow> None
     | Some (kind, o0, o1, index) \<Rightarrow> Some \<lparr>fk_kind = kind, fk_object0 = o0, fk_object1 = o1,
         fk_offset = push_bit 12 index OR (addr AND 0xfff)\<rparr>)"

definition futex_key_of :: "fenv \<Rightarrow> u64 \<Rightarrow> u32 \<Rightarrow> futex_key" where
  "futex_key_of env addr op =
     (let private = \<lparr>fk_kind = 0, fk_object0 = fe_mem env, fk_object1 = 0, fk_offset = addr\<rparr>
      in if op AND FUTEX_PRIVATE_FLAG \<noteq> 0 then private
         else case futex_shared_key env addr of None \<Rightarrow> private | Some k \<Rightarrow> k)"

definition futex_key_equal :: "futex_key \<Rightarrow> futex_key \<Rightarrow> bool" where
  "futex_key_equal a b \<longleftrightarrow> fk_kind a = fk_kind b \<and> fk_object0 a = fk_object0 b \<and>
     fk_object1 a = fk_object1 b \<and> fk_offset a = fk_offset b"

definition futex_key_hash :: "futex_key \<Rightarrow> nat" where
  "futex_key_hash k =
     (let mix = 0x9e3779b97f4a7c15; h = (fk_offset k XOR fk_kind k) * mix;
          h = (h XOR fk_object0 k) * mix; h = (h XOR fk_object1 k) * mix
      in unat (drop_bit 52 h :: u64))"

definition futex_find :: "futex_key \<Rightarrow> fstate \<Rightarrow> nat option" where
  "futex_find k st = find (\<lambda>a. case heap_get (f_heap st) a of None \<Rightarrow> False | Some f \<Rightarrow> futex_key_equal (fx_key f) k)
     (f_hash st (futex_key_hash k))"

definition futex_get_unlocked :: "fenv \<Rightarrow> futex_key \<Rightarrow> fstate \<Rightarrow> nat option \<times> fstate" where
  "futex_get_unlocked env k st = (case futex_find k st of
     Some a \<Rightarrow> (Some a, futex_upd a (fx_refcount_update Suc) st)
   | None \<Rightarrow>
     (if fe_nomem env k then (None, st)
      else let (h, a) = heap_alloc (f_heap st) \<lparr>fx_refcount = 1, fx_key = k, fx_queue = [], fx_pi_queue = [],
                 fx_pi_owner = 0, fx_wake_seq = 0\<rparr>
           in (Some a, st\<lparr>f_heap := h, f_hash := (f_hash st)(futex_key_hash k := a # f_hash st (futex_key_hash k))\<rparr>)))"

definition futex_put_unlocked :: "nat \<Rightarrow> fstate \<Rightarrow> fstate" where
  "futex_put_unlocked a st = (case heap_get (f_heap st) a of None \<Rightarrow> st
   | Some f \<Rightarrow>
     (if fx_refcount f = 1
      then (futex_assert (fx_queue f = [] \<and> fx_pi_queue f = []) st)
        \<lparr>f_heap := heap_free (f_heap st) a,
         f_hash := (f_hash st)(futex_key_hash (fx_key f) := removeAll a (f_hash st (futex_key_hash (fx_key f))))\<rparr>
      else st\<lparr>f_heap := heap_put (f_heap st) a (f\<lparr>fx_refcount := fx_refcount f - 1\<rparr>)\<rparr>))"

section \<open>Waiting\<close>

definition futex_wait_has_pending_signal :: "fenv \<Rightarrow> bool" where
  "futex_wait_has_pending_signal env \<longleftrightarrow> fe_freeze env \<or> fe_trap_stop env \<or>
     (fe_pending env OR fe_group_pending env) AND NOT (fe_wake_blocked env) \<noteq> 0"

definition futex_clear_restart_park_locked :: "nat \<Rightarrow> fstate \<Rightarrow> fstate" where
  "futex_clear_restart_park_locked t st = task_upd t (ft_timed_update (\<lambda>_. False))
     (case ft_park (f_tasks st ! t) of None \<Rightarrow> st
      | Some a \<Rightarrow> task_upd t (ft_park_update (\<lambda>_. None)) (futex_put_unlocked a st))"

definition futex_release_restart_park :: "nat \<Rightarrow> fstate \<Rightarrow> fstate" where
  "futex_release_restart_park t st =
     (if ft_park (f_tasks st ! t) = None then st else futex_clear_restart_park_locked t st)"

definition wait_queued :: "nat \<Rightarrow> fstate \<Rightarrow> bool" where
  "wait_queued i st = (case heap_get (f_waits st) i of None \<Rightarrow> False
     | Some w \<Rightarrow> (case heap_get (f_heap st) (w_futex w) of None \<Rightarrow> False | Some f \<Rightarrow> i \<in> set (fx_queue f)))"

definition wait_slice :: timespec where
  "wait_slice = \<lparr>tv_sec = 0, tv_nsec = 50000000\<rparr>"

text \<open>The length of the next sleep and whether it is only a cap (\<^verbatim>\<open>remaining\<close> and \<^verbatim>\<open>capped\<close>).\<close>

definition futex_slice :: "timespec option \<Rightarrow> timespec \<Rightarrow> timespec \<times> bool" where
  "futex_slice timeout remaining = (case timeout of None \<Rightarrow> (wait_slice, True)
   | Some _ \<Rightarrow> (if tv_sec remaining > 0 \<or> (tv_sec remaining = 0 \<and> tv_nsec remaining > tv_nsec wait_slice)
                then wait_slice else remaining,
                tv_sec remaining > 0 \<or> tv_nsec remaining > 2 * tv_nsec wait_slice))"

definition futex_wait_finish :: "unit res \<Rightarrow> nat \<Rightarrow> fstate \<Rightarrow> outcome \<times> fstate" where
  "futex_wait_finish err i st = (case heap_get (f_waits st) i of None \<Rightarrow> (Return (Inl EFAULT), st)
   | Some w \<Rightarrow>
     (let a = w_futex w; st1 = queue_remove a i st; st2 = st1\<lparr>f_waits := heap_free (f_waits st1) i\<rparr>
      in case err of
           Inl EINTR \<Rightarrow> (Return (Inl EINTR),
             task_upd (w_task w) (\<lambda>t. (t\<lparr>ft_park := Some a, ft_park_uaddr := w_uaddr w,
               ft_wake_seq := (case heap_get (f_heap st2) a of None \<Rightarrow> 0 | Some f \<Rightarrow> fx_wake_seq f),
               ft_timed := w_timeout w \<noteq> None\<rparr>)
               \<lparr>ft_deadline := (if w_timeout w = None then ft_deadline t else w_deadline w),
                ft_timeout := (case w_timeout w of None \<Rightarrow> ft_timeout t | Some ts \<Rightarrow> ts)\<rparr>) st2)
         | Inl e \<Rightarrow> (Return (Inl e), futex_put_unlocked a st2)
         | Inr _ \<Rightarrow> (Return (Inr 0), futex_put_unlocked a st2)))"

definition futex_wait_loop :: "fenv \<Rightarrow> nat \<Rightarrow> fstate \<Rightarrow> outcome \<times> fstate" where
  "futex_wait_loop env i st = (case heap_get (f_waits st) i of None \<Rightarrow> (Return (Inl EFAULT), st)
   | Some w \<Rightarrow>
     (let remaining = timespec_subtract (w_deadline w) (fe_now env); (slice, capped) = futex_slice (w_timeout w) remaining
      in if \<not> wait_queued i st then futex_wait_finish (Inr ()) i st
         else if w_timeout w \<noteq> None \<and> \<not> timespec_positive remaining
         then futex_wait_finish (Inl (if futex_wait_has_pending_signal env then EINTR else ETIMEDOUT)) i st
         else (Blocked i slice capped, wait_upd i (\<lambda>w. w\<lparr>w_notified := False, w_pc := Wait_sleep\<rparr>) st)))"

definition futex_wait_woken :: "fenv \<Rightarrow> unit res \<Rightarrow> nat \<Rightarrow> fstate \<Rightarrow> outcome \<times> fstate" where
  "futex_wait_woken env err i st = (case heap_get (f_waits st) i of None \<Rightarrow> (Return (Inl EFAULT), st)
   | Some w \<Rightarrow>
     (if w_interrupted w \<or> futex_wait_has_pending_signal env then futex_wait_finish (Inl EINTR) i st
      else if err = Inl EINTR then futex_wait_loop env i st
      else if \<not> wait_queued i st then futex_wait_finish (Inr ()) i st
      else if err \<noteq> Inl ETIMEDOUT \<and> err \<noteq> Inr () then futex_wait_finish err i st
      else futex_wait_loop env i st))"

definition futex_wait_block ::
  "fenv \<Rightarrow> u64 \<Rightarrow> u32 \<Rightarrow> timespec option \<Rightarrow> u32 \<Rightarrow> (timespec \<times> timespec) option \<Rightarrow> nat \<Rightarrow> fstate \<Rightarrow> outcome \<times> fstate" where
  "futex_wait_block env uaddr val timeout bitset resumed a st = (case futex_load env uaddr st of
     None \<Rightarrow> (Return (Inl EFAULT), futex_put_unlocked a st)
   | Some tmp \<Rightarrow>
     (if tmp \<noteq> val then (Return (Inl EAGAIN), futex_put_unlocked a st)
      else
        let deadline = (case timeout of None \<Rightarrow> ts_zero
              | Some ts \<Rightarrow> (case resumed of
                  Some (d, ts') \<Rightarrow> if ts' = ts then d else timespec_add (fe_now env) ts
                | None \<Rightarrow> timespec_add (fe_now env) ts));
            (ws, i) = heap_alloc (f_waits st) \<lparr>w_magic = FUTEX_WAIT_MAGIC, w_notified = False, w_futex = a,
              w_task = fe_task env, w_bitset = bitset, w_interrupted = False, w_tid = 0, w_pi_owned = False,
              w_uaddr = uaddr, w_timeout = timeout, w_deadline = deadline, w_pi = False, w_trylock = False,
              w_pi_queued = False, w_pc = Wait_spin\<rparr>;
            st = futex_upd a (\<lambda>f. f\<lparr>fx_queue := fx_queue f @ [i]\<rparr>) (st\<lparr>f_waits := ws\<rparr>)
        in if fe_spin env then (Spinning i, st) else futex_wait_loop env i st))"

definition futex_wait_masked ::
  "fenv \<Rightarrow> u64 \<Rightarrow> u32 \<Rightarrow> u32 \<Rightarrow> timespec option \<Rightarrow> u32 \<Rightarrow> fstate \<Rightarrow> outcome \<times> fstate" where
  "futex_wait_masked env uaddr op val timeout bitset st =
     (case futex_get_unlocked env (futex_key_of env uaddr op) st of
        (None, st) \<Rightarrow> (Return (Inl ENOMEM), st)
      | (Some a, st) \<Rightarrow>
        (let t = f_tasks st ! fe_task env
         in case ft_park t of
              None \<Rightarrow> futex_wait_block env uaddr val timeout bitset None a st
            | Some b \<Rightarrow>
              (if b = a then
                 let st = task_upd (fe_task env) (\<lambda>t. t\<lparr>ft_timed := False, ft_park := None\<rparr>) (futex_put_unlocked a st);
                     seq = (case heap_get (f_heap st) a of None \<Rightarrow> 0 | Some f \<Rightarrow> fx_wake_seq f)
                 in if seq \<noteq> ft_wake_seq t then (Return (Inr 0), futex_put_unlocked a st)
                    else futex_wait_block env uaddr val timeout bitset
                           (if ft_timed t then Some (ft_deadline t, ft_timeout t) else None) a st
               else futex_wait_block env uaddr val timeout bitset None a
                      (futex_clear_restart_park_locked (fe_task env) st))))"

text \<open>What the \<^verbatim>\<open>FUTEX_WAIT\<close> cases of \<^verbatim>\<open>sys_futex_common\<close> make of the value \<^verbatim>\<open>futex_wait_masked\<close> returns.\<close>

fun futex_wait_ret :: "fenv \<Rightarrow> outcome \<times> fstate \<Rightarrow> outcome \<times> fstate" where
  "futex_wait_ret env (Return (Inl EINTR), st) =
     (if fe_restart env then (Return (Inl ERESTART), st)
      else (Return (Inl EINTR), futex_release_restart_park (fe_task env) st))"
| "futex_wait_ret env r = r"

section \<open>Waking and moving waiters\<close>

definition futex_wait_is_live :: "nat \<Rightarrow> fstate \<Rightarrow> bool" where
  "futex_wait_is_live i st = (case heap_get (f_waits st) i of None \<Rightarrow> False | Some w \<Rightarrow> w_magic w = FUTEX_WAIT_MAGIC)"

text \<open>
  The loop that wakes at most \<open>mx\<close> waiters of futex \<open>a\<close>, from the front of its queue; \<open>P\<close> is the test of the bit
  sets in \<^verbatim>\<open>futex_wakelike\<close>, and constantly true in the other callers.
\<close>

fun futex_wake_loop :: "(u32 \<Rightarrow> bool) \<Rightarrow> nat \<Rightarrow> nat \<Rightarrow> nat list \<Rightarrow> nat \<Rightarrow> fstate \<Rightarrow> nat \<times> fstate" where
  "futex_wake_loop P mx a [] woken st = (woken, st)"
| "futex_wake_loop P mx a (i # is) woken st =
     (if woken \<ge> mx then (woken, st)
      else case heap_get (f_waits st) i of
        None \<Rightarrow> futex_wake_loop P mx a is woken (queue_remove a i st)
      | Some w \<Rightarrow>
        (if \<not> P (w_bitset w) then futex_wake_loop P mx a is woken st
         else if \<not> futex_wait_is_live i st then futex_wake_loop P mx a is woken (queue_remove a i st)
         else futex_wake_loop P mx a is (woken + 1) (queue_remove a i (wait_notify i st))))"

definition futex_queue_of :: "nat \<Rightarrow> fstate \<Rightarrow> nat list" where
  "futex_queue_of a st = (case heap_get (f_heap st) a of None \<Rightarrow> [] | Some f \<Rightarrow> fx_queue f)"

fun futex_requeue_loop :: "nat \<Rightarrow> nat \<Rightarrow> nat \<Rightarrow> nat list \<Rightarrow> nat \<Rightarrow> fstate \<Rightarrow> nat \<times> fstate" where
  "futex_requeue_loop mx a b [] requeued st = (requeued, st)"
| "futex_requeue_loop mx a b (i # is) requeued st =
     (if requeued \<ge> mx then (requeued, st)
      else if \<not> futex_wait_is_live i st then futex_requeue_loop mx a b is requeued (queue_remove a i st)
      else futex_requeue_loop mx a b is (requeued + 1)
        (if b = a then st
         else let st = queue_remove a i st;
                  st = futex_upd b (\<lambda>f. f\<lparr>fx_queue := fx_queue f @ [i]\<rparr>) st;
                  st = futex_assert (case heap_get (f_heap st) a of None \<Rightarrow> False | Some f \<Rightarrow> fx_refcount f > 1) st;
                  st = futex_upd a (\<lambda>f. f\<lparr>fx_refcount := fx_refcount f - 1\<rparr>) st;
                  st = futex_upd b (fx_refcount_update Suc) st
              in wait_upd i (w_futex_update (\<lambda>_. b)) st))"

definition futex_requeue_waiters :: "nat \<Rightarrow> nat \<Rightarrow> u32 \<Rightarrow> fstate \<Rightarrow> nat \<times> fstate" where
  "futex_requeue_waiters a b mx st = futex_requeue_loop (unat mx) a b (futex_queue_of a st) 0 st"

definition futex_wakelike ::
  "fenv \<Rightarrow> u32 \<Rightarrow> u64 \<Rightarrow> u32 \<Rightarrow> u32 \<Rightarrow> u64 \<Rightarrow> u32 \<Rightarrow> fstate \<Rightarrow> nat res \<times> fstate" where
  "futex_wakelike env op uaddr wake_max requeue_max requeue_addr wake_mask st =
     (let requeue = (op AND NOT (FUTEX_PRIVATE_FLAG OR FUTEX_CLOCK_REALTIME) = 3);
          wake = (\<lambda>a st. let st = futex_upd a (\<lambda>f. f\<lparr>fx_wake_seq := fx_wake_seq f + 1\<rparr>) st
            in futex_wake_loop (\<lambda>bitset. bitset AND wake_mask \<noteq> 0) (unat wake_max) a (futex_queue_of a st) 0 st)
      in case futex_get_unlocked env (futex_key_of env uaddr op) st of
           (None, st) \<Rightarrow> (Inr 0, st)
         | (Some a, st) \<Rightarrow>
           (if requeue then
              (case futex_get_unlocked env (futex_key_of env requeue_addr op) st of
                 (None, st) \<Rightarrow> (Inl ENOMEM, futex_put_unlocked a st)
               | (Some b, st) \<Rightarrow>
                 (let (woken, st) = wake a st; (requeued, st) = futex_requeue_waiters a b requeue_max st
                  in (Inr (woken + requeued), futex_put_unlocked a (futex_put_unlocked b st))))
            else let (woken, st) = wake a st in (Inr woken, futex_put_unlocked a st)))"

definition futex_wake :: "fenv \<Rightarrow> u64 \<Rightarrow> u32 \<Rightarrow> fstate \<Rightarrow> nat res \<times> fstate" where
  "futex_wake env uaddr wake_max st = futex_wakelike env 1 uaddr wake_max 0 0 (NOT 0) st"

definition futex_op_sign_extend12 :: "u32 \<Rightarrow> u32" where
  "futex_op_sign_extend12 v = (let v = v AND 0xfff in if v AND 0x800 \<noteq> 0 then v OR 0xfffff000 else v)"

text \<open>The value \<^verbatim>\<open>futex_apply_word_op\<close> leaves in the word; its loop ends with the value it read last.\<close>

definition futex_apply_word_op :: "u32 \<Rightarrow> u32 \<Rightarrow> u32 \<Rightarrow> u32" where
  "futex_apply_word_op op oparg oldval =
     (if op = 0 then oparg else if op = 1 then oldval + oparg else if op = 2 then oldval OR oparg
      else if op = 3 then oldval AND NOT oparg else oldval XOR oparg)"

definition futex_op_cmp :: "u32 \<Rightarrow> u32 \<Rightarrow> u32 \<Rightarrow> bool" where
  "futex_op_cmp cmp oldval cmparg =
     (if cmp = 0 then oldval = cmparg else if cmp = 1 then oldval \<noteq> cmparg
      else if cmp = 2 then sint oldval < sint cmparg else if cmp = 3 then sint oldval \<le> sint cmparg
      else if cmp = 4 then sint oldval > sint cmparg else sint oldval \<ge> sint cmparg)"

text \<open>Both futexes of a call that names two words, or \<^verbatim>\<open>ENOMEM\<close>.\<close>

definition futex_get_two :: "fenv \<Rightarrow> futex_key \<Rightarrow> futex_key \<Rightarrow> fstate \<Rightarrow> (nat \<times> nat) option \<times> fstate" where
  "futex_get_two env k1 k2 st = (case futex_get_unlocked env k1 st of
     (None, st) \<Rightarrow> (None, st)
   | (Some a, st) \<Rightarrow> (case futex_get_unlocked env k2 st of
       (None, st) \<Rightarrow> (None, futex_put_unlocked a st) | (Some b, st) \<Rightarrow> (Some (a, b), st)))"

definition futex_wake_all :: "u32 \<Rightarrow> nat \<Rightarrow> fstate \<Rightarrow> nat \<times> fstate" where
  "futex_wake_all mx a st = futex_wake_loop (\<lambda>_. True) (unat mx) a (futex_queue_of a st) 0 st"

definition futex_wake_op ::
  "fenv \<Rightarrow> u64 \<Rightarrow> u32 \<Rightarrow> u32 \<Rightarrow> u32 \<Rightarrow> u64 \<Rightarrow> u32 \<Rightarrow> fstate \<Rightarrow> nat res \<times> fstate" where
  "futex_wake_op env uaddr op_flags wake_max wake_max2 uaddr2 encoded_op st =
     (let raw_op = drop_bit 28 encoded_op AND 0xf; cmp = drop_bit 24 encoded_op AND 0xf;
          oparg = futex_op_sign_extend12 (drop_bit 12 encoded_op); cmparg = futex_op_sign_extend12 encoded_op;
          shift = (raw_op AND 8 \<noteq> 0); op = raw_op AND NOT 8
      in if op > 4 \<or> cmp > 5 then (Inl ENOSYS, st)
         else let oparg = (if shift then push_bit (unat (oparg AND 31)) 1 else oparg)
         in case futex_get_two env (futex_key_of env uaddr op_flags) (futex_key_of env uaddr2 op_flags) st of
              (None, st) \<Rightarrow> (Inl ENOMEM, st)
            | (Some (a, b), st) \<Rightarrow>
              (case user_ptr env True uaddr2 of
                 None \<Rightarrow> (Inl EFAULT, futex_put_unlocked a (futex_put_unlocked b st))
               | Some p \<Rightarrow>
                 (let oldval = host_load (f_store st) p;
                      st = st\<lparr>f_store := host_store p (futex_apply_word_op op oparg oldval) (f_store st)\<rparr>;
                      (woken, st) = futex_wake_all wake_max a st;
                      (woken2, st) = (if futex_op_cmp cmp oldval cmparg then futex_wake_all wake_max2 b st else (0, st))
                  in (Inr (woken + woken2), futex_put_unlocked a (futex_put_unlocked b st)))))"

definition futex_cmp_requeue ::
  "fenv \<Rightarrow> u64 \<Rightarrow> u32 \<Rightarrow> u32 \<Rightarrow> u64 \<Rightarrow> u32 \<Rightarrow> u32 \<Rightarrow> fstate \<Rightarrow> nat res \<times> fstate" where
  "futex_cmp_requeue env uaddr1 op val uaddr2 val2 val3 st =
     (case futex_get_two env (futex_key_of env uaddr1 op) (futex_key_of env uaddr2 op) st of
        (None, st) \<Rightarrow> (Inl ENOMEM, st)
      | (Some (a, b), st) \<Rightarrow>
        (let (r, st) = (case futex_load env uaddr1 st of
               None \<Rightarrow> (Inl EFAULT, st)
             | Some tmp \<Rightarrow> (if tmp \<noteq> val3 then (Inl EAGAIN, st)
                 else let (woken, st) = futex_wake_all val a st; (n, st) = futex_requeue_waiters a b val2 st
                      in (Inr (woken + n), st)))
         in (r, futex_put_unlocked a (futex_put_unlocked b st))))"

text \<open>The host thread priority that the next function raises it restores before it returns.\<close>

definition futex_cmp_requeue_pi ::
  "fenv \<Rightarrow> u64 \<Rightarrow> u32 \<Rightarrow> u32 \<Rightarrow> u64 \<Rightarrow> u32 \<Rightarrow> u32 \<Rightarrow> fstate \<Rightarrow> nat res \<times> fstate" where
  "futex_cmp_requeue_pi env uaddr1 op val uaddr2 val2 val3 st =
     (case futex_get_two env (futex_key_of env uaddr1 op) (futex_key_of env uaddr2 op) st of
        (None, st) \<Rightarrow> (Inl ENOMEM, st)
      | (Some (a, b), st) \<Rightarrow>
        (let (r, st) = (case futex_load env uaddr1 st of
               None \<Rightarrow> (Inl EFAULT, st)
             | Some tmp \<Rightarrow> (if tmp \<noteq> val then (Inl EAGAIN, st)
                 else let (n, st) = futex_requeue_waiters a b val2 st in (Inr n, st)))
         in (r, futex_put_unlocked a (futex_put_unlocked b st))))"

end
