(* ===== verification/Futex_Calls.thy ===== *)
theory Futex_Calls
  imports Futex
begin

text \<open>
  The rest of \<^verbatim>\<open>kernel/futex.c\<close>: the PI locks, the system call, and what the end of a thread does with
  its robust list and its PI locks (\<^verbatim>\<open>kernel/exit.c\<close>).
\<close>

section \<open>PI locks\<close>

text \<open>
  A compare-and-swap of the word; \<open>race\<close> is what another thread has stored there since it was loaded, if any
  did. \<open>None\<close> is success.
\<close>

definition futex_cas :: "fenv \<Rightarrow> u32 option \<Rightarrow> u64 \<Rightarrow> u32 \<Rightarrow> u32 \<Rightarrow> fstate \<Rightarrow> errno option \<times> fstate" where
  "futex_cas env race uaddr expected desired st = (case user_ptr env True uaddr of
     None \<Rightarrow> (Some EFAULT, st)
   | Some p \<Rightarrow>
     (let m = (case race of None \<Rightarrow> f_store st | Some v \<Rightarrow> host_store p v (f_store st))
      in if host_load m p = expected then (None, st\<lparr>f_store := host_store p desired m\<rparr>)
         else (Some EAGAIN, st\<lparr>f_store := m\<rparr>)))"

definition futex_pi_owner_alive :: "fenv \<Rightarrow> u32 \<Rightarrow> bool" where
  "futex_pi_owner_alive env tid = (case fe_pids env tid of None \<Rightarrow> False
     | Some (task, exiting, zombie) \<Rightarrow> \<not> exiting \<and> \<not> zombie)"

fun futex_pi_first_loop :: "nat option \<Rightarrow> nat \<Rightarrow> nat list \<Rightarrow> fstate \<Rightarrow> nat option \<times> fstate" where
  "futex_pi_first_loop self a [] st = (None, st)"
| "futex_pi_first_loop self a (i # is) st =
     (if \<not> futex_wait_is_live i st then futex_pi_first_loop self a is (pi_queue_remove a i st)
      else if Some i \<noteq> self then (Some i, st) else futex_pi_first_loop self a is st)"

definition futex_pi_first_waiter :: "nat \<Rightarrow> nat option \<Rightarrow> fstate \<Rightarrow> nat option \<times> fstate" where
  "futex_pi_first_waiter a self st = (case heap_get (f_heap st) a of None \<Rightarrow> (None, st)
     | Some f \<Rightarrow> futex_pi_first_loop self a (fx_pi_queue f) st)"

definition futex_lock_pi_finish :: "nat res \<Rightarrow> nat \<Rightarrow> fstate \<Rightarrow> outcome \<times> fstate" where
  "futex_lock_pi_finish r i st = (case heap_get (f_waits st) i of None \<Rightarrow> (Return (Inl EFAULT), st)
   | Some w \<Rightarrow>
     (let st = (if w_pi_queued w
                then (if w_pi_owned w then st else pi_queue_remove (w_futex w) i st)\<lparr>f_pi_waiting := f_pi_waiting st - 1\<rparr>
                else st);
          st = st\<lparr>f_waits := heap_free (f_waits st) i\<rparr>
      in (Return r, futex_put_unlocked (w_futex w) st)))"

text \<open>
  One pass of the loop of \<^verbatim>\<open>futex_lock_pi\<close>, up to the point where it drops \<^verbatim>\<open>futex_lock\<close> to look the owner up;
  \<open>None\<close> is a \<^verbatim>\<open>continue\<close>, after a compare-and-swap that found another value. First the parts: the end of the
  call, a word without owner, a word with another owner.
\<close>

definition futex_lock_pi_ret :: "nat res \<Rightarrow> nat \<Rightarrow> fstate \<Rightarrow> outcome option \<times> fstate" where
  "futex_lock_pi_ret r i st = (let (out, st) = futex_lock_pi_finish r i st in (Some out, st))"

definition futex_lock_pi_free :: "fenv \<Rightarrow> u32 option \<Rightarrow> nat \<Rightarrow> futex_wait \<Rightarrow> u32 \<Rightarrow> fstate \<Rightarrow> outcome option \<times> fstate" where
  "futex_lock_pi_free env race i w val st =
     (let (other, st) = (if w_pi_queued w then (Some i, st) else futex_pi_first_waiter (w_futex w) (Some i) st);
          want = w_tid w OR (val AND FUTEX_OWNER_DIED) OR (if other \<noteq> None then FUTEX_WAITERS else 0)
      in case futex_cas env race (w_uaddr w) val want st of
           (None, st) \<Rightarrow> futex_lock_pi_ret (Inr 0) i st
         | (Some e, st) \<Rightarrow> if e = EAGAIN then (None, st) else futex_lock_pi_ret (Inl e) i st)"

definition futex_lock_pi_contended :: "nat \<Rightarrow> futex_wait \<Rightarrow> u32 \<Rightarrow> fstate \<Rightarrow> outcome option \<times> fstate" where
  "futex_lock_pi_contended i w val st =
     (if w_trylock w then futex_lock_pi_ret (Inl EAGAIN) i st
      else (Some (Looking i (val AND FUTEX_TID_MASK)),
            wait_upd i (w_pc_update (\<lambda>_. Pi_look (val AND FUTEX_TID_MASK) val)) st))"

definition futex_lock_pi_pass :: "fenv \<Rightarrow> u32 option \<Rightarrow> nat \<Rightarrow> fstate \<Rightarrow> outcome option \<times> fstate" where
  "futex_lock_pi_pass env race i st = (case heap_get (f_waits st) i of None \<Rightarrow> (Some (Return (Inl EFAULT)), st)
   | Some w \<Rightarrow>
     (if w_pi_owned w then futex_lock_pi_ret (Inr 0) i st
      else case futex_load env (w_uaddr w) st of None \<Rightarrow> futex_lock_pi_ret (Inl EFAULT) i st
      | Some val \<Rightarrow>
        (let owner = val AND FUTEX_TID_MASK
         in if owner = 0 then futex_lock_pi_free env race i w val st
            else if owner = w_tid w then futex_lock_pi_ret (Inl EDEADLK) i st
            else if val AND FUTEX_WAITERS = 0 then
              (case futex_cas env race (w_uaddr w) val (val OR FUTEX_WAITERS) st of
                 (None, st) \<Rightarrow> futex_lock_pi_contended i w (val OR FUTEX_WAITERS) st
               | (Some e, st) \<Rightarrow> if e = EAGAIN then (None, st) else futex_lock_pi_ret (Inl e) i st)
            else futex_lock_pi_contended i w val st)))"

fun futex_lock_pi_loop :: "fenv \<Rightarrow> u32 list \<Rightarrow> nat \<Rightarrow> fstate \<Rightarrow> outcome \<times> fstate" where
  "futex_lock_pi_loop env [] i st = (case futex_lock_pi_pass env None i st of
     (Some out, st) \<Rightarrow> (out, st) | (None, st) \<Rightarrow> (Return (Inl EAGAIN), st))"
| "futex_lock_pi_loop env (r # rs) i st = (case futex_lock_pi_pass env (Some r) i st of
     (Some out, st) \<Rightarrow> (out, st) | (None, st) \<Rightarrow> futex_lock_pi_loop env rs i st)"

definition futex_lock_pi :: "fenv \<Rightarrow> u64 \<Rightarrow> u32 \<Rightarrow> timespec option \<Rightarrow> bool \<Rightarrow> fstate \<Rightarrow> outcome \<times> fstate" where
  "futex_lock_pi env uaddr op timeout trylock st =
     (case futex_get_unlocked env (futex_key_of env uaddr op) st of
        (None, st) \<Rightarrow> (Return (Inl ENOMEM), st)
      | (Some a, st) \<Rightarrow>
        (let deadline = (case timeout of None \<Rightarrow> ts_zero | Some ts \<Rightarrow> timespec_add (fe_now env) ts);
             (ws, i) = heap_alloc (f_waits st) \<lparr>w_magic = FUTEX_WAIT_MAGIC, w_notified = False, w_futex = a,
               w_task = fe_task env, w_bitset = NOT 0, w_interrupted = False, w_tid = fe_tid env, w_pi_owned = False,
               w_uaddr = uaddr, w_timeout = timeout, w_deadline = deadline, w_pi = True, w_trylock = trylock,
               w_pi_queued = False, w_pc = Pi_sleep\<rparr>
         in futex_lock_pi_loop env (fe_races env) i (st\<lparr>f_waits := ws\<rparr>)))"

definition pi_slice :: "timespec option \<Rightarrow> timespec \<Rightarrow> timespec \<times> bool" where
  "pi_slice timeout left = (if timeout \<noteq> None \<and> tv_sec left = 0 \<and> tv_nsec left \<le> tv_nsec wait_slice * 2
     then (left, False) else (wait_slice, True))"

text \<open>After the owner \<open>owner\<close> of the word \<open>val\<close> has been looked up and \<^verbatim>\<open>futex_lock\<close> is held again.\<close>

definition futex_lock_pi_looked :: "fenv \<Rightarrow> u32 \<Rightarrow> u32 \<Rightarrow> nat \<Rightarrow> fstate \<Rightarrow> outcome \<times> fstate" where
  "futex_lock_pi_looked env owner val i st = (case heap_get (f_waits st) i of None \<Rightarrow> (Return (Inl EFAULT), st)
   | Some w \<Rightarrow>
     (if w_pi_owned w then futex_lock_pi_loop env (fe_races env) i st
      else if \<not> futex_pi_owner_alive env owner then
        (case futex_load env (w_uaddr w) st of None \<Rightarrow> futex_lock_pi_finish (Inl EFAULT) i st
         | Some now \<Rightarrow>
           (if now \<noteq> val then futex_lock_pi_loop env (fe_races env) i st
            else if \<not> w_pi_queued w \<and>
              (case heap_get (f_heap st) (w_futex w) of None \<Rightarrow> True | Some f \<Rightarrow> fx_pi_owner f \<noteq> owner)
            then futex_lock_pi_finish (Inl ESRCH) i st
            else case futex_cas env (case fe_races env of [] \<Rightarrow> None | r # _ \<Rightarrow> Some r) (w_uaddr w) val
                        (w_tid w OR FUTEX_OWNER_DIED OR FUTEX_WAITERS) st of
                (None, st) \<Rightarrow> futex_lock_pi_finish (Inr 0) i st
              | (Some e, st) \<Rightarrow> if e = EAGAIN then futex_lock_pi_loop env (tl (fe_races env)) i st
                               else futex_lock_pi_finish (Inl e) i st))
      else
        let a = w_futex w; st = futex_upd a (fx_pi_owner_update (\<lambda>_. owner)) st;
            st = (if w_pi_queued w then st
                  else (wait_upd i (w_pi_queued_update (\<lambda>_. True))
                         (futex_upd a (\<lambda>f. f\<lparr>fx_pi_queue := fx_pi_queue f @ [i]\<rparr>) st))
                       \<lparr>f_pi_waiting := f_pi_waiting st + 1\<rparr>);
            left = timespec_subtract (w_deadline w) (fe_now env); (slice, capped) = pi_slice (w_timeout w) left
        in if w_timeout w \<noteq> None \<and> \<not> timespec_positive left then futex_lock_pi_finish (Inl ETIMEDOUT) i st
           else (Blocked i slice capped, wait_upd i (\<lambda>w. w\<lparr>w_notified := False, w_pc := Pi_sleep\<rparr>) st)))"

definition futex_lock_pi_woken :: "fenv \<Rightarrow> nat \<Rightarrow> fstate \<Rightarrow> outcome \<times> fstate" where
  "futex_lock_pi_woken env i st = (case heap_get (f_waits st) i of None \<Rightarrow> (Return (Inl EFAULT), st)
   | Some w \<Rightarrow>
     (if \<not> w_pi_owned w \<and> (w_interrupted w \<or> futex_wait_has_pending_signal env)
      then futex_lock_pi_finish (Inl ERESTART_NOINTR) i st
      else futex_lock_pi_loop env (fe_races env) i st))"

text \<open>One pass of the loop of \<^verbatim>\<open>futex_unlock_pi\<close>, and the loop.\<close>

definition futex_unlock_pi_pass :: "fenv \<Rightarrow> u32 option \<Rightarrow> u64 \<Rightarrow> nat \<Rightarrow> fstate \<Rightarrow> nat res option \<times> fstate" where
  "futex_unlock_pi_pass env race uaddr a st = (case futex_load env uaddr st of None \<Rightarrow> (Some (Inl EFAULT), st)
   | Some val \<Rightarrow>
     (if val AND FUTEX_TID_MASK \<noteq> fe_tid env then (Some (Inl EPERM), st)
      else let (nxt, st) = futex_pi_first_waiter a None st;
               nw = (case nxt of None \<Rightarrow> None | Some i \<Rightarrow> heap_get (f_waits st) i)
           in case futex_cas env race uaddr val (case nw of None \<Rightarrow> 0 | Some w \<Rightarrow> w_tid w OR FUTEX_WAITERS) st of
                (None, st) \<Rightarrow> (Some (Inr 0), (case (nxt, nw) of
                   (Some i, Some w) \<Rightarrow> wait_notify i (futex_upd a (fx_pi_owner_update (\<lambda>_. w_tid w))
                     (wait_upd i (w_pi_owned_update (\<lambda>_. True)) (pi_queue_remove a i st)))
                 | _ \<Rightarrow> st))
              | (Some e, st) \<Rightarrow> if e = EAGAIN then (None, st) else (Some (Inl e), st)))"

fun futex_unlock_pi_loop :: "fenv \<Rightarrow> u32 list \<Rightarrow> u64 \<Rightarrow> nat \<Rightarrow> fstate \<Rightarrow> nat res \<times> fstate" where
  "futex_unlock_pi_loop env [] uaddr a st = (case futex_unlock_pi_pass env None uaddr a st of
     (Some r, st) \<Rightarrow> (r, st) | (None, st) \<Rightarrow> (Inl EAGAIN, st))"
| "futex_unlock_pi_loop env (r # rs) uaddr a st = (case futex_unlock_pi_pass env (Some r) uaddr a st of
     (Some r, st) \<Rightarrow> (r, st) | (None, st) \<Rightarrow> futex_unlock_pi_loop env rs uaddr a st)"

definition futex_unlock_pi :: "fenv \<Rightarrow> u64 \<Rightarrow> u32 \<Rightarrow> fstate \<Rightarrow> nat res \<times> fstate" where
  "futex_unlock_pi env uaddr op st =
     (case futex_get_unlocked env (futex_key_of env uaddr op) st of
        (None, st) \<Rightarrow> (Inl ENOMEM, st)
      | (Some a, st) \<Rightarrow> (let (r, st) = futex_unlock_pi_loop env (fe_races env) uaddr a st in (r, futex_put_unlocked a st)))"

fun futex_exit_pi_loop :: "u32 \<Rightarrow> nat list \<Rightarrow> fstate \<Rightarrow> fstate" where
  "futex_exit_pi_loop tid [] st = st"
| "futex_exit_pi_loop tid (a # as) st = futex_exit_pi_loop tid as
     (case heap_get (f_heap st) a of None \<Rightarrow> st
      | Some f \<Rightarrow> (if fx_pi_owner f \<noteq> tid then st
          else case futex_pi_first_waiter a None st of (None, st) \<Rightarrow> st | (Some i, st) \<Rightarrow> wait_notify i st))"

definition futex_exit_pi :: "u32 \<Rightarrow> fstate \<Rightarrow> fstate" where
  "futex_exit_pi tid st = (if f_pi_waiting st = 0 then st
     else futex_exit_pi_loop tid (concat (map (f_hash st) [0 ..< 4096])) st)"

section \<open>The system call\<close>

definition futex_read_timeout :: "fenv \<Rightarrow> u64 \<Rightarrow> bool \<Rightarrow> fstate \<Rightarrow> timespec res" where
  "futex_read_timeout env addr time64 st =
     (case user_read env (f_store st) addr (if time64 then 16 else 8) of None \<Rightarrow> Inl EFAULT
      | Some bs \<Rightarrow>
        (let ts = (if \<not> time64
               then \<lparr>tv_sec = sint (le_at 0 4 bs :: u32), tv_nsec = sint (le_at 4 4 bs :: u32)\<rparr>
               else \<lparr>tv_sec = sint (le_at 0 8 bs :: u64),
                     tv_nsec = (if guest_abi_is_64bit (fe_abi env) then sint (le_at 8 8 bs :: u64)
                                else uint (ucast (le_at 8 8 bs :: u64) :: u32))\<rparr>)
         in if tv_sec ts < 0 \<or> tv_nsec ts < 0 \<or> tv_nsec ts \<ge> 1000000000 then Inl EINVAL else Inr ts))"

definition futex_deadline_left :: "fenv \<Rightarrow> bool \<Rightarrow> timespec \<Rightarrow> timespec" where
  "futex_deadline_left env realtime ts =
     (let left = timespec_subtract ts (fe_guest_now env realtime) in if timespec_positive left then left else ts_zero)"

text \<open>The timeout of a call, relative to now; \<open>None\<close> if it has none.\<close>

definition futex_timeout :: "fenv \<Rightarrow> u32 \<Rightarrow> u64 \<Rightarrow> bool \<Rightarrow> fstate \<Rightarrow> (timespec option) res" where
  "futex_timeout env op addr time64 st =
     (let cmd = op AND NOT (FUTEX_PRIVATE_FLAG OR FUTEX_CLOCK_REALTIME); flag = (op AND FUTEX_CLOCK_REALTIME \<noteq> 0)
      in if addr = 0 \<or> cmd \<notin> {0, 6, 9, 13} then Inr None
         else case futex_read_timeout env addr time64 st of
           Inl e \<Rightarrow> Inl e
         | Inr ts \<Rightarrow> Inr (Some (if cmd = 0 then ts
             else if cmd = 9 then futex_deadline_left env flag ts
             else futex_deadline_left env (cmd = 6 \<or> flag) ts)))"

fun returning :: "nat res \<times> fstate \<Rightarrow> outcome \<times> fstate" where
  "returning (r, st) = (Return r, st)"

definition sys_futex_common ::
  "fenv \<Rightarrow> u64 \<Rightarrow> u32 \<Rightarrow> u32 \<Rightarrow> u64 \<Rightarrow> u64 \<Rightarrow> u32 \<Rightarrow> bool \<Rightarrow> fstate \<Rightarrow> outcome \<times> fstate" where
  "sys_futex_common env uaddr op val timeout_or_val2 uaddr2 val3 time64 st =
     (let cmd = op AND NOT (FUTEX_PRIVATE_FLAG OR FUTEX_CLOCK_REALTIME); val2 = ucast timeout_or_val2
      in if uaddr mod 4 \<noteq> 0 then (Return (Inl EINVAL), st)
         else if cmd \<in> {3, 4, 5} \<and> uaddr2 mod 4 \<noteq> 0 then (Return (Inl EINVAL), st)
         else if cmd \<in> {6, 7, 8} \<and> op AND FUTEX_CLOCK_REALTIME \<noteq> 0 then (Return (Inl ENOSYS), st)
         else case futex_timeout env op timeout_or_val2 time64 st of
           Inl e \<Rightarrow> (Return (Inl e), st)
         | Inr timeout \<Rightarrow>
           (if cmd = 0 then futex_wait_ret env (futex_wait_masked env uaddr op val timeout (NOT 0) st)
            else if cmd = 1 then returning (futex_wakelike env op uaddr val 0 0 (NOT 0) st)
            else if cmd = 3 then returning (futex_wakelike env op uaddr val val2 uaddr2 (NOT 0) st)
            else if cmd = 4 then returning (futex_cmp_requeue env uaddr op val uaddr2 val2 val3 st)
            else if cmd = 5 then returning (futex_wake_op env uaddr op val val2 uaddr2 val3 st)
            else if cmd = 6 \<or> cmd = 13 then futex_lock_pi env uaddr op timeout False st
            else if cmd = 7 then returning (futex_unlock_pi env uaddr op st)
            else if cmd = 8 then futex_lock_pi env uaddr op None True st
            else if cmd = 9 then (if val3 = 0 then (Return (Inl EINVAL), st)
              else futex_wait_ret env (futex_wait_masked env uaddr op val timeout val3 st))
            else if cmd = 10 then (if val3 = 0 then (Return (Inl EINVAL), st)
              else returning (futex_wakelike env op uaddr val 0 0 val3 st))
            else if cmd = 12 then returning (futex_cmp_requeue_pi env uaddr op val uaddr2 val2 val3 st)
            else (Return (Inl ENOSYS), st)))"

text \<open>How a waiting call goes on; \<open>err\<close> is what \<^verbatim>\<open>wait_for\<close> returned.\<close>

definition futex_resume :: "fenv \<Rightarrow> unit res \<Rightarrow> nat \<Rightarrow> fstate \<Rightarrow> outcome \<times> fstate" where
  "futex_resume env err i st = (case heap_get (f_waits st) i of None \<Rightarrow> (Return (Inl EFAULT), st)
   | Some w \<Rightarrow> (case w_pc w of
       Wait_spin \<Rightarrow> futex_wait_ret env (futex_wait_loop env i st)
     | Wait_sleep \<Rightarrow> futex_wait_ret env (futex_wait_woken env err i st)
     | Pi_look owner val \<Rightarrow> futex_lock_pi_looked env owner val i st
     | Pi_sleep \<Rightarrow> futex_lock_pi_woken env i st))"

text \<open>A signal reaches a task inside \<^verbatim>\<open>wait_for\<close> (\<^verbatim>\<open>wake_waiting_task\<close>).\<close>

definition futex_interrupt :: "nat \<Rightarrow> fstate \<Rightarrow> fstate" where
  "futex_interrupt i = wait_upd i (\<lambda>w. w\<lparr>w_interrupted := True, w_notified := True\<rparr>)"

section \<open>Robust lists\<close>

definition robust_futex_addr :: "u64 \<Rightarrow> u64 \<Rightarrow> bool \<Rightarrow> u64" where
  "robust_futex_addr entry offset is64 = (if is64 then entry + offset else (entry + offset) AND 0xffffffff)"

definition robust_read :: "fenv \<Rightarrow> u64 \<Rightarrow> bool \<Rightarrow> fstate \<Rightarrow> u64 option" where
  "robust_read env addr is64 st = map_option le_word (user_read env (f_store st) addr (if is64 then 8 else 4))"

definition robust_handle_death :: "fenv \<Rightarrow> u64 \<Rightarrow> u32 \<Rightarrow> bool \<Rightarrow> fstate \<Rightarrow> fstate" where
  "robust_handle_death env futex_addr tid pi st = (case user_read env (f_store st) futex_addr 4 of None \<Rightarrow> st
   | Some bs \<Rightarrow>
     (let uval = le_word bs :: u32
      in if uval AND FUTEX_TID_MASK \<noteq> tid then st
         else let nval = (uval AND FUTEX_WAITERS) OR FUTEX_OWNER_DIED;
                  (ok, m) = user_write env futex_addr (le_bytes 4 nval) (f_store st);
                  st = st\<lparr>f_store := m\<rparr>
              in if ok \<and> \<not> pi \<and> nval AND FUTEX_WAITERS \<noteq> 0 then snd (futex_wake env futex_addr 1 st) else st))"

text \<open>The walk over the list: \<open>None\<close> if an entry could not be read, so that the call returns at once.\<close>

fun robust_walk :: "fenv \<Rightarrow> bool \<Rightarrow> u64 \<Rightarrow> u64 \<Rightarrow> u64 \<Rightarrow> nat \<Rightarrow> u64 \<Rightarrow> bool \<Rightarrow> fstate \<Rightarrow> bool \<times> fstate" where
  "robust_walk env is64 offset head pending 0 entry pi st = (True, st)"
| "robust_walk env is64 offset head pending (Suc limit) entry pi st =
     (if entry = head then (True, st)
      else let nxt = robust_read env entry is64 st;
               st = (if entry \<noteq> pending
                     then robust_handle_death env (robust_futex_addr entry offset is64) (fe_tid env) pi st else st)
           in case nxt of None \<Rightarrow> (False, st)
              | Some n \<Rightarrow> robust_walk env is64 offset head pending limit (n AND NOT 1) (n AND 1 \<noteq> 0) st)"

definition futex_exit_robust_list :: "fenv \<Rightarrow> fstate \<Rightarrow> fstate" where
  "futex_exit_robust_list env st =
     (let head = ft_robust (f_tasks st ! fe_task env); is64 = guest_abi_is_64bit (fe_abi env);
          word = (if is64 then 8 else 4)
      in if head = 0 then st
         else case (robust_read env head is64 st, robust_read env (head + word) is64 st,
                    robust_read env (head + 2 * word) is64 st) of
           (Some entry, Some offset_raw, Some pending) \<Rightarrow>
             (let offset = (if is64 then offset_raw else scast (ucast offset_raw :: u32));
                  (ok, st) = robust_walk env is64 offset head (pending AND NOT 1) 2048 (entry AND NOT 1) (entry AND 1 \<noteq> 0) st
              in if ok \<and> pending AND NOT 1 \<noteq> 0
                 then robust_handle_death env (robust_futex_addr (pending AND NOT 1) offset is64) (fe_tid env)
                        (pending AND 1 \<noteq> 0) st
                 else st)
         | _ \<Rightarrow> st)"

definition robust_list_head_size :: "guest_abi \<Rightarrow> u32" where
  "robust_list_head_size abi = (if abi = GUEST_ABI_AMD64 then 24 else 12)"

definition sys_set_robust_list_common :: "fenv \<Rightarrow> u64 \<Rightarrow> u32 \<Rightarrow> guest_abi \<Rightarrow> fstate \<Rightarrow> nat res \<times> fstate" where
  "sys_set_robust_list_common env robust_list len abi st =
     (if len \<noteq> robust_list_head_size abi then (Inl EINVAL, st)
      else (Inr 0, task_upd (fe_task env) (ft_robust_update (\<lambda>_. robust_list)) st))"

definition sys_get_robust_list_common ::
  "fenv \<Rightarrow> u32 \<Rightarrow> u64 \<Rightarrow> u64 \<Rightarrow> guest_abi \<Rightarrow> fstate \<Rightarrow> nat res \<times> fstate" where
  "sys_get_robust_list_common env pid robust_list_ptr len_ptr abi st =
     (let is_current = (pid = 0 \<or> (case fe_pids env pid of None \<Rightarrow> False | Some (t, _) \<Rightarrow> t = fe_task env))
      in if \<not> is_current then (Inl EPERM, st)
         else let (ok, m) = user_write env robust_list_ptr (le_bytes 8 (ft_robust (f_tasks st ! fe_task env))) (f_store st)
         in if \<not> ok then (Inl EFAULT, st\<lparr>f_store := m\<rparr>)
            else let (ok, m) = user_write env len_ptr
                   (le_bytes (if abi = GUEST_ABI_AMD64 then 8 else 4) (ucast (robust_list_head_size abi) :: u64)) m
            in (if ok then Inr 0 else Inl EFAULT, st\<lparr>f_store := m\<rparr>))"

text \<open>What the end of a thread does with futexes (\<^verbatim>\<open>do_exit\<close>).\<close>

definition futex_exit :: "fenv \<Rightarrow> u64 \<Rightarrow> fstate \<Rightarrow> fstate" where
  "futex_exit env clear_tid st =
     (let st = futex_exit_pi (fe_tid env) (futex_exit_robust_list env st);
          st = (if clear_tid = 0 then st
                else let (ok, m) = user_write env clear_tid (le_bytes 4 (0 :: u32)) (f_store st); st = st\<lparr>f_store := m\<rparr>
                     in if ok then snd (futex_wake env clear_tid 1 st) else st)
      in futex_release_restart_park (fe_task env) st)"

text \<open>A signal handler is about to run (\<^verbatim>\<open>receive_signal\<close>), and a new task (\<^verbatim>\<open>task_create_\<close>).\<close>

definition futex_handler :: "nat \<Rightarrow> fstate \<Rightarrow> fstate" where
  "futex_handler t = task_upd t (ft_timed_update (\<lambda>_. False))"

definition futex_task_create :: "ftask \<Rightarrow> fstate \<Rightarrow> fstate" where
  "futex_task_create parent st = st\<lparr>f_tasks := f_tasks st @
     [parent\<lparr>ft_park := None, ft_park_uaddr := 0, ft_wake_seq := 0, ft_timed := False, ft_robust := 0\<rparr>]\<rparr>"

definition init_futex_hash :: "(nat \<Rightarrow> u8) \<Rightarrow> fstate" where
  "init_futex_hash m = \<lparr>f_heap = [], f_hash = (\<lambda>_. []), f_waits = [], f_tasks = [], f_pi_waiting = 0, f_store = m, f_abort = False\<rparr>"

end
