(* ===== verification/Futex_Inv.thy ===== *)
theory Futex_Inv
  imports Futex_Calls
begin

text \<open>
  The invariant of futexes: a futex's count is the number of frames waiting for it, parked tasks and
  references held meanwhile; it is in the table under its key, once; its queues hold frames that still
  exist. Every operation keeps it.
\<close>

section \<open>What the primitive updates change\<close>

lemma futex_upd_sel [simp]:
  "heap_get (f_heap (futex_upd a g st)) b = (if b = a then map_option g (heap_get (f_heap st) a) else heap_get (f_heap st) b)"
  "f_hash (futex_upd a g st) = f_hash st" "f_waits (futex_upd a g st) = f_waits st" "f_tasks (futex_upd a g st) = f_tasks st"
  "f_pi_waiting (futex_upd a g st) = f_pi_waiting st" "f_store (futex_upd a g st) = f_store st"
  "f_abort (futex_upd a g st) = f_abort st"
  by (auto simp: futex_upd_def split: option.split)

lemma wait_upd_sel [simp]:
  "heap_get (f_waits (wait_upd i g st)) j = (if j = i then map_option g (heap_get (f_waits st) i) else heap_get (f_waits st) j)"
  "f_hash (wait_upd i g st) = f_hash st" "f_heap (wait_upd i g st) = f_heap st" "f_tasks (wait_upd i g st) = f_tasks st"
  "f_pi_waiting (wait_upd i g st) = f_pi_waiting st" "f_store (wait_upd i g st) = f_store st"
  "f_abort (wait_upd i g st) = f_abort st"
  by (auto simp: wait_upd_def split: option.split)

lemma task_upd_sel [simp]:
  "f_hash (task_upd i g st) = f_hash st" "f_heap (task_upd i g st) = f_heap st" "f_waits (task_upd i g st) = f_waits st"
  "f_pi_waiting (task_upd i g st) = f_pi_waiting st" "f_store (task_upd i g st) = f_store st"
  "f_abort (task_upd i g st) = f_abort st" "length (f_tasks (task_upd i g st)) = length (f_tasks st)"
  by (auto simp: task_upd_def)

lemma futex_put_sel [simp]:
  "heap_get (f_heap (futex_put_unlocked a st)) b = (if b = a then (case heap_get (f_heap st) a of None \<Rightarrow> None
     | Some f \<Rightarrow> if fx_refcount f = 1 then None else Some (f\<lparr>fx_refcount := fx_refcount f - 1\<rparr>)) else heap_get (f_heap st) b)"
  "f_waits (futex_put_unlocked a st) = f_waits st" "f_tasks (futex_put_unlocked a st) = f_tasks st"
  "f_pi_waiting (futex_put_unlocked a st) = f_pi_waiting st" "f_store (futex_put_unlocked a st) = f_store st"
  by (auto simp: futex_put_unlocked_def futex_assert_def split: option.split)

lemma queue_remove_sel [simp]:
  "heap_get (f_heap (queue_remove a i st)) b =
     (if b = a then map_option (fx_queue_update (removeAll i)) (heap_get (f_heap st) a) else heap_get (f_heap st) b)"
  "f_hash (queue_remove a i st) = f_hash st" "f_waits (queue_remove a i st) = f_waits st"
  "f_tasks (queue_remove a i st) = f_tasks st" "f_pi_waiting (queue_remove a i st) = f_pi_waiting st"
  "f_store (queue_remove a i st) = f_store st" "f_abort (queue_remove a i st) = f_abort st"
  by (simp_all add: queue_remove_def)

lemma futex_key_equal_eq [simp]: "futex_key_equal a b \<longleftrightarrow> a = b"
  by (cases a, cases b) (auto simp: futex_key_equal_def)

section \<open>Counting frames\<close>

definition wcount :: "(futex_wait \<Rightarrow> bool) \<Rightarrow> futex_wait heap \<Rightarrow> nat" where
  "wcount P ws = count_where (\<lambda>x. case x of None \<Rightarrow> False | Some w \<Rightarrow> P w) ws"

lemma wcount_put:
  assumes "heap_get ws i = Some w"
  shows "wcount P (heap_put ws i w') + (if P w then 1 else 0) = wcount P ws + (if P w' then 1 else 0)"
  using count_where_update [of i ws "\<lambda>x. case x of None \<Rightarrow> False | Some w \<Rightarrow> P w" "Some w'"] assms
  by (simp add: wcount_def heap_put_def heap_get_def split: if_splits)

lemma wcount_free:
  assumes "heap_get ws i = Some w"
  shows "wcount P (heap_free ws i) + (if P w then 1 else 0) = wcount P ws"
  using count_where_update [of i ws "\<lambda>x. case x of None \<Rightarrow> False | Some w \<Rightarrow> P w" None] assms
  by (simp add: wcount_def heap_free_def heap_get_def split: if_splits)

lemma wcount_alloc: "wcount P (fst (heap_alloc ws w)) = wcount P ws + (if P w then 1 else 0)"
  by (simp add: wcount_def heap_alloc_def)

lemma wcount_pos: "heap_get ws i = Some w \<Longrightarrow> P w \<Longrightarrow> 0 < wcount P ws"
  using count_where_pos [of i ws "\<lambda>x. case x of None \<Rightarrow> False | Some w \<Rightarrow> P w"]
  by (simp add: wcount_def heap_get_def split: if_splits)

lemma wcount_upd:
  "(\<And>w. P (g w) = P w) \<Longrightarrow> wcount P (f_waits (wait_upd i g st)) = wcount P (f_waits st)"
  using wcount_put [of "f_waits st" i _ P] by (fastforce simp: wait_upd_def split: option.split if_splits)

section \<open>The invariant\<close>

definition futex_refs :: "nat list \<Rightarrow> fstate \<Rightarrow> nat \<Rightarrow> nat" where
  "futex_refs X st a = wcount (\<lambda>w. w_futex w = a) (f_waits st)
     + count_where (\<lambda>t. ft_park t = Some a) (f_tasks st) + count_where (\<lambda>b. b = a) X"

definition table_ok :: "fstate \<Rightarrow> bool" where
  "table_ok st \<longleftrightarrow> (\<forall>a b. a \<in> set (f_hash st b) \<longleftrightarrow> (\<exists>f. heap_get (f_heap st) a = Some f \<and> futex_key_hash (fx_key f) = b)) \<and>
     (\<forall>a b f g. heap_get (f_heap st) a = Some f \<longrightarrow> heap_get (f_heap st) b = Some g \<longrightarrow> fx_key f = fx_key g \<longrightarrow> a = b)"

definition queue_ok :: "fstate \<Rightarrow> nat \<Rightarrow> futex \<Rightarrow> bool" where
  "queue_ok st a f \<longleftrightarrow> distinct (fx_queue f) \<and> distinct (fx_pi_queue f) \<and>
     (\<forall>i \<in> set (fx_queue f). \<exists>w. heap_get (f_waits st) i = Some w \<and> w_futex w = a \<and> \<not> w_pi w) \<and>
     (\<forall>i \<in> set (fx_pi_queue f). \<exists>w. heap_get (f_waits st) i = Some w \<and> w_futex w = a \<and> w_pi_queued w \<and> \<not> w_pi_owned w)"

definition frame_ok :: "fstate \<Rightarrow> nat \<Rightarrow> futex_wait \<Rightarrow> bool" where
  "frame_ok st i w \<longleftrightarrow> w_magic w = FUTEX_WAIT_MAGIC \<and> w_task w < length (f_tasks st) \<and>
     (w_pi_owned w \<longrightarrow> w_pi_queued w) \<and> (w_pi_queued w \<longrightarrow> w_pi w) \<and>
     (w_pi w \<longleftrightarrow> w_pc w \<noteq> Wait_spin \<and> w_pc w \<noteq> Wait_sleep) \<and>
     (\<not> w_pi w \<longrightarrow> ft_park (f_tasks st ! w_task w) = None) \<and>
     (w_pi_queued w \<and> \<not> w_pi_owned w \<longrightarrow> (\<exists>f. heap_get (f_heap st) (w_futex w) = Some f \<and> i \<in> set (fx_pi_queue f)))"

definition one_frame :: "futex_wait heap \<Rightarrow> bool" where
  "one_frame ws \<longleftrightarrow> (\<forall>i j w v. heap_get ws i = Some w \<longrightarrow> heap_get ws j = Some v \<longrightarrow> w_task w = w_task v \<longrightarrow> i = j)"

lemma one_frame_sub:
  assumes "one_frame ws" "\<And>i w. heap_get ws' i = Some w \<Longrightarrow> \<exists>v. heap_get ws i = Some v \<and> w_task v = w_task w"
  shows "one_frame ws'"
  unfolding one_frame_def
proof (intro allI impI)
  fix i j w v
  assume "heap_get ws' i = Some w" "heap_get ws' j = Some v" "w_task w = w_task v"
  then obtain w' v' where "heap_get ws i = Some w'" "heap_get ws j = Some v'" "w_task w' = w_task v'"
    using assms(2) [of i w] assms(2) [of j v] by auto
  then show "i = j" using assms(1) by (auto simp: one_frame_def)
qed

definition futex_inv :: "nat list \<Rightarrow> fstate \<Rightarrow> bool" where
  "futex_inv X st \<longleftrightarrow> \<not> f_abort st \<and> counted fx_refcount (f_heap st) (futex_refs X st) \<and> table_ok st \<and>
     (\<forall>a f. heap_get (f_heap st) a = Some f \<longrightarrow> queue_ok st a f) \<and>
     (\<forall>i w. heap_get (f_waits st) i = Some w \<longrightarrow> frame_ok st i w) \<and>
     one_frame (f_waits st) \<and> f_pi_waiting st = wcount w_pi_queued (f_waits st)"

lemma futex_invD:
  assumes "futex_inv X st"
  shows "\<not> f_abort st" "counted fx_refcount (f_heap st) (futex_refs X st)" "table_ok st"
    "heap_get (f_heap st) a = Some f \<Longrightarrow> queue_ok st a f" "heap_get (f_waits st) i = Some w \<Longrightarrow> frame_ok st i w"
    "f_pi_waiting st = wcount w_pi_queued (f_waits st)"
    "one_frame (f_waits st)"
  using assms unfolding futex_inv_def by blast+

lemma table_ok_cong:
  assumes "table_ok st" "f_hash st' = f_hash st" "\<And>a. map_option fx_key (heap_get (f_heap st') a) = map_option fx_key (heap_get (f_heap st) a)"
  shows "table_ok st'"
proof -
  have k: "(\<exists>f. heap_get (f_heap st') a = Some f \<and> P (fx_key f)) \<longleftrightarrow> (\<exists>f. heap_get (f_heap st) a = Some f \<and> P (fx_key f))" for a P
    using assms(3) [of a] by (cases "heap_get (f_heap st') a"; cases "heap_get (f_heap st) a") auto
  have "a = b" if "heap_get (f_heap st') a = Some f" "heap_get (f_heap st') b = Some g" "fx_key f = fx_key g" for a b f g
    using that assms(1) assms(3) [of a] assms(3) [of b]
    by (cases "heap_get (f_heap st) a"; cases "heap_get (f_heap st) b") (auto simp: table_ok_def)
  then show ?thesis
    using assms(1,2) k [where P = "\<lambda>k. futex_key_hash k = b" for b] by (auto simp: table_ok_def)
qed

lemma futex_find_iff:
  assumes "table_ok st"
  shows "futex_find k st = Some a \<longleftrightarrow> (\<exists>f. heap_get (f_heap st) a = Some f \<and> fx_key f = k)"
proof
  assume "futex_find k st = Some a"
  then show "\<exists>f. heap_get (f_heap st) a = Some f \<and> fx_key f = k"
    by (auto simp: futex_find_def find_Some_iff split: option.splits)
next
  assume "\<exists>f. heap_get (f_heap st) a = Some f \<and> fx_key f = k"
  then obtain f where f: "heap_get (f_heap st) a = Some f" "fx_key f = k" by blast
  then have "a \<in> set (f_hash st (futex_key_hash k))" using assms by (auto simp: table_ok_def)
  with f have "futex_find k st \<noteq> None" by (auto simp: futex_find_def find_None_iff)
  then obtain b where b: "futex_find k st = Some b" by blast
  then obtain g where "heap_get (f_heap st) b = Some g" "fx_key g = k"
    by (auto simp: futex_find_def find_Some_iff split: option.splits)
  with f assms have "a = b" by (auto simp: table_ok_def)
  with b show "futex_find k st = Some a" by simp
qed

section \<open>References\<close>

interpretation fxr: refcounted fx_refcount "\<lambda>h a. f_heap (futex_upd a (fx_refcount_update Suc) (st\<lparr>f_heap := h\<rparr>))"
  "\<lambda>h a. f_heap (futex_put_unlocked a (st\<lparr>f_heap := h\<rparr>))" for st
proof unfold_locales
  fix h a and x :: futex
  assume "heap_get h a = Some x"
  then show "\<exists>y. fx_refcount y = fx_refcount x - 1 \<and>
      (\<forall>b. heap_get (f_heap (futex_put_unlocked a (st\<lparr>f_heap := h\<rparr>))) b =
         (if b = a then if fx_refcount x = 1 then None else Some y else heap_get h b))"
    by (intro exI [of _ "x\<lparr>fx_refcount := fx_refcount x - 1\<rparr>"]) simp
qed auto

lemma futex_refs_Cons: "futex_refs (a # X) st b = futex_refs X st b + ref1 (Some a) b"
  by (simp add: futex_refs_def)

lemma futex_refs_cong:
  "f_waits st' = f_waits st \<Longrightarrow> f_tasks st' = f_tasks st \<Longrightarrow> futex_refs X st' = futex_refs X st"
  by (simp add: futex_refs_def fun_eq_iff)

lemma queue_ok_cong: "f_waits st' = f_waits st \<Longrightarrow> queue_ok st' = queue_ok st"
  by (simp add: queue_ok_def fun_eq_iff)

lemma inv_upd_simps [simp]:
  "futex_refs X (futex_upd a g st) = futex_refs X st" "queue_ok (futex_upd a g st) = queue_ok st"
  "futex_refs X (futex_put_unlocked a st) = futex_refs X st" "queue_ok (futex_put_unlocked a st) = queue_ok st"
  "futex_refs X (st\<lparr>f_heap := h, f_hash := t\<rparr>) = futex_refs X st" "queue_ok (st\<lparr>f_heap := h, f_hash := t\<rparr>) = queue_ok st"
  by (rule futex_refs_cong queue_ok_cong; simp)+

lemma queue_ok_rc [simp]: "queue_ok st a (f\<lparr>fx_refcount := n\<rparr>) = queue_ok st a f"
  by (simp add: queue_ok_def)

lemma futex_inv_perm: "futex_inv X st \<Longrightarrow> (\<And>a. count_where (\<lambda>b. b = a) X = count_where (\<lambda>b. b = a) Y) \<Longrightarrow> futex_inv Y st"
  by (simp add: futex_inv_def futex_refs_def [abs_def])

text \<open>A change of a futex that keeps its count, its key and its queues.\<close>

lemma futex_inv_upd:
  assumes "futex_inv X st"
    and "\<And>f. fx_refcount (g f) = fx_refcount f" "\<And>f. fx_key (g f) = fx_key f"
    and "\<And>f. fx_queue (g f) = fx_queue f" "\<And>f. fx_pi_queue (g f) = fx_pi_queue f"
  shows "futex_inv X (futex_upd a g st)"
proof (cases "heap_get (f_heap st) a")
  case None
  then show ?thesis using assms(1) by (simp add: futex_upd_def)
next
  case (Some f)
  have h: "f_heap (futex_upd a g st) = heap_put (f_heap st) a (g f)" using Some by (simp add: futex_upd_def)
  have t: "table_ok (futex_upd a g st)"
    using futex_invD(3) [OF assms(1)] by (rule table_ok_cong) (auto simp: assms(3) option.map_comp o_def)
  have "queue_ok st a (g f)" using futex_invD(4) [OF assms(1) Some] by (simp add: queue_ok_def assms(4,5))
  moreover have "frame_ok (futex_upd a g st) i w" if "heap_get (f_waits st) i = Some w" for i w
    using futex_invD(5) [OF assms(1) that] by (auto simp: frame_ok_def assms(5))
  moreover have "counted fx_refcount (heap_put (f_heap st) a (g f)) (futex_refs X st)"
    using futex_invD(2) [OF assms(1)] Some assms(2) by (rule counted_put)
  ultimately show ?thesis
    using assms(1) t Some unfolding futex_inv_def h [symmetric] by auto
qed

lemma futex_put_inv:
  assumes "futex_inv (a # X) st"
  shows "futex_inv X (futex_put_unlocked a st)"
proof -
  have c: "counted fx_refcount (f_heap st) (\<lambda>b. futex_refs X st b + ref1 (Some a) b)"
    using futex_invD(2) [OF assms] by (rule counted_cong) (simp add: futex_refs_Cons)
  then obtain f where f: "heap_get (f_heap st) a = Some f" and rc: "fx_refcount f = futex_refs X st a + 1"
    using countedD(3) [OF c, of a] countedD(1) [OF c, of a] by fastforce
  note i = futex_invD [OF assms]
  have c': "counted fx_refcount (f_heap (futex_put_unlocked a st)) (futex_refs X (futex_put_unlocked a st))"
    using fxr.counted_release [of "f_heap st" "futex_refs X st" a st] c by simp
  have none: "fx_queue f = []" "fx_pi_queue f = []" "\<And>i w. heap_get (f_waits st) i = Some w \<Longrightarrow> w_futex w \<noteq> a" if "futex_refs X st a = 0"
  proof -
    show w: "w_futex w \<noteq> a" if "heap_get (f_waits st) i = Some w" for i w
      using wcount_pos [OF that, of "\<lambda>w. w_futex w = a"] \<open>futex_refs X st a = 0\<close> by (auto simp: futex_refs_def)
    show "fx_queue f = []" "fx_pi_queue f = []"
      using i(4) [OF f] w by (fastforce simp: queue_ok_def intro!: equals0I [where A = "set xs" for xs, THEN set_empty [THEN iffD1]])+
  qed
  have fr: "frame_ok (futex_put_unlocked a st) j w" if "heap_get (f_waits st) j = Some w" for j w
    using i(5) [OF that] none(3) [OF _ that] f rc by (auto simp: frame_ok_def)
  have t: "table_ok (futex_put_unlocked a st)"
    using i(3) f rc by (auto simp: table_ok_def futex_put_unlocked_def futex_assert_def split: if_splits)
  have "\<not> f_abort (futex_put_unlocked a st)"
    using i(1) f rc none by (auto simp: futex_put_unlocked_def futex_assert_def)
  with c' t fr i(4,6,7) f rc show ?thesis by (auto simp: futex_inv_def split: if_splits)
qed

lemma futex_get_inv:
  assumes "futex_inv X st" and "futex_get_unlocked env k st = (Some a, st')"
  shows "futex_inv (a # X) st'" "f_waits st' = f_waits st" "f_tasks st' = f_tasks st" "f_store st' = f_store st"
    "\<exists>f. heap_get (f_heap st') a = Some f \<and> fx_key f = k"
proof -
  note i = futex_invD [OF assms(1)]
  have "futex_inv (a # X) st' \<and> f_waits st' = f_waits st \<and> f_tasks st' = f_tasks st \<and> f_store st' = f_store st \<and>
    (\<exists>f. heap_get (f_heap st') a = Some f \<and> fx_key f = k)"
  proof (cases "futex_find k st")
    case (Some b)
    then have b: "b = a" "st' = futex_upd a (fx_refcount_update Suc) st" using assms(2) by (auto simp: futex_get_unlocked_def)
    then obtain f where f: "heap_get (f_heap st) a = Some f" "fx_key f = k" using Some futex_find_iff [OF i(3)] by auto
    have c: "counted fx_refcount (f_heap st') (futex_refs (a # X) st')"
      unfolding b(2) by (rule counted_cong [OF fxr.counted_retain [OF i(2) f(1), of st, simplified]]) (simp add: futex_refs_Cons)
    have t: "table_ok st'" unfolding b(2) by (rule table_ok_cong [OF i(3)]) (auto simp: option.map_comp o_def)
    have fr: "frame_ok st' j w" if "heap_get (f_waits st) j = Some w" for j w
      using i(5) [OF that] unfolding b(2) by (auto simp: frame_ok_def)
    have "queue_ok st a (fx_refcount_update Suc f)" using i(4) [OF f(1)] by (simp add: queue_ok_def)
    then show ?thesis using c t fr i(1,4,6,7) f unfolding futex_inv_def by (auto simp: b(2) split: if_splits)
  next
    case None
    then have b: "a = length (f_heap st)" and st': "st' = st\<lparr>f_heap := fst (heap_alloc (f_heap st) \<lparr>fx_refcount = 1, fx_key = k,
        fx_queue = [], fx_pi_queue = [], fx_pi_owner = 0, fx_wake_seq = 0\<rparr>),
        f_hash := (f_hash st)(futex_key_hash k := a # f_hash st (futex_key_hash k))\<rparr>"
      using assms(2) by (auto simp: futex_get_unlocked_def heap_alloc_def split: if_splits)
    have fresh: "heap_get (f_heap st) c = Some f \<Longrightarrow> fx_key f \<noteq> k" for c f
      using None futex_find_iff [OF i(3), of k] by fastforce
    have c: "counted fx_refcount (f_heap st') (futex_refs (a # X) st')"
      using counted_alloc [OF i(2), of "\<lparr>fx_refcount = 1, fx_key = k, fx_queue = [], fx_pi_queue = [], fx_pi_owner = 0, fx_wake_seq = 0\<rparr>"]
      unfolding st' b by (simp add: futex_refs_Cons [abs_def])
    have t: "table_ok st'" using i(3) fresh unfolding st' b table_ok_def
      by (auto simp: heap_get_alloc)
    have fr: "frame_ok st' j w" if "heap_get (f_waits st) j = Some w" for j w
      using i(5) [OF that] unfolding st' b by (auto simp: frame_ok_def heap_get_alloc)
    have "queue_ok st a \<lparr>fx_refcount = 1, fx_key = k, fx_queue = [], fx_pi_queue = [], fx_pi_owner = 0, fx_wake_seq = 0\<rparr>"
      by (simp add: queue_ok_def)
    then show ?thesis using c t fr i(1,4,6,7) b unfolding futex_inv_def by (auto simp: st' heap_get_alloc split: if_splits)
  qed
  then show "futex_inv (a # X) st'" "f_waits st' = f_waits st" "f_tasks st' = f_tasks st" "f_store st' = f_store st"
    "\<exists>f. heap_get (f_heap st') a = Some f \<and> fx_key f = k" by auto
qed

lemma futex_get_none: "futex_get_unlocked env k st = (None, st') \<Longrightarrow> st' = st"
  by (auto simp: futex_get_unlocked_def heap_alloc_def split: option.splits if_splits prod.splits)

section \<open>Frames\<close>

lemma futex_inv_store [simp]: "futex_inv X (st\<lparr>f_store := m\<rparr>) = futex_inv X st"
  by (simp add: futex_inv_def futex_refs_def [abs_def] table_ok_def queue_ok_def frame_ok_def)

lemma futex_inv_queue_remove:
  assumes "futex_inv X st"
  shows "futex_inv X (queue_remove a i st)"
proof (cases "heap_get (f_heap st) a")
  case None
  then show ?thesis using assms by (simp add: futex_upd_def queue_remove_def)
next
  case (Some f)
  note inv = futex_invD [OF assms]
  have c: "counted fx_refcount (f_heap (queue_remove a i st)) (futex_refs X st)"
    using Some counted_put [OF inv(2) Some, of "fx_queue_update (removeAll i) f"]
    by (simp add: queue_remove_def futex_upd_def)
  have t: "table_ok (queue_remove a i st)"
    by (rule table_ok_cong [OF inv(3)]) (auto simp: option.map_comp o_def)
  have "queue_ok st a (fx_queue_update (removeAll i) f)" using inv(4) [OF Some] by (auto simp: queue_ok_def distinct_removeAll)
  moreover have "frame_ok (queue_remove a i st) j w" if "heap_get (f_waits st) j = Some w" for j w
    using inv(5) [OF that] by (auto simp: frame_ok_def)
  ultimately show ?thesis using c t inv(1,4,6,7) Some by (auto simp: futex_inv_def queue_remove_def split: if_splits)
qed

lemma futex_inv_enqueue:
  assumes "futex_inv X st" "heap_get (f_waits st) i = Some w" "w_futex w = a" "\<not> w_pi w"
    and new: "\<And>f. heap_get (f_heap st) a = Some f \<Longrightarrow> i \<notin> set (fx_queue f)"
  shows "futex_inv X (futex_upd a (\<lambda>f. f\<lparr>fx_queue := fx_queue f @ [i]\<rparr>) st)"
proof (cases "heap_get (f_heap st) a")
  case None
  then show ?thesis using assms(1) by (simp add: futex_upd_def)
next
  case (Some f)
  let ?st = "futex_upd a (\<lambda>f. f\<lparr>fx_queue := fx_queue f @ [i]\<rparr>) st"
  note inv = futex_invD [OF assms(1)]
  have c: "counted fx_refcount (f_heap ?st) (futex_refs X st)"
    using Some counted_put [OF inv(2) Some, of "f\<lparr>fx_queue := fx_queue f @ [i]\<rparr>"] by (simp add: futex_upd_def)
  have t: "table_ok ?st" by (rule table_ok_cong [OF inv(3)]) (auto simp: option.map_comp o_def)
  have "queue_ok st a (f\<lparr>fx_queue := fx_queue f @ [i]\<rparr>)"
    using inv(4) [OF Some] new [OF Some] assms(2-4) by (auto simp: queue_ok_def)
  moreover have "frame_ok ?st j w" if "heap_get (f_waits st) j = Some w" for j w
    using inv(5) [OF that] by (auto simp: frame_ok_def)
  ultimately show ?thesis using c t inv(1,4,6,7) Some by (auto simp: futex_inv_def split: if_splits)
qed

definition idle :: "nat \<Rightarrow> fstate \<Rightarrow> bool" where
  "idle t st \<longleftrightarrow> t < length (f_tasks st) \<and> (\<forall>i w. heap_get (f_waits st) i = Some w \<longrightarrow> w_task w \<noteq> t)"

lemma futex_inv_new_frame:
  assumes "futex_inv (a # X) st" "w_futex w = a" "idle (w_task w) st"
    and "w_magic w = FUTEX_WAIT_MAGIC" "\<not> w_pi_queued w" "\<not> w_pi_owned w"
    and "w_pi w \<longleftrightarrow> w_pc w \<noteq> Wait_spin \<and> w_pc w \<noteq> Wait_sleep"
    and "\<not> w_pi w \<Longrightarrow> ft_park (f_tasks st ! w_task w) = None"
  shows "futex_inv X (st\<lparr>f_waits := fst (heap_alloc (f_waits st) w)\<rparr>)"
proof -
  let ?st = "st\<lparr>f_waits := fst (heap_alloc (f_waits st) w)\<rparr>"
  note inv = futex_invD [OF assms(1)]
  have eq: "futex_refs X ?st b = futex_refs (a # X) st b" for b
    using assms(2) by (simp add: futex_refs_def wcount_alloc)
  have c: "counted fx_refcount (f_heap st) (futex_refs X ?st)"
    by (rule counted_cong [OF inv(2)]) (simp only: eq)
  have t: "table_ok ?st" using inv(3) by (simp add: table_ok_def)
  have q: "queue_ok ?st b f" if "heap_get (f_heap st) b = Some f" for b f
    using inv(4) [OF that] heap_get_less by (fastforce simp: queue_ok_def heap_get_alloc)
  have fr: "frame_ok ?st j v" if "heap_get (f_waits ?st) j = Some v" for j v
    using inv(5) [of j v] assms that by (auto simp: frame_ok_def heap_get_alloc idle_def split: if_splits)
  have one: "one_frame (f_waits ?st)"
    using inv(7) assms(3) unfolding one_frame_def idle_def by (simp add: heap_get_alloc) metis
  have "f_pi_waiting ?st = wcount w_pi_queued (f_waits ?st)" using inv(6) assms(5) by (simp add: wcount_alloc)
  with c t q fr one inv(1) show ?thesis by (simp add: futex_inv_def)
qed

lemma futex_inv_free_frame:
  assumes "futex_inv X st" "heap_get (f_waits st) i = Some w"
    and off: "\<And>f. heap_get (f_heap st) (w_futex w) = Some f \<Longrightarrow> i \<notin> set (fx_queue f)" "w_pi_queued w \<Longrightarrow> w_pi_owned w"
  shows "futex_inv (w_futex w # X) (st\<lparr>f_pi_waiting := f_pi_waiting st - (if w_pi_queued w then 1 else 0),
    f_waits := heap_free (f_waits st) i\<rparr>)" (is "futex_inv _ ?st")
proof -
  note inv = futex_invD [OF assms(1)]
  have eq: "futex_refs (w_futex w # X) ?st b = futex_refs X st b" for b
    using wcount_free [OF assms(2), of "\<lambda>w. w_futex w = b"] by (auto simp: futex_refs_def split: if_splits)
  have c: "counted fx_refcount (f_heap st) (futex_refs (w_futex w # X) ?st)"
    by (rule counted_cong [OF inv(2)]) (simp only: eq)
  have t: "table_ok ?st" using inv(3) by (simp add: table_ok_def)
  have q: "queue_ok ?st b f" if f: "heap_get (f_heap st) b = Some f" for b f
  proof -
    have "i \<notin> set (fx_queue f)" using inv(4) [OF f] off(1) f assms(2) by (auto simp: queue_ok_def)
    moreover have "i \<notin> set (fx_pi_queue f)" using inv(4) [OF f] off(2) assms(2) by (auto simp: queue_ok_def)
    ultimately show ?thesis using inv(4) [OF f] by (auto simp: queue_ok_def)
  qed
  have fr: "frame_ok ?st j v" if "heap_get (f_waits ?st) j = Some v" for j v
    using inv(5) [of j v] that by (auto simp: frame_ok_def split: if_splits)
  have "f_pi_waiting ?st = wcount w_pi_queued (f_waits ?st)"
    using inv(6) wcount_free [OF assms(2), of w_pi_queued] by (auto split: if_splits)
  moreover have "one_frame (f_waits ?st)" by (rule one_frame_sub [OF inv(7)]) (auto split: if_splits)
  ultimately show ?thesis using c t q fr inv(1) unfolding futex_inv_def by simp
qed

lemma futex_inv_wait_upd:
  assumes "futex_inv X st"
    and "\<And>w. heap_get (f_waits st) i = Some w \<Longrightarrow> w_futex (g w) = w_futex w \<and> w_magic (g w) = w_magic w \<and> w_task (g w) = w_task w \<and>
      w_pi (g w) = w_pi w \<and> w_pi_queued (g w) = w_pi_queued w \<and> w_pi_owned (g w) = w_pi_owned w \<and>
      (w_pi w \<longleftrightarrow> w_pc (g w) \<noteq> Wait_spin \<and> w_pc (g w) \<noteq> Wait_sleep)"
  shows "futex_inv X (wait_upd i g st)"
proof (cases "heap_get (f_waits st) i")
  case None
  then show ?thesis using assms(1) by (simp add: wait_upd_def)
next
  case (Some w)
  note inv = futex_invD [OF assms(1)] and g = assms(2) [OF Some]
  have n: "wcount P (f_waits (wait_upd i g st)) = wcount P (f_waits st)" if "P (g w) = P w" for P
    using wcount_put [OF Some, of P "g w"] that Some by (simp add: wait_upd_def split: if_splits)
  have eq: "futex_refs X (wait_upd i g st) b = futex_refs X st b" for b
    using g by (simp add: futex_refs_def n)
  have c: "counted fx_refcount (f_heap st) (futex_refs X (wait_upd i g st))"
    by (rule counted_cong [OF inv(2)]) (simp only: eq)
  have t: "table_ok (wait_upd i g st)" using inv(3) by (simp add: table_ok_def)
  have q: "queue_ok (wait_upd i g st) b f" if f: "heap_get (f_heap st) b = Some f" for b f
    using inv(4) [OF f] g Some by (auto simp: queue_ok_def)
  have fr: "frame_ok (wait_upd i g st) j v" if "heap_get (f_waits (wait_upd i g st)) j = Some v" for j v
    using inv(5) [of j] that g Some by (auto simp: frame_ok_def split: if_splits)
  have one: "one_frame (f_waits (wait_upd i g st))" by (rule one_frame_sub [OF inv(7)]) (use g Some in \<open>auto split: if_splits\<close>)
  show ?thesis using c t q fr one inv(1) inv(6) n [of w_pi_queued] g by (simp add: futex_inv_def)
qed

section \<open>Parked tasks\<close>

lemma count_tasks_upd:
  assumes "t < length (f_tasks st)"
  shows "count_where P (f_tasks (task_upd t g st)) + (if P (f_tasks st ! t) then 1 else 0)
    = count_where P (f_tasks st) + (if P (g (f_tasks st ! t)) then 1 else 0)"
  using count_where_update [OF assms, of P "g (f_tasks st ! t)"] assms by (simp add: task_upd_def)

lemma nth_task_upd [simp]:
  "f_tasks (task_upd t g st) ! s = (if s = t \<and> t < length (f_tasks st) then g (f_tasks st ! t) else f_tasks st ! s)"
  by (auto simp: task_upd_def)

lemma futex_inv_task_upd:
  assumes "futex_inv X st" "t < length (f_tasks st)"
    and park: "\<And>b. count_where (\<lambda>c. c = b) Y + ref1 (ft_park (g (f_tasks st ! t))) b = count_where (\<lambda>c. c = b) X + ref1 (ft_park (f_tasks st ! t)) b"
    and none: "\<And>i w. heap_get (f_waits st) i = Some w \<Longrightarrow> w_task w = t \<Longrightarrow> \<not> w_pi w \<Longrightarrow> ft_park (g (f_tasks st ! t)) = None"
  shows "futex_inv Y (task_upd t g st)"
proof -
  note inv = futex_invD [OF assms(1)]
  have eq: "futex_refs Y (task_upd t g st) b = futex_refs X st b" for b
    using count_tasks_upd [OF assms(2), of "\<lambda>t. ft_park t = Some b" g] park [of b]
    by (simp add: futex_refs_def ref1_def split: if_splits)
  have c: "counted fx_refcount (f_heap st) (futex_refs Y (task_upd t g st))"
    by (rule counted_cong [OF inv(2)]) (simp only: eq)
  have t: "table_ok (task_upd t g st)" using inv(3) by (simp add: table_ok_def)
  have q: "queue_ok (task_upd t g st) b f = queue_ok st b f" for b f by (simp add: queue_ok_def)
  have fr: "frame_ok (task_upd t g st) j w" if "heap_get (f_waits st) j = Some w" for j w
    using inv(5) [OF that] none [OF that] by (auto simp: frame_ok_def)
  show ?thesis using c t q fr inv(1,4,6,7) by (simp add: futex_inv_def)
qed

end
