(* ===== verification/Futex_Ops.thy ===== *)
theory Futex_Ops
  imports Futex_Inv
begin

text \<open>
  Every operation on futexes keeps the invariant.
\<close>

section \<open>Waiting\<close>

lemma put_task_upd: "futex_put_unlocked a (task_upd t g st) = task_upd t g (futex_put_unlocked a st)"
  by (simp add: futex_put_unlocked_def task_upd_def futex_assert_def split: option.split)

lemma clear_park:
  assumes "futex_inv X st" "t < length (f_tasks st)"
  shows "futex_inv X (futex_clear_restart_park_locked t st)"
    and "ft_park (f_tasks (futex_clear_restart_park_locked t st) ! t) = None"
proof -
  have timed: "futex_inv X (task_upd t (ft_timed_update (\<lambda>_. False)) s)" if "futex_inv X s" "t < length (f_tasks s)" for s
    using that(1,2) by (rule futex_inv_task_upd)
      (use futex_invD(5) [OF that(1)] in \<open>auto simp: frame_ok_def\<close>)
  show "futex_inv X (futex_clear_restart_park_locked t st)"
  proof (cases "ft_park (f_tasks st ! t)")
    case None
    then show ?thesis using timed [OF assms] by (simp add: futex_clear_restart_park_locked_def)
  next
    case (Some a)
    have "futex_inv (a # X) (task_upd t (ft_park_update (\<lambda>_. None)) st)"
      using assms by (rule futex_inv_task_upd) (auto simp: Some)
    then have "futex_inv X (task_upd t (ft_park_update (\<lambda>_. None)) (futex_put_unlocked a st))"
      using futex_put_inv by (simp flip: put_task_upd)
    then show ?thesis using Some timed assms(2) by (simp add: futex_clear_restart_park_locked_def)
  qed
  show "ft_park (f_tasks (futex_clear_restart_park_locked t st) ! t) = None"
    using assms(2) by (auto simp: futex_clear_restart_park_locked_def split: option.split)
qed

lemma clear_park_sel [simp]:
  "f_waits (futex_clear_restart_park_locked t st) = f_waits st"
  "length (f_tasks (futex_clear_restart_park_locked t st)) = length (f_tasks st)"
  "f_store (futex_clear_restart_park_locked t st) = f_store st"
  by (auto simp: futex_clear_restart_park_locked_def split: option.split)

lemma release_park_inv: "futex_inv X st \<Longrightarrow> t < length (f_tasks st) \<Longrightarrow> futex_inv X (futex_release_restart_park t st)"
  by (simp add: futex_release_restart_park_def clear_park)

lemma futex_inv_free_wait:
  assumes "futex_inv X st" "heap_get (f_waits st) i = Some w" "\<not> w_pi_queued w"
    and "\<And>f. heap_get (f_heap st) (w_futex w) = Some f \<Longrightarrow> i \<notin> set (fx_queue f)"
  shows "futex_inv (w_futex w # X) (st\<lparr>f_waits := heap_free (f_waits st) i\<rparr>)"
proof -
  have "st\<lparr>f_pi_waiting := f_pi_waiting st - 0, f_waits := ws\<rparr> = st\<lparr>f_waits := ws\<rparr>" for ws by (cases st) simp
  then show ?thesis using futex_inv_free_frame [OF assms(1,2,4)] assms(3) by simp
qed

lemma wait_finish_inv:
  assumes "futex_inv X st" "heap_get (f_waits st) i = Some w" "\<not> w_pi w"
  shows "futex_inv X (snd (futex_wait_finish err i st))"
proof -
  note fr = futex_invD(5) [OF assms(1,2)] and one = futex_invD(7) [OF assms(1)]
  let ?st = "queue_remove (w_futex w) i st"
  have nq: "\<not> w_pi_queued w" using fr assms(3) by (auto simp: frame_ok_def)
  have f: "futex_inv (w_futex w # X) (?st\<lparr>f_waits := heap_free (f_waits st) i\<rparr>)" (is "futex_inv _ ?st2")
    by (rule futex_inv_free_wait [OF futex_inv_queue_remove [OF assms(1), of "w_futex w" i], of i w, simplified, OF assms(2) nq]) auto
  have p: "futex_inv X (futex_put_unlocked (w_futex w) ?st2)" using f by (rule futex_put_inv)
  have "futex_inv X (task_upd (w_task w) g ?st2)" if "\<And>t. ft_park (g t) = Some (w_futex w)" for g
    using f by (rule futex_inv_task_upd)
      (use fr assms(2,3) one that in \<open>auto simp: frame_ok_def one_frame_def split: if_splits\<close>)
  then show ?thesis
    using assms(2) p by (auto simp: futex_wait_finish_def Let_def split: sum.split errno.split)
qed

lemma wait_loop_inv:
  assumes "futex_inv X st" "heap_get (f_waits st) i = Some w" "\<not> w_pi w"
  shows "futex_inv X (snd (futex_wait_loop env i st))"
proof -
  have "futex_inv X (wait_upd i (\<lambda>w. w\<lparr>w_notified := False, w_pc := Wait_sleep\<rparr>) st)"
    using assms(1) by (rule futex_inv_wait_upd) (use assms in auto)
  then show ?thesis using wait_finish_inv [OF assms] assms(2)
    by (simp add: futex_wait_loop_def Let_def split: prod.split)
qed

lemma wait_woken_inv:
  assumes "futex_inv X st" "heap_get (f_waits st) i = Some w" "\<not> w_pi w"
  shows "futex_inv X (snd (futex_wait_woken env err i st))"
  using wait_finish_inv [OF assms] wait_loop_inv [OF assms] assms(2) by (simp add: futex_wait_woken_def)

lemma wait_block_inv:
  assumes "futex_inv (a # X) st" "idle (fe_task env) st" "ft_park (f_tasks st ! fe_task env) = None"
  shows "futex_inv X (snd (futex_wait_block env uaddr val timeout bitset resumed a st))"
proof -
  let ?i = "length (f_waits st)"
  have new: "futex_inv X (futex_upd a (\<lambda>f. f\<lparr>fx_queue := fx_queue f @ [?i]\<rparr>) (st\<lparr>f_waits := f_waits st @ [Some w]\<rparr>))"
    if w: "w_futex w = a" "w_task w = fe_task env" "w_magic w = FUTEX_WAIT_MAGIC"
      "\<not> w_pi_queued w" "\<not> w_pi_owned w" "\<not> w_pi w" "w_pc w = Wait_spin" for w
  proof -
    have n: "futex_inv X (st\<lparr>f_waits := fst (heap_alloc (f_waits st) w)\<rparr>)"
      by (rule futex_inv_new_frame [OF assms(1)]) (use w assms(2,3) in auto)
    have "?i \<notin> set (fx_queue f)" if "heap_get (f_heap st) a = Some f" for f
      using futex_invD(4) [OF assms(1) that] by (auto simp: queue_ok_def)
    then show ?thesis using futex_inv_enqueue [OF n, of ?i w a] w by (simp add: heap_get_alloc) (simp add: heap_alloc_def)
  qed
  have last: "heap_get (ws @ [Some w]) (length ws) = Some w" for ws and w :: futex_wait by (simp add: heap_get_def)
  show ?thesis
    unfolding futex_wait_block_def Let_def heap_alloc_def prod.case
    by (auto intro!: futex_put_inv [OF assms(1)] new wait_loop_inv split: option.split simp: last)
qed

lemma wait_masked_inv:
  assumes "futex_inv X st" "idle (fe_task env) st"
  shows "futex_inv X (snd (futex_wait_masked env uaddr op val timeout bitset st))"
proof (cases "futex_get_unlocked env (futex_key_of env uaddr op) st")
  case (Pair r st1)
  show ?thesis
  proof (cases r)
    case None
    then show ?thesis using Pair futex_get_none assms(1) by (auto simp: futex_wait_masked_def)
  next
    case (Some a)
    note g = futex_get_inv [OF assms(1) Pair [unfolded Some]]
    have id: "idle (fe_task env) st1" using assms(2) g by (simp add: idle_def)
    then have t: "fe_task env < length (f_tasks st1)" by (simp add: idle_def)
    let ?t = "f_tasks st1 ! fe_task env"
    show ?thesis
    proof (cases "ft_park ?t")
      case None
      then show ?thesis using Pair Some wait_block_inv [OF g(1) id] by (simp add: futex_wait_masked_def Let_def)
    next
      case (Some b)
      show ?thesis
      proof (cases "b = a")
        case True
        let ?st = "task_upd (fe_task env) (\<lambda>t. t\<lparr>ft_timed := False, ft_park := None\<rparr>) (futex_put_unlocked a st1)"
        have "futex_inv (a # a # X) (task_upd (fe_task env) (\<lambda>t. t\<lparr>ft_timed := False, ft_park := None\<rparr>) st1)"
          using g(1) t by (rule futex_inv_task_upd) (auto simp: Some True)
        then have i: "futex_inv (a # X) ?st" using futex_put_inv by (simp flip: put_task_upd)
        have "idle (fe_task env) ?st" "ft_park (f_tasks ?st ! fe_task env) = None" using id t by (simp_all add: idle_def)
        then show ?thesis
          using Pair \<open>r = Some a\<close> Some True wait_block_inv [OF i] futex_put_inv [OF i] by (simp add: futex_wait_masked_def Let_def)
      next
        case False
        have "idle (fe_task env) (futex_clear_restart_park_locked (fe_task env) st1)" using id by (simp add: idle_def)
        then show ?thesis
          using Pair \<open>r = Some a\<close> Some False wait_block_inv [OF clear_park(1) [OF g(1) t] _ clear_park(2) [OF g(1) t]]
          by (simp add: futex_wait_masked_def Let_def)
      qed
    qed
  qed
qed

lemma wait_ret_inv: "futex_inv X (snd r) \<Longrightarrow> fe_task env < length (f_tasks (snd r)) \<Longrightarrow> futex_inv X (snd (futex_wait_ret env r))"
  by (cases "(env, r)" rule: futex_wait_ret.cases) (auto simp: release_park_inv)

section \<open>Waking and moving\<close>

lemma notify_inv: "futex_inv X st \<Longrightarrow> futex_inv X (wait_notify i st)"
  unfolding wait_notify_def by (rule futex_inv_wait_upd) (auto dest: futex_invD(5) simp: frame_ok_def)

lemma wake_loop_inv: "futex_inv X st \<Longrightarrow> futex_inv X (snd (futex_wake_loop P mx a is n st))"
  by (induction P mx a "is" n st rule: futex_wake_loop.induct)
    (auto simp: futex_inv_queue_remove notify_inv split: option.split)

lemma wake_loop_sel [simp]:
  "f_tasks (snd (futex_wake_loop P mx a is n st)) = f_tasks st"
  "f_store (snd (futex_wake_loop P mx a is n st)) = f_store st"
  by (induction P mx a "is" n st rule: futex_wake_loop.induct) (auto simp: wait_notify_def split: option.split)

text \<open>A waiter and its reference go from one futex to another.\<close>

lemma requeue_one_inv:
  assumes "futex_inv X st" "a \<in> set X" "b \<in> set X" "b \<noteq> a"
    and f: "heap_get (f_heap st) a = Some f" and i: "i \<in> set (fx_queue f)"
  shows "fx_refcount f > 1"
    and "futex_inv X (wait_upd i (w_futex_update (\<lambda>_. b)) (futex_upd b (fx_refcount_update Suc)
      (futex_upd a (\<lambda>f. f\<lparr>fx_refcount := fx_refcount f - 1\<rparr>)
        (futex_upd b (\<lambda>f. f\<lparr>fx_queue := fx_queue f @ [i]\<rparr>) (queue_remove a i st)))))" (is "futex_inv X ?st")
proof -
  note inv = futex_invD [OF assms(1)]
  obtain w where w: "heap_get (f_waits st) i = Some w" "w_futex w = a" "\<not> w_pi w"
    using inv(4) [OF f] i by (auto simp: queue_ok_def)
  have xa: "0 < count_where (\<lambda>c. c = x) X" if "x \<in> set X" for x
    using that by (simp add: count_where_0_iff neq0_conv [symmetric] del: neq0_conv)
  show rc: "fx_refcount f > 1"
    using countedD(1) [OF inv(2) f] wcount_pos [OF w(1), of "\<lambda>w. w_futex w = a"] w(2) xa [OF assms(2)]
    by (simp add: futex_refs_def)
  obtain g where g: "heap_get (f_heap st) b = Some g"
    using countedD(3) [OF inv(2), of b] xa [OF assms(3)] by (auto simp: futex_refs_def)
  have H: "heap_get (f_heap ?st) c = (if c = a then Some (f\<lparr>fx_queue := removeAll i (fx_queue f), fx_refcount := fx_refcount f - 1\<rparr>)
      else if c = b then Some (g\<lparr>fx_queue := fx_queue g @ [i], fx_refcount := Suc (fx_refcount g)\<rparr>) else heap_get (f_heap st) c)" for c
    using f g assms(4) by simp
  have n: "wcount P (f_waits ?st) + (if P w then 1 else 0) = wcount P (f_waits st) + (if P (w\<lparr>w_futex := b\<rparr>) then 1 else 0)" for P
    using wcount_put [OF w(1), of P "w\<lparr>w_futex := b\<rparr>"] w(1) by (simp add: wait_upd_def)
  have R: "futex_refs X ?st c + (if c = a then 1 else 0) = futex_refs X st c + (if c = b then 1 else 0)" for c
    using n [of "\<lambda>w. w_futex w = c"] w(2) by (auto simp: futex_refs_def)
  have c: "counted fx_refcount (f_heap ?st) (futex_refs X ?st)"
    unfolding counted_def
  proof (intro conjI allI impI)
    fix c x assume x: "heap_get (f_heap ?st) c = Some x"
    consider "c = a" | "c = b" | "c \<noteq> a" "c \<noteq> b" by blast
    then have "fx_refcount x = futex_refs X ?st c \<and> 0 < futex_refs X ?st c"
    proof cases
      case 1
      then show ?thesis using R [of a] x rc countedD(1) [OF inv(2) f] assms(4) unfolding H by auto
    next
      case 2
      then show ?thesis using R [of b] x countedD(1) [OF inv(2) g] assms(4) unfolding H by auto
    next
      case 3
      then show ?thesis using R [of c] x countedD(1,2) [OF inv(2), of c x] unfolding H by auto
    qed
    then show "fx_refcount x = futex_refs X ?st c" "0 < futex_refs X ?st c" by auto
  next
    fix c assume "0 < futex_refs X ?st c"
    then show "heap_get (f_heap ?st) c \<noteq> None" using R [of c] countedD(3) [OF inv(2), of c] unfolding H by (auto split: if_splits)
  qed
  have t: "table_ok ?st" by (rule table_ok_cong [OF inv(3)]) (auto simp: f g)
  have W: "heap_get (f_waits ?st) j = (if j = i then Some (w\<lparr>w_futex := b\<rparr>) else heap_get (f_waits st) j)" for j using w(1) by simp
  have q: "queue_ok ?st c x" if "heap_get (f_heap ?st) c = Some x" for c x
  proof -
    have "i \<notin> set (fx_pi_queue y)" if "heap_get (f_heap st) d = Some y" for d y
      using inv(4) [OF that] w inv(5) [OF w(1)] by (auto simp: queue_ok_def frame_ok_def)
    moreover have "i \<notin> set (fx_queue y)" if "heap_get (f_heap st) d = Some y" "d \<noteq> a" for d y
      using inv(4) [OF that(1)] w that(2) by (auto simp: queue_ok_def)
    ultimately show ?thesis
      using that inv(4) [of c] inv(4) [OF f] inv(4) [OF g] w f g assms(4) unfolding H queue_ok_def W
      by (auto simp: distinct_removeAll split: if_splits)
  qed
  have fr: "frame_ok ?st j v" if "heap_get (f_waits ?st) j = Some v" for j v
    using that inv(5) [of j] inv(5) [OF w(1)] w(3) f g unfolding W by (auto simp: frame_ok_def split: if_splits)
  have "one_frame (f_waits ?st)" by (rule one_frame_sub [OF inv(7)]) (use W w(1) in \<open>auto split: if_splits\<close>)
  moreover have "f_pi_waiting ?st = wcount w_pi_queued (f_waits ?st)" using inv(6) n [of w_pi_queued] by simp
  ultimately show "futex_inv X ?st" using c t q fr inv(1) unfolding futex_inv_def by simp
qed

lemma queue_frame:
  assumes "futex_inv X st" "heap_get (f_heap st) a = Some f" "i \<in> set (fx_queue f)"
  obtains w where "heap_get (f_waits st) i = Some w" "w_futex w = a" "\<not> w_pi w" "frame_ok st i w" "futex_wait_is_live i st"
proof -
  obtain w where w: "heap_get (f_waits st) i = Some w" "w_futex w = a" "\<not> w_pi w"
    using futex_invD(4) [OF assms(1,2)] assms(3) by (auto simp: queue_ok_def)
  with futex_invD(5) [OF assms(1) w(1)] show ?thesis by (intro that) (auto simp: futex_wait_is_live_def frame_ok_def)
qed

lemma pi_queue_frame:
  assumes "futex_inv X st" "heap_get (f_heap st) a = Some f" "i \<in> set (fx_pi_queue f)"
  obtains w where "heap_get (f_waits st) i = Some w" "w_futex w = a" "w_pi_queued w" "\<not> w_pi_owned w" "frame_ok st i w" "futex_wait_is_live i st"
proof -
  obtain w where w: "heap_get (f_waits st) i = Some w" "w_futex w = a" "w_pi_queued w" "\<not> w_pi_owned w"
    using futex_invD(4) [OF assms(1,2)] assms(3) by (auto simp: queue_ok_def)
  with futex_invD(5) [OF assms(1) w(1)] show ?thesis by (intro that) (auto simp: futex_wait_is_live_def frame_ok_def)
qed

lemma requeue_loop_inv:
  assumes "futex_inv X st" "a \<in> set X" "b \<in> set X" "distinct is"
    and "heap_get (f_heap st) a = Some f" "set is \<subseteq> set (fx_queue f)"
  shows "futex_inv X (snd (futex_requeue_loop mx a b is n st))"
  using assms
proof (induction "is" arbitrary: n st f)
  case (Cons i "is")
  have live: "futex_wait_is_live i st" using queue_frame [OF Cons.prems(1,5), of i] Cons.prems(6) by auto
  show ?case
  proof (cases "mx \<le> n \<or> b = a")
    case True
    then show ?thesis using Cons live by auto
  next
    case False
    have i: "i \<in> set (fx_queue f)" using Cons.prems(6) by simp
    note one = requeue_one_inv [OF Cons.prems(1-3) _ Cons.prems(5) i]
    have "set is \<subseteq> set (removeAll i (fx_queue f))" using Cons.prems(4,6) by auto
    then show ?thesis
      using False live one Cons.prems(2-6) Cons.IH [OF one(2) Cons.prems(2,3), where f = "f\<lparr>fx_queue := removeAll i (fx_queue f), fx_refcount := fx_refcount f - 1\<rparr>"]
      by (simp add: futex_assert_def Let_def)
  qed
qed simp

lemma requeue_inv:
  assumes "futex_inv X st" "a \<in> set X" "b \<in> set X"
  shows "futex_inv X (snd (futex_requeue_waiters a b mx st))"
proof (cases "heap_get (f_heap st) a")
  case None
  then show ?thesis using assms by (simp add: futex_requeue_waiters_def futex_queue_of_def)
next
  case (Some f)
  then show ?thesis
    using requeue_loop_inv [OF assms, of "fx_queue f" f] futex_invD(4) [OF assms(1) Some]
    by (simp add: futex_requeue_waiters_def futex_queue_of_def queue_ok_def)
qed

lemma requeue_loop_sel [simp]:
  "f_tasks (snd (futex_requeue_loop mx a b is n st)) = f_tasks st"
  "f_store (snd (futex_requeue_loop mx a b is n st)) = f_store st"
  by (induction mx a b "is" n st rule: futex_requeue_loop.induct) (auto simp: Let_def futex_assert_def)

lemma requeue_sel [simp]:
  "f_tasks (snd (futex_requeue_waiters a b mx st)) = f_tasks st" "f_store (snd (futex_requeue_waiters a b mx st)) = f_store st"
  by (simp_all add: futex_requeue_waiters_def)

lemma futex_get_sel: "futex_get_unlocked env k st = (r, st') \<Longrightarrow> f_tasks st' = f_tasks st \<and> f_store st' = f_store st \<and> f_waits st' = f_waits st"
  by (auto simp: futex_get_unlocked_def heap_alloc_def split: option.splits if_splits prod.splits)

lemma put_two_inv: "futex_inv (b # a # X) st \<Longrightarrow> futex_inv X (futex_put_unlocked a (futex_put_unlocked b st))"
  by (intro futex_put_inv)

lemma wakelike_inv:
  assumes "futex_inv X st"
  shows "futex_inv X (snd (futex_wakelike env op uaddr wake_max requeue_max requeue_addr wmask st))"
proof -
  have seq: "futex_inv Y (futex_upd a (\<lambda>f. f\<lparr>fx_wake_seq := fx_wake_seq f + 1\<rparr>) s)" if "futex_inv Y s" for Y a s
    using that by (rule futex_inv_upd) auto
  note i = assms
  show ?thesis
  proof (cases "futex_get_unlocked env (futex_key_of env uaddr op) st")
    case (Pair r st1)
    show ?thesis
    proof (cases r)
      case None
      then show ?thesis using Pair futex_get_none i by (auto simp: futex_wakelike_def)
    next
      case (Some a)
      note g = futex_get_inv(1) [OF i Pair [unfolded Some]]
      have w: "futex_inv Y (snd (futex_wake_loop P mx a is n (futex_upd a (\<lambda>f. f\<lparr>fx_wake_seq := fx_wake_seq f + 1\<rparr>) s)))"
        if "futex_inv Y s" for Y P mx "is" n s using wake_loop_inv [OF seq [OF that]] .
      obtain r2 st2 where g2: "futex_get_unlocked env (futex_key_of env requeue_addr op) st1 = (r2, st2)" by fastforce
      have none: "st2 = st1" if "r2 = None" using futex_get_none g2 that by auto
      have two: "futex_inv (b # a # X) st2" if "r2 = Some b" for b using futex_get_inv(1) [OF g] g2 that by simp
      with none show ?thesis
        using Pair Some g2 g w
        by (auto simp: futex_wakelike_def Let_def case_prod_beta intro!: futex_put_inv requeue_inv split: option.split)
    qed
  qed
qed

lemma get_two_inv:
  assumes "futex_inv X st" "futex_get_two env k1 k2 st = (r, st')"
  shows "case r of None \<Rightarrow> futex_inv X st' | Some (a, b) \<Rightarrow> futex_inv (b # a # X) st'"
    and "f_tasks st' = f_tasks st"
proof -
  obtain r1 st1 where g1: "futex_get_unlocked env k1 st = (r1, st1)" by fastforce
  obtain r2 st2 where g2: "futex_get_unlocked env k2 st1 = (r2, st2)" by fastforce
  note none = futex_get_none [of env k1 st st1] futex_get_none [of env k2 st1 st2]
  show "case r of None \<Rightarrow> futex_inv X st' | Some (a, b) \<Rightarrow> futex_inv (b # a # X) st'"
  proof (cases r1)
    case None
    then show ?thesis using assms g1 none by (auto simp: futex_get_two_def)
  next
    case (Some a)
    note i1 = futex_get_inv(1) [OF assms(1) g1 [unfolded Some]]
    show ?thesis
    proof (cases r2)
      case None
      then show ?thesis using assms(2) Some g1 g2 none(2) futex_put_inv [OF i1] by (auto simp: futex_get_two_def)
    next
      case (Some b)
      then show ?thesis using assms(2) \<open>r1 = Some a\<close> g1 g2 futex_get_inv(1) [OF i1 g2 [unfolded Some]] by (auto simp: futex_get_two_def)
    qed
  qed
  show "f_tasks st' = f_tasks st"
    using assms(2) futex_get_sel [OF g1] futex_get_sel [OF g2] by (auto simp: futex_get_two_def g1 g2 split: option.splits)
qed

lemma wake_all_inv: "futex_inv X st \<Longrightarrow> futex_inv X (snd (futex_wake_all mx a st))"
  by (simp add: futex_wake_all_def wake_loop_inv)

lemma wake_op_inv:
  assumes "futex_inv X st"
  shows "futex_inv X (snd (futex_wake_op env uaddr op mx mx2 uaddr2 enc st))"
proof -
  obtain r st' where g: "futex_get_two env (futex_key_of env uaddr op) (futex_key_of env uaddr2 op) st = (r, st')" by fastforce
  show ?thesis
  proof (cases r)
    case None
    then show ?thesis using g get_two_inv [OF assms g] assms by (auto simp: futex_wake_op_def Let_def)
  next
    case (Some ab)
    obtain a b where ab: "ab = (a, b)" by fastforce
    then have i: "futex_inv (b # a # X) st'" using get_two_inv [OF assms g] Some by simp
    have w: "futex_inv (b # a # X) (snd (futex_wake_all mx a (st'\<lparr>f_store := m\<rparr>)))" for m using wake_all_inv i by simp
    show ?thesis
      using g Some ab i w wake_all_inv assms
      by (auto simp: futex_wake_op_def Let_def case_prod_beta intro!: put_two_inv split: option.split)
  qed
qed

lemma cmp_requeue_inv:
  assumes "futex_inv X st"
  shows "futex_inv X (snd (futex_cmp_requeue env uaddr op val uaddr2 val2 val3 st))"
    and "futex_inv X (snd (futex_cmp_requeue_pi env uaddr op val uaddr2 val2 val3 st))"
proof -
  obtain r st' where g: "futex_get_two env (futex_key_of env uaddr op) (futex_key_of env uaddr2 op) st = (r, st')" by fastforce
  have "futex_inv X (snd (futex_cmp_requeue env uaddr op val uaddr2 val2 val3 st)) \<and>
    futex_inv X (snd (futex_cmp_requeue_pi env uaddr op val uaddr2 val2 val3 st))"
  proof (cases r)
    case None
    then show ?thesis using g get_two_inv [OF assms g] by (simp add: futex_cmp_requeue_def futex_cmp_requeue_pi_def)
  next
    case (Some ab)
    obtain a b where ab: "ab = (a, b)" by fastforce
    then have i: "futex_inv (b # a # X) st'" using get_two_inv [OF assms g] Some by simp
    have q: "futex_inv (b # a # X) (snd (futex_requeue_waiters a b val2 s))" if "futex_inv (b # a # X) s" for s
      using that by (rule requeue_inv) auto
    show ?thesis
      using g Some ab i q wake_all_inv [OF i]
      by (auto simp: futex_cmp_requeue_def futex_cmp_requeue_pi_def Let_def case_prod_beta intro!: put_two_inv split: option.split)
  qed
  then show "futex_inv X (snd (futex_cmp_requeue env uaddr op val uaddr2 val2 val3 st))"
    "futex_inv X (snd (futex_cmp_requeue_pi env uaddr op val uaddr2 val2 val3 st))" by auto
qed

section \<open>PI locks\<close>

lemma pi_queue_remove_sel [simp]:
  "heap_get (f_heap (pi_queue_remove a i st)) b =
     (if b = a then map_option (fx_pi_queue_update (removeAll i)) (heap_get (f_heap st) a) else heap_get (f_heap st) b)"
  "f_hash (pi_queue_remove a i st) = f_hash st" "f_waits (pi_queue_remove a i st) = f_waits st"
  "f_tasks (pi_queue_remove a i st) = f_tasks st" "f_pi_waiting (pi_queue_remove a i st) = f_pi_waiting st"
  "f_store (pi_queue_remove a i st) = f_store st" "f_abort (pi_queue_remove a i st) = f_abort st"
  by (simp_all add: pi_queue_remove_def)

lemma pi_first_inv:
  assumes "futex_inv X st"
  shows "futex_pi_first_waiter a self st =
    (case heap_get (f_heap st) a of None \<Rightarrow> None | Some f \<Rightarrow> find (\<lambda>i. Some i \<noteq> self) (fx_pi_queue f), st)"
proof -
  have "futex_pi_first_loop self a is st = (find (\<lambda>i. Some i \<noteq> self) is, st)" if "\<And>i. i \<in> set is \<Longrightarrow> futex_wait_is_live i st" for "is"
    using that by (induction "is") auto
  moreover have "futex_wait_is_live i st" if "heap_get (f_heap st) a = Some f" "i \<in> set (fx_pi_queue f)" for f i
    using pi_queue_frame [OF assms that] by blast
  ultimately show ?thesis by (auto simp: futex_pi_first_waiter_def split: option.split)
qed

lemma pi_first_none:
  assumes "futex_inv X st"
  obtains "futex_pi_first_waiter a None st = (None, st)"
  | f i where "futex_pi_first_waiter a None st = (Some i, st)" "heap_get (f_heap st) a = Some f" "i \<in> set (fx_pi_queue f)" "hd (fx_pi_queue f) = i"
proof (cases "heap_get (f_heap st) a")
  case None
  then show ?thesis using that(1) pi_first_inv [OF assms] by simp
next
  case (Some f)
  then show ?thesis using that pi_first_inv [OF assms, of a None] by (cases "fx_pi_queue f") auto
qed

lemma pi_grant_inv:
  assumes "futex_inv X st" "heap_get (f_waits st) i = Some w" "w_futex w = a" "w_pi_queued w"
  shows "futex_inv X (wait_upd i (w_pi_owned_update (\<lambda>_. True)) (pi_queue_remove a i st))" (is "futex_inv X ?st")
proof -
  note inv = futex_invD [OF assms(1)]
  obtain f where f: "heap_get (f_heap st) a = Some f"
    using countedD(3) [OF inv(2), of a] wcount_pos [OF assms(2), of "\<lambda>w. w_futex w = a"] assms(3) by (auto simp: futex_refs_def)
  have W: "heap_get (f_waits ?st) j = (if j = i then Some (w\<lparr>w_pi_owned := True\<rparr>) else heap_get (f_waits st) j)" for j using assms(2) by simp
  have n: "wcount P (f_waits ?st) = wcount P (f_waits st)" if "\<And>w. P (w\<lparr>w_pi_owned := True\<rparr>) = P w" for P
    using wcount_put [OF assms(2), of P "w\<lparr>w_pi_owned := True\<rparr>"] that assms(2) by (simp add: wait_upd_def split: if_splits)
  have c: "counted fx_refcount (f_heap (pi_queue_remove a i st)) (futex_refs X ?st)"
  proof (rule counted_cong [of _ _ "futex_refs X st"])
    show "counted fx_refcount (f_heap (pi_queue_remove a i st)) (futex_refs X st)"
      using f counted_put [OF inv(2) f, of "fx_pi_queue_update (removeAll i) f"] by (simp add: pi_queue_remove_def futex_upd_def)
    show "futex_refs X st b = futex_refs X ?st b" for b by (simp add: futex_refs_def n del: wait_upd_sel(1))
  qed
  have t: "table_ok ?st" by (rule table_ok_cong [OF inv(3)]) (auto simp: option.map_comp o_def)
  have q: "queue_ok ?st b g" if "heap_get (f_heap ?st) b = Some g" for b g
  proof -
    have "i \<notin> set (fx_pi_queue y)" if "heap_get (f_heap st) d = Some y" "d \<noteq> a" for d y
      using inv(4) [OF that(1)] assms(2,3) that(2) by (auto simp: queue_ok_def)
    moreover have "i \<notin> set (fx_queue f)"
      using queue_frame [OF assms(1) f, of i] assms(2,4) inv(5) [OF assms(2)] by (auto simp: frame_ok_def)
    ultimately show ?thesis
      using that inv(4) [of b] inv(4) [OF f] f assms(2,3) unfolding queue_ok_def W
      by (auto simp: distinct_removeAll split: if_splits)
  qed
  have fr: "frame_ok ?st j v" if "heap_get (f_waits ?st) j = Some v" for j v
    using that inv(5) [of j] inv(5) [OF assms(2)] assms(3,4) unfolding W by (auto simp: frame_ok_def split: if_splits)
  have "one_frame (f_waits ?st)" by (rule one_frame_sub [OF inv(7)]) (use W assms(2) in \<open>auto split: if_splits\<close>)
  moreover have "f_pi_waiting ?st = wcount w_pi_queued (f_waits ?st)" using inv(6) n [of w_pi_queued] by simp
  ultimately show ?thesis using c t q fr inv(1) unfolding futex_inv_def by simp
qed

lemma pi_finish_inv:
  assumes "futex_inv X st" "heap_get (f_waits st) i = Some w" "w_pi w"
  shows "futex_inv X (snd (futex_lock_pi_finish r i st))"
proof -
  have offq: "i \<notin> set (fx_queue f)" if "heap_get (f_heap st) (w_futex w) = Some f" for f
    using queue_frame [OF assms(1) that, of i] assms(2,3) by auto
  show ?thesis
  proof (cases "w_pi_queued w \<and> \<not> w_pi_owned w")
    case True
    let ?g = "wait_upd i (w_pi_owned_update (\<lambda>_. True)) (pi_queue_remove (w_futex w) i st)"
    have g: "futex_inv X ?g" using pi_grant_inv [OF assms(1,2)] True by simp
    have e: "heap_free (f_waits ?g) i = heap_free (f_waits st) i"
      using assms(2) by (simp add: wait_upd_def heap_free_def heap_put_def)
    have "i \<notin> set (fx_queue f)" if "heap_get (f_heap ?g) (w_futex (w\<lparr>w_pi_owned := True\<rparr>)) = Some f" for f
      using that offq by auto
    from futex_inv_free_frame [OF g _ this]
    have "futex_inv (w_futex w # X) (?g\<lparr>f_pi_waiting := f_pi_waiting st - 1, f_waits := heap_free (f_waits st) i\<rparr>)"
      unfolding e using assms(2) True by simp
    moreover have "?g\<lparr>f_pi_waiting := n, f_waits := ws\<rparr> = pi_queue_remove (w_futex w) i st\<lparr>f_pi_waiting := n, f_waits := ws\<rparr>" for n ws
      using assms(2) by (simp add: wait_upd_def)
    ultimately show ?thesis using True assms(2) futex_put_inv by (simp add: futex_lock_pi_finish_def Let_def)
  next
    case False
    then have "futex_inv (w_futex w # X) (st\<lparr>f_pi_waiting := f_pi_waiting st - (if w_pi_queued w then 1 else 0), f_waits := heap_free (f_waits st) i\<rparr>)"
      using futex_inv_free_frame [OF assms(1,2) offq] by auto
    moreover have "st\<lparr>f_pi_waiting := f_pi_waiting st, f_waits := ws\<rparr> = st\<lparr>f_waits := ws\<rparr>" for ws by (cases st) simp
    ultimately show ?thesis using False assms(2) futex_put_inv by (auto simp: futex_lock_pi_finish_def Let_def split: if_splits)
  qed
qed

lemma futex_cas_st: "futex_cas env race u e d st = (r, st') \<Longrightarrow> \<exists>m. st' = st\<lparr>f_store := m\<rparr>"
  by (cases st) (auto simp: futex_cas_def Let_def split: option.splits if_splits)

lemma futex_cas_snd: "\<exists>m. snd (futex_cas env race u e d st) = st\<lparr>f_store := m\<rparr>"
  using futex_cas_st [OF prod.collapse [symmetric]] .

lemma futex_cas_sel [simp]:
  "futex_inv X (snd (futex_cas env race u e d st)) = futex_inv X st" "f_waits (snd (futex_cas env race u e d st)) = f_waits st"
  "f_tasks (snd (futex_cas env race u e d st)) = f_tasks st" "f_heap (snd (futex_cas env race u e d st)) = f_heap st"
  using futex_cas_snd [of env race u e d st] by auto

lemma futex_cas_again: "futex_cas env None u e d st = (r, st') \<Longrightarrow> futex_load env u st = Some e \<Longrightarrow>
    user_ptr env True u = user_ptr env False u \<Longrightarrow> r \<noteq> Some EAGAIN"
  by (auto simp: futex_cas_def futex_load_def split: option.splits if_splits)

definition pass_ok :: "nat list \<Rightarrow> fstate \<Rightarrow> 'a option \<times> fstate \<Rightarrow> bool" where
  "pass_ok X st r \<longleftrightarrow> futex_inv X (snd r) \<and> (fst r = None \<longrightarrow> (\<exists>m. snd r = st\<lparr>f_store := m\<rparr>))"

lemma pi_ret_ok: "futex_inv X s \<Longrightarrow> heap_get (f_waits s) i = Some w \<Longrightarrow> w_pi w \<Longrightarrow> pass_ok X st (futex_lock_pi_ret r i s)"
  using pi_finish_inv by (simp add: pass_ok_def futex_lock_pi_ret_def case_prod_beta)

lemma pi_contended_ok:
  assumes "futex_inv X s" "heap_get (f_waits s) i = Some w" "w_pi w"
  shows "pass_ok X st (futex_lock_pi_contended i w val s)"
proof -
  have "futex_inv X (wait_upd i (w_pc_update (\<lambda>_. Pi_look o1 v)) s)" for o1 v
    using assms(1) by (rule futex_inv_wait_upd) (use assms in auto)
  then show ?thesis using pi_ret_ok [OF assms] by (simp add: futex_lock_pi_contended_def) (simp add: pass_ok_def)
qed

lemma pi_cas_ok:
  assumes "futex_inv X st" "\<And>m. pass_ok X st (A (st\<lparr>f_store := m\<rparr>))" "\<And>er m. pass_ok X st (B er (st\<lparr>f_store := m\<rparr>))"
  shows "pass_ok X st (case futex_cas env race u e d st of (None, s) \<Rightarrow> A s | (Some er, s) \<Rightarrow> if er = EAGAIN then (None, s) else B er s)"
proof -
  obtain m where "snd (futex_cas env race u e d st) = st\<lparr>f_store := m\<rparr>" using futex_cas_snd by blast
  then show ?thesis
    using assms by (cases "futex_cas env race u e d st") (auto simp: pass_ok_def split: option.split)
qed

lemma pi_free_ok:
  assumes "futex_inv X st" "heap_get (f_waits st) i = Some w" "w_pi w"
  shows "pass_ok X st (futex_lock_pi_free env race i w val st)"
proof -
  obtain other where "(if w_pi_queued w then (Some i, st) else futex_pi_first_waiter (w_futex w) (Some i) st) = (other, st)"
    by (cases "w_pi_queued w") (auto simp: pi_first_inv [OF assms(1)])
  then show ?thesis
    unfolding futex_lock_pi_free_def Let_def by (simp only: prod.case) (intro pi_cas_ok assms(1) pi_ret_ok, use assms in simp_all)
qed

lemma pi_pass_ok:
  assumes "futex_inv X st" "heap_get (f_waits st) i = Some w" "w_pi w"
  shows "pass_ok X st (futex_lock_pi_pass env race i st)"
proof -
  have "pass_ok X st (case futex_cas env race (w_uaddr w) val (val OR FUTEX_WAITERS) st of
      (None, s) \<Rightarrow> futex_lock_pi_contended i w (val OR FUTEX_WAITERS) s
    | (Some e, s) \<Rightarrow> if e = EAGAIN then (None, s) else futex_lock_pi_ret (Inl e) i s)" for val
    by (intro pi_cas_ok assms(1) pi_ret_ok pi_contended_ok) (use assms in simp_all)
  then show ?thesis
    using pi_ret_ok [OF assms] pi_free_ok [OF assms] pi_contended_ok [OF assms] assms(2)
    unfolding futex_lock_pi_pass_def Let_def by (simp split: option.split)
qed

lemma pi_loop_inv:
  assumes "futex_inv X st" "heap_get (f_waits st) i = Some w" "w_pi w"
  shows "futex_inv X (snd (futex_lock_pi_loop env rs i st))"
  using assms
proof (induction rs arbitrary: st)
  case Nil
  then show ?case using pi_pass_ok [OF Nil, of env None] by (auto simp: pass_ok_def split: prod.split option.split)
next
  case (Cons r rs)
  obtain o1 st1 where p: "futex_lock_pi_pass env (Some r) i st = (o1, st1)" by fastforce
  then have "futex_inv X st1" "o1 = None \<longrightarrow> (\<exists>m. st1 = st\<lparr>f_store := m\<rparr>)" using pi_pass_ok [OF Cons.prems, of env "Some r"] by (auto simp: pass_ok_def)
  then show ?case using p Cons by (auto split: option.split)
qed

lemma lock_pi_inv:
  assumes "futex_inv X st" "idle (fe_task env) st"
  shows "futex_inv X (snd (futex_lock_pi env uaddr op timeout trylock st))"
proof (cases "futex_get_unlocked env (futex_key_of env uaddr op) st")
  case (Pair r st1)
  show ?thesis
  proof (cases r)
    case None
    then show ?thesis using Pair futex_get_none assms(1) by (auto simp: futex_lock_pi_def)
  next
    case (Some a)
    note g = futex_get_inv [OF assms(1) Pair [unfolded Some]]
    have id: "idle (fe_task env) st1" using assms(2) g by (simp add: idle_def)
    have new: "futex_inv X (snd (futex_lock_pi_loop env rs (length (f_waits st1)) (st1\<lparr>f_waits := f_waits st1 @ [Some w]\<rparr>)))"
      if w: "w_futex w = a" "w_task w = fe_task env" "w_magic w = FUTEX_WAIT_MAGIC" "\<not> w_pi_queued w" "\<not> w_pi_owned w" "w_pi w" "w_pc w = Pi_sleep" for w rs
    proof -
      have "futex_inv X (st1\<lparr>f_waits := fst (heap_alloc (f_waits st1) w)\<rparr>)"
        by (rule futex_inv_new_frame [OF g(1)]) (use w id in auto)
      from pi_loop_inv [OF this, of "length (f_waits st1)" w] w(6) show ?thesis by (simp add: heap_get_alloc) (simp add: heap_alloc_def)
    qed
    show ?thesis unfolding futex_lock_pi_def Pair Some prod.case option.case Let_def heap_alloc_def by (rule new) simp_all
  qed
qed

lemma pi_enqueue_inv:
  assumes "futex_inv X st" "heap_get (f_waits st) i = Some w" "w_futex w = a" "w_pi w" "\<not> w_pi_queued w"
  shows "futex_inv X ((wait_upd i (w_pi_queued_update (\<lambda>_. True)) (futex_upd a (\<lambda>f. f\<lparr>fx_pi_queue := fx_pi_queue f @ [i]\<rparr>) st))
    \<lparr>f_pi_waiting := f_pi_waiting st + 1\<rparr>)" (is "futex_inv X ?st")
proof -
  note inv = futex_invD [OF assms(1)]
  obtain f where f: "heap_get (f_heap st) a = Some f"
    using countedD(3) [OF inv(2), of a] wcount_pos [OF assms(2), of "\<lambda>w. w_futex w = a"] assms(3) by (auto simp: futex_refs_def)
  have W: "heap_get (f_waits ?st) j = (if j = i then Some (w\<lparr>w_pi_queued := True\<rparr>) else heap_get (f_waits st) j)" for j using assms(2) by simp
  have n: "wcount P (f_waits ?st) + (if P w then 1 else 0) = wcount P (f_waits st) + (if P (w\<lparr>w_pi_queued := True\<rparr>) then 1 else 0)" for P
    using wcount_put [OF assms(2), of P "w\<lparr>w_pi_queued := True\<rparr>"] assms(2) by (simp add: wait_upd_def)
  have "futex_refs X st b = futex_refs X ?st b" for b using n [of "\<lambda>w. w_futex w = b"] by (auto simp: futex_refs_def)
  moreover have "counted fx_refcount (f_heap ?st) (futex_refs X st)"
    using f counted_put [OF inv(2) f, of "f\<lparr>fx_pi_queue := fx_pi_queue f @ [i]\<rparr>"] by (simp add: futex_upd_def)
  ultimately have c: "counted fx_refcount (f_heap ?st) (futex_refs X ?st)" using counted_cong by blast
  have t: "table_ok ?st" by (rule table_ok_cong [OF inv(3)]) (auto simp: option.map_comp o_def)
  have off: "i \<notin> set (fx_pi_queue y)" "i \<notin> set (fx_queue y)" if "heap_get (f_heap st) d = Some y" for d y
    using inv(4) [OF that] assms(2-5) by (auto simp: queue_ok_def)
  have owned: "\<not> w_pi_owned w" using inv(5) [OF assms(2)] assms(5) by (auto simp: frame_ok_def)
  have q: "queue_ok ?st b g" if "heap_get (f_heap ?st) b = Some g" for b g
    using that inv(4) [of b] inv(4) [OF f] f assms(2-5) off owned unfolding queue_ok_def W by (auto split: if_splits)
  have fr: "frame_ok ?st j v" if "heap_get (f_waits ?st) j = Some v" for j v
    using that inv(5) [of j] inv(5) [OF assms(2)] assms(3,4) f unfolding W by (auto simp: frame_ok_def split: if_splits)
  have "one_frame (f_waits ?st)" by (rule one_frame_sub [OF inv(7)]) (use W assms(2) in \<open>auto split: if_splits\<close>)
  moreover have "f_pi_waiting ?st = wcount w_pi_queued (f_waits ?st)" using inv(6) n [of w_pi_queued] assms(5) by simp
  ultimately show ?thesis using c t q fr inv(1) unfolding futex_inv_def by simp
qed

lemma pi_looked_inv:
  assumes "futex_inv X st" "heap_get (f_waits st) i = Some w" "w_pi w"
  shows "futex_inv X (snd (futex_lock_pi_looked env owner val i st))"
proof -
  have cas: "futex_inv X (snd (futex_lock_pi_finish r i (snd (futex_cas env race u e d st))))"
    "futex_inv X (snd (futex_lock_pi_loop env rs i (snd (futex_cas env race u e d st))))" for r race u e d rs
    using pi_finish_inv [of X "snd (futex_cas env race u e d st)" i w] pi_loop_inv [of X "snd (futex_cas env race u e d st)" i w] assms by auto
  let ?st1 = "futex_upd (w_futex w) (fx_pi_owner_update (\<lambda>_. owner)) st"
  let ?st2 = "if w_pi_queued w then ?st1
    else (wait_upd i (w_pi_queued_update (\<lambda>_. True)) (futex_upd (w_futex w) (\<lambda>f. f\<lparr>fx_pi_queue := fx_pi_queue f @ [i]\<rparr>) ?st1))
      \<lparr>f_pi_waiting := f_pi_waiting ?st1 + 1\<rparr>"
  have i1: "futex_inv X ?st1" using assms(1) by (rule futex_inv_upd) auto
  have i2: "futex_inv X ?st2" using i1 pi_enqueue_inv [OF i1, of i w "w_futex w"] assms(2,3) by auto
  obtain w2 where w2: "heap_get (f_waits ?st2) i = Some w2" "w_pi w2" using assms(2,3) by (cases "w_pi_queued w") auto
  have i3: "futex_inv X (wait_upd i (\<lambda>w. w\<lparr>w_notified := False, w_pc := Pi_sleep\<rparr>) ?st2)"
    using i2 by (rule futex_inv_wait_upd) (use w2 in auto)
  note fin = pi_finish_inv [OF i2 w2]
  show ?thesis
    unfolding futex_lock_pi_looked_def Let_def assms(2) option.case
    using pi_loop_inv [OF assms] pi_finish_inv [OF assms] cas i3 fin
    by (simp add: case_prod_beta split: option.split)
qed

lemma pi_woken_inv:
  assumes "futex_inv X st" "heap_get (f_waits st) i = Some w" "w_pi w"
  shows "futex_inv X (snd (futex_lock_pi_woken env i st))"
  using assms(2) pi_finish_inv [OF assms] pi_loop_inv [OF assms] by (simp add: futex_lock_pi_woken_def)

lemma pass_ok_if: "futex_inv X st \<Longrightarrow> pass_ok X st r \<Longrightarrow> pass_ok X st (if b then (Some e, st) else r)"
  by (simp add: pass_ok_def)

lemma pass_ok_Some: "futex_inv X s \<Longrightarrow> pass_ok X st (Some e, s)"
  by (simp add: pass_ok_def)

lemma unlock_pass_ok:
  assumes "futex_inv X st"
  shows "pass_ok X st (futex_unlock_pi_pass env race uaddr a st)"
proof (cases "futex_load env uaddr st")
  case None
  then show ?thesis using assms by (simp add: futex_unlock_pi_pass_def pass_ok_def)
next
  case (Some val)
  from assms show ?thesis
  proof (cases rule: pi_first_none [where a = a])
    case 1
    then show ?thesis
      unfolding futex_unlock_pi_pass_def Some option.case 1 Let_def prod.case
      by (intro pass_ok_if pi_cas_ok pass_ok_Some assms) (use assms in simp_all)
  next
    case (2 f i)
    obtain w where w: "heap_get (f_waits st) i = Some w" "w_futex w = a" "w_pi_queued w" using pi_queue_frame [OF assms 2(2,3)] by blast
    have grant: "futex_inv X (wait_notify i (futex_upd a (fx_pi_owner_update (\<lambda>_. w_tid w))
        (wait_upd i (w_pi_owned_update (\<lambda>_. True)) (pi_queue_remove a i (st\<lparr>f_store := m\<rparr>)))))" for m
      by (intro notify_inv futex_inv_upd pi_grant_inv [of X _ i w]) (use assms w in auto)
    then show ?thesis
      unfolding futex_unlock_pi_pass_def Some option.case 2(1) Let_def prod.case w(1)
      by (intro pass_ok_if pi_cas_ok pass_ok_Some assms) (use assms in simp_all)
  qed
qed

lemma unlock_pi_inv:
  assumes "futex_inv X st"
  shows "futex_inv X (snd (futex_unlock_pi env uaddr op st))"
proof -
  have loop: "futex_inv Y (snd (futex_unlock_pi_loop env rs uaddr a s))" if "futex_inv Y s" for Y a rs s
    using that
  proof (induction rs arbitrary: s)
    case Nil
    then show ?case using unlock_pass_ok [OF Nil, of env None uaddr a] by (auto simp: pass_ok_def split: prod.split option.split)
  next
    case (Cons r rs)
    obtain o1 st1 where p: "futex_unlock_pi_pass env (Some r) uaddr a s = (o1, st1)" by fastforce
    then have "futex_inv Y st1" using unlock_pass_ok [OF Cons.prems, of env "Some r" uaddr a] by (auto simp: pass_ok_def)
    then show ?case using p Cons by (auto split: option.split)
  qed
  obtain r st1 where g: "futex_get_unlocked env (futex_key_of env uaddr op) st = (r, st1)" by fastforce
  show ?thesis
  proof (cases r)
    case None
    then show ?thesis using g futex_get_none assms by (auto simp: futex_unlock_pi_def)
  next
    case (Some a)
    then show ?thesis using g futex_put_inv loop [OF futex_get_inv(1) [OF assms g [unfolded Some]]]
      by (simp add: futex_unlock_pi_def case_prod_beta)
  qed
qed

lemma exit_pi_inv: "futex_inv X st \<Longrightarrow> futex_inv X (futex_exit_pi tid st)"
proof -
  have "futex_inv X (futex_exit_pi_loop tid as s)" if "futex_inv X s" for "as" s
    using that
  proof (induction "as" arbitrary: s)
    case (Cons a "as")
    then show ?case using pi_first_inv [OF Cons.prems] notify_inv [OF Cons.prems] by (auto split: option.split)
  qed simp
  then show "futex_inv X st \<Longrightarrow> futex_inv X (futex_exit_pi tid st)" by (simp add: futex_exit_pi_def)
qed

section \<open>Robust lists and the end of a thread\<close>

lemma put_f_tasks [simp]: "f_tasks (snd (futex_wakelike env op u m1 m2 u2 wm st)) = f_tasks st"
proof -
  obtain r st1 where g: "futex_get_unlocked env (futex_key_of env u op) st = (r, st1)" by fastforce
  obtain r2 st2 where g2: "futex_get_unlocked env (futex_key_of env u2 op) st1 = (r2, st2)" by fastforce
  show ?thesis using futex_get_sel [OF g] futex_get_sel [OF g2] g g2
    by (auto simp: futex_wakelike_def Let_def case_prod_beta split: option.split)
qed

lemma wake_tasks [simp]: "f_tasks (snd (futex_wake env u n st)) = f_tasks st"
  by (simp add: futex_wake_def)

lemma wake_inv: "futex_inv X st \<Longrightarrow> futex_inv X (snd (futex_wake env u n st))"
  by (simp add: futex_wake_def wakelike_inv)

lemma handle_death_inv: "futex_inv X st \<Longrightarrow> futex_inv X (robust_handle_death env u tid pi st)"
  by (auto simp: robust_handle_death_def Let_def case_prod_beta wake_inv split: option.split)

lemma handle_death_tasks [simp]: "f_tasks (robust_handle_death env u tid pi st) = f_tasks st"
  by (auto simp: robust_handle_death_def Let_def case_prod_beta split: option.split)

lemma robust_walk_inv:
  "futex_inv X st \<Longrightarrow> futex_inv X (snd (robust_walk env is64 off hed pend n e pi st))"
  "f_tasks (snd (robust_walk env is64 off hed pend n e pi st)) = f_tasks st"
  by (induction env is64 off hed pend n e pi st rule: robust_walk.induct)
    (auto simp: Let_def handle_death_inv split: option.split)

lemma exit_robust_inv:
  "futex_inv X st \<Longrightarrow> futex_inv X (futex_exit_robust_list env st)" "f_tasks (futex_exit_robust_list env st) = f_tasks st"
  by (auto simp: futex_exit_robust_list_def Let_def case_prod_beta handle_death_inv robust_walk_inv split: option.split)

lemma exit_pi_tasks [simp]: "f_tasks (futex_exit_pi tid st) = f_tasks st"
proof -
  have first: "f_tasks (snd (futex_pi_first_loop self a is s)) = f_tasks s" for self a "is" s
    by (induction self a "is" s rule: futex_pi_first_loop.induct) auto
  then have "f_tasks (snd (futex_pi_first_waiter a self s)) = f_tasks s" for a self s
    by (simp add: futex_pi_first_waiter_def split: option.split)
  then have "f_tasks (futex_exit_pi_loop tid as s) = f_tasks s" for "as" s
    by (induction "as" arbitrary: s) (auto simp: wait_notify_def case_prod_beta split: option.split)
  then show ?thesis by (simp add: futex_exit_pi_def)
qed

lemma futex_exit_inv:
  assumes "futex_inv X st" "fe_task env < length (f_tasks st)"
  shows "futex_inv X (futex_exit env clear_tid st)"
  unfolding futex_exit_def Let_def case_prod_beta
  by (rule release_park_inv) (use assms in \<open>auto simp: exit_robust_inv exit_pi_inv wake_inv\<close>)

end
