(* ===== verification/Futex_Reach.thy ===== *)
theory Futex_Reach
  imports Futex_Ops
begin

text \<open>
  The steps of all tasks on futexes, and that every state they reach satisfies the invariant.
\<close>

section \<open>The system calls\<close>

lemma wait_finish_tasks [simp]: "length (f_tasks (snd (futex_wait_finish err i st))) = length (f_tasks st)"
  by (auto simp: futex_wait_finish_def Let_def split: option.split sum.split errno.split)

lemma wait_loop_tasks [simp]: "length (f_tasks (snd (futex_wait_loop env i st))) = length (f_tasks st)"
  by (simp add: futex_wait_loop_def Let_def split: option.split prod.split)

lemma wait_woken_tasks [simp]: "length (f_tasks (snd (futex_wait_woken env err i st))) = length (f_tasks st)"
  by (simp add: futex_wait_woken_def split: option.split)

lemma wait_block_tasks [simp]:
  "length (f_tasks (snd (futex_wait_block env uaddr val timeout bitset resumed a st))) = length (f_tasks st)"
  by (auto simp: futex_wait_block_def Let_def split: option.split prod.split)

lemma wait_masked_tasks [simp]:
  "length (f_tasks (snd (futex_wait_masked env uaddr op val timeout bitset st))) = length (f_tasks st)"
proof -
  obtain r st1 where g: "futex_get_unlocked env (futex_key_of env uaddr op) st = (r, st1)" by fastforce
  show ?thesis using futex_get_sel [OF g] by (auto simp: futex_wait_masked_def g Let_def split: option.split)
qed

lemma snd_returning [simp]: "snd (returning r) = snd r"
  by (cases r) simp

lemma sys_futex_inv:
  assumes "futex_inv X st" "idle (fe_task env) st"
  shows "futex_inv X (snd (sys_futex_common env uaddr op val tv uaddr2 val3 t64 st))"
proof -
  have t: "fe_task env < length (f_tasks st)" using assms(2) by (simp add: idle_def)
  have w: "futex_inv X (snd (futex_wait_ret env (futex_wait_masked env uaddr op val timeout bs st)))" for timeout bs
    by (rule wait_ret_inv [OF wait_masked_inv [OF assms]]) (simp add: t)
  show ?thesis
    unfolding sys_futex_common_def Let_def
    by (simp add: assms(1) w wakelike_inv [OF assms(1)] cmp_requeue_inv [OF assms(1)] wake_op_inv [OF assms(1)]
        lock_pi_inv [OF assms] unlock_pi_inv [OF assms(1)] split: sum.split)
qed

lemma resume_inv:
  assumes "futex_inv X st" "heap_get (f_waits st) i = Some w" "fe_task env = w_task w"
  shows "futex_inv X (snd (futex_resume env err i st))"
proof -
  note fr = futex_invD(5) [OF assms(1,2)]
  have t: "fe_task env < length (f_tasks st)" using fr assms(3) by (simp add: frame_ok_def)
  show ?thesis
  proof (cases "w_pi w")
    case True
    then show ?thesis using fr assms(2) pi_looked_inv [OF assms(1,2)] pi_woken_inv [OF assms(1,2)]
      by (auto simp: futex_resume_def frame_ok_def split: wait_pc.split)
  next
    case False
    then have "w_pc w = Wait_spin \<or> w_pc w = Wait_sleep" using fr by (auto simp: frame_ok_def)
    then show ?thesis
      using assms(2) t wait_ret_inv [OF wait_loop_inv [OF assms(1,2) False], of env env] wait_ret_inv [OF wait_woken_inv [OF assms(1,2) False], of env env err]
      by (auto simp: futex_resume_def)
  qed
qed

section \<open>Reachable states\<close>

text \<open>
  A step: a system call of a task that is not waiting, the continuation of a waiting one, a signal, the exit or
  creation of a task, and any change of memory by guest instructions.
\<close>

inductive fstep :: "fstate \<Rightarrow> fstate \<Rightarrow> bool" where
  call: "idle (fe_task env) st \<Longrightarrow> fstep st (snd (sys_futex_common env uaddr op val tv uaddr2 val3 t64 st))"
| resume: "heap_get (f_waits st) i = Some w \<Longrightarrow> fe_task env = w_task w \<Longrightarrow> fstep st (snd (futex_resume env err i st))"
| interrupt: "fstep st (futex_interrupt i st)"
| handler: "fstep st (futex_handler t st)"
| guest: "fstep st (st\<lparr>f_store := m\<rparr>)"
| set_robust: "fstep st (snd (sys_set_robust_list_common env rl len abi st))"
| get_robust: "fstep st (snd (sys_get_robust_list_common env pid rl lp abi st))"
| exits: "idle (fe_task env) st \<Longrightarrow> fstep st (futex_exit env clear_tid st)"
| create: "fstep st (futex_task_create t st)"

inductive freach :: "fstate \<Rightarrow> bool" where
  init: "freach (init_futex_hash m)"
| step: "freach st \<Longrightarrow> fstep st st' \<Longrightarrow> freach st'"

lemma init_inv: "futex_inv [] (init_futex_hash m)"
  by (simp add: futex_inv_def init_futex_hash_def counted_def heap_get_def futex_refs_def wcount_def table_ok_def one_frame_def)

lemma futex_task_create_inv: "futex_inv X st \<Longrightarrow> futex_inv X (futex_task_create t st)"
  by (auto simp: futex_inv_def futex_task_create_def futex_refs_def [abs_def] table_ok_def queue_ok_def frame_ok_def nth_append intro: less_SucI)

lemma task_keep_inv:
  assumes "futex_inv X st" "\<And>t. ft_park (g t) = ft_park t"
  shows "futex_inv X (task_upd t g st)"
proof (cases "t < length (f_tasks st)")
  case True
  show ?thesis using assms(1) True
    by (rule futex_inv_task_upd) (use assms(2) futex_invD(5) [OF assms(1)] in \<open>auto simp: frame_ok_def\<close>)
next
  case False
  then show ?thesis using assms(1) by (simp add: task_upd_def)
qed

lemma fstep_inv: "fstep st st' \<Longrightarrow> futex_inv [] st \<Longrightarrow> futex_inv [] st'"
proof (induction rule: fstep.induct)
  case (interrupt st i)
  then show ?case unfolding futex_interrupt_def
    by (rule futex_inv_wait_upd) (use futex_invD(5) [OF interrupt] in \<open>auto simp: frame_ok_def\<close>)
next
  case (set_robust env rl len abi st)
  then show ?case by (simp add: sys_set_robust_list_common_def task_keep_inv)
next
  case (get_robust env pid rl lp abi st)
  then show ?case by (simp add: sys_get_robust_list_common_def Let_def case_prod_beta)
next
  case (exits env st clear_tid)
  then show ?case by (simp add: futex_exit_inv idle_def)
qed (simp_all add: sys_futex_inv resume_inv futex_handler_def task_keep_inv futex_task_create_inv)

lemma freach_inv: "freach st \<Longrightarrow> futex_inv [] st"
  by (induction rule: freach.induct) (auto simp: init_inv intro: fstep_inv)

end
