(* ===== verification/Futex_Queue.thy ===== *)
theory Futex_Queue
  imports Futex_Reach
begin

text \<open>
  The table of futexes refined to a function from keys to queues of waiters, and what waking and moving
  do to it.
\<close>

definition futex_queue :: "futex_key \<Rightarrow> fstate \<Rightarrow> nat list" where
  "futex_queue k st = (case futex_find k st of None \<Rightarrow> [] | Some a \<Rightarrow> futex_queue_of a st)"

lemma futex_queue_iff:
  assumes "table_ok st" "heap_get (f_heap st) a = Some f"
  shows "futex_queue (fx_key f) st = fx_queue f"
proof -
  have "futex_find (fx_key f) st = Some a" using futex_find_iff [OF assms(1)] assms(2) by blast
  then show ?thesis using assms(2) by (simp add: futex_queue_def futex_queue_of_def)
qed

lemma futex_queue_none:
  assumes "table_ok st" "\<And>a f. heap_get (f_heap st) a = Some f \<Longrightarrow> fx_key f \<noteq> k"
  shows "futex_queue k st = []"
proof (cases "futex_find k st")
  case (Some a)
  then show ?thesis using futex_find_iff [OF assms(1)] assms(2) by blast
qed (simp add: futex_queue_def)

text \<open>Two tables in which futexes have the same keys and queues, up to futexes nobody waits on.\<close>

lemma futex_queue_eq:
  assumes "table_ok st" "table_ok st'"
    and "\<And>a f. heap_get (f_heap st) a = Some f \<Longrightarrow> fx_queue f \<noteq> [] \<Longrightarrow> \<exists>g. heap_get (f_heap st') a = Some g \<and> fx_key g = fx_key f \<and> fx_queue g = fx_queue f"
    and "\<And>a g. heap_get (f_heap st') a = Some g \<Longrightarrow> fx_queue g \<noteq> [] \<Longrightarrow> \<exists>f. heap_get (f_heap st) a = Some f \<and> fx_key f = fx_key g \<and> fx_queue f = fx_queue g"
  shows "futex_queue k st' = futex_queue k st"
proof (cases "\<exists>a f. heap_get (f_heap st) a = Some f \<and> fx_key f = k \<and> fx_queue f \<noteq> []")
  case True
  then obtain a f where f: "heap_get (f_heap st) a = Some f" "fx_key f = k" "fx_queue f \<noteq> []" by blast
  then obtain g where "heap_get (f_heap st') a = Some g" "fx_key g = k" "fx_queue g = fx_queue f" using assms(3) by blast
  then show ?thesis using futex_queue_iff [OF assms(1) f(1)] futex_queue_iff [OF assms(2)] f(2) by metis
next
  case False
  have e: "futex_queue k st = []"
  proof (cases "\<exists>a f. heap_get (f_heap st) a = Some f \<and> fx_key f = k")
    case True
    then show ?thesis using False futex_queue_iff [OF assms(1)] by metis
  next
    case no: False
    then show ?thesis using futex_queue_none [OF assms(1)] by blast
  qed
  have "futex_queue k st' = []"
  proof (cases "\<exists>a f. heap_get (f_heap st') a = Some f \<and> fx_key f = k")
    case True
    then show ?thesis using False assms(4) futex_queue_iff [OF assms(2)] by metis
  next
    case no: False
    then show ?thesis using futex_queue_none [OF assms(2)] by blast
  qed
  with e show ?thesis by simp
qed

lemma futex_get_heap:
  assumes "futex_get_unlocked env k st = (Some a, st')"
  shows "heap_get (f_heap st) b = Some f \<Longrightarrow> \<exists>g. heap_get (f_heap st') b = Some g \<and> fx_key g = fx_key f \<and> fx_queue g = fx_queue f \<and> fx_wake_seq g = fx_wake_seq f"
    and "heap_get (f_heap st') b = Some g \<Longrightarrow> fx_queue g \<noteq> [] \<Longrightarrow> \<exists>f. heap_get (f_heap st) b = Some f \<and> fx_key f = fx_key g \<and> fx_queue f = fx_queue g"
proof -
  consider "st' = futex_upd a (fx_refcount_update Suc) st"
    | "f_heap st' = fst (heap_alloc (f_heap st) \<lparr>fx_refcount = 1, fx_key = k, fx_queue = [], fx_pi_queue = [], fx_pi_owner = 0, fx_wake_seq = 0\<rparr>)"
    using assms by (auto simp: futex_get_unlocked_def heap_alloc_def split: option.splits if_splits)
  note cases = this
  show "\<exists>g. heap_get (f_heap st') b = Some g \<and> fx_key g = fx_key f \<and> fx_queue g = fx_queue f \<and> fx_wake_seq g = fx_wake_seq f" if "heap_get (f_heap st) b = Some f"
    using cases that by cases (auto simp: heap_get_alloc)
  show "\<exists>f. heap_get (f_heap st) b = Some f \<and> fx_key f = fx_key g \<and> fx_queue f = fx_queue g" if "heap_get (f_heap st') b = Some g" "fx_queue g \<noteq> []"
    using cases that by cases (auto simp: heap_get_alloc split: if_splits)
qed

lemma futex_queue_get:
  assumes "futex_inv X st" "futex_get_unlocked env k st = (Some a, st')"
  shows "futex_queue k' st' = futex_queue k' st"
    and "\<exists>f. heap_get (f_heap st') a = Some f \<and> fx_key f = k \<and> fx_queue f = futex_queue k st"
proof -
  note g = futex_get_inv [OF assms]
  have t: "table_ok st" "table_ok st'" using futex_invD(3) [OF assms(1)] futex_invD(3) [OF g(1)] by auto
  show eq: "futex_queue k' st' = futex_queue k' st" for k'
    using t by (rule futex_queue_eq) (use futex_get_heap [OF assms(2)] in blast)+
  obtain f where f: "heap_get (f_heap st') a = Some f" "fx_key f = k" using g(5) by blast
  then show "\<exists>f. heap_get (f_heap st') a = Some f \<and> fx_key f = k \<and> fx_queue f = futex_queue k st"
    using futex_queue_iff [OF t(2) f(1)] eq [of k] by auto
qed

lemma futex_queue_put:
  assumes "futex_inv (a # X) st"
  shows "futex_queue k (futex_put_unlocked a st) = futex_queue k st"
proof (rule futex_queue_eq)
  show "table_ok st" using futex_invD(3) [OF assms] .
  show "table_ok (futex_put_unlocked a st)" using futex_invD(3) [OF futex_put_inv [OF assms]] .
next
  fix b f assume f: "heap_get (f_heap st) b = Some f" "fx_queue f \<noteq> []"
  have "fx_refcount f \<noteq> 1" if "b = a"
  proof -
    have "hd (fx_queue f) \<in> set (fx_queue f)" using f(2) by simp
    from queue_frame [OF assms f(1) this] obtain w where "heap_get (f_waits st) (hd (fx_queue f)) = Some w" "w_futex w = b" by blast
    then have "0 < wcount (\<lambda>w. w_futex w = a) (f_waits st)" using wcount_pos [where P = "\<lambda>w. w_futex w = a"] that by simp
    then show ?thesis using countedD(1) [OF futex_invD(2) [OF assms] f(1)] that by (simp add: futex_refs_def)
  qed
  then show "\<exists>g. heap_get (f_heap (futex_put_unlocked a st)) b = Some g \<and> fx_key g = fx_key f \<and> fx_queue g = fx_queue f"
    using f by auto
next
  fix b g assume "heap_get (f_heap (futex_put_unlocked a st)) b = Some g" "fx_queue g \<noteq> []"
  then show "\<exists>f. heap_get (f_heap st) b = Some f \<and> fx_key f = fx_key g \<and> fx_queue f = fx_queue g"
    by (auto split: if_splits option.splits)
qed

section \<open>Waking\<close>

definition matches :: "(u32 \<Rightarrow> bool) \<Rightarrow> fstate \<Rightarrow> nat \<Rightarrow> bool" where
  "matches P st i = (case heap_get (f_waits st) i of None \<Rightarrow> False | Some w \<Rightarrow> P (w_bitset w))"

text \<open>The frames \<open>is\<close> are woken: off the queue of \<open>a\<close> and notified; nothing else changes.\<close>

definition woken :: "nat \<Rightarrow> nat list \<Rightarrow> fstate \<Rightarrow> fstate \<Rightarrow> bool" where
  "woken a is st st' \<longleftrightarrow>
     (\<forall>b. heap_get (f_heap st') b = (if b = a then map_option (\<lambda>f. f\<lparr>fx_queue := filter (\<lambda>i. i \<notin> set is) (fx_queue f)\<rparr>) (heap_get (f_heap st) a)
       else heap_get (f_heap st) b)) \<and>
     (\<forall>i. heap_get (f_waits st') i = (if i \<in> set is then map_option (w_notified_update (\<lambda>_. True)) (heap_get (f_waits st) i)
       else heap_get (f_waits st) i)) \<and>
     f_hash st' = f_hash st \<and> f_tasks st' = f_tasks st \<and> f_store st' = f_store st"

lemma woken_Nil: "woken a [] st st"
  by (auto simp: woken_def intro: option.expand simp: option.map_ident_strong)

lemma filter_removeAll: "filter (\<lambda>j. j \<notin> A) (removeAll i q) = filter (\<lambda>j. j \<noteq> i \<and> j \<notin> A) q"
  by (induction q) auto

lemma woken_Cons: "woken a is (queue_remove a i (wait_notify i st)) st' \<Longrightarrow> woken a (i # is) st st'"
  unfolding woken_def wait_notify_def
  by (cases "heap_get (f_heap st) a"; cases "heap_get (f_waits st) i")
    (simp_all add: filter_removeAll)

lemma wake_loop_spec:
  assumes "futex_inv X st" "heap_get (f_heap st) a = Some f" "set is \<subseteq> set (fx_queue f)" "distinct is"
  shows "fst (futex_wake_loop P mx a is n st) = n + length (take (mx - n) (filter (matches P st) is)) \<and>
    woken a (take (mx - n) (filter (matches P st) is)) st (snd (futex_wake_loop P mx a is n st))"
  using assms
proof (induction "is" arbitrary: n st f)
  case Nil
  then show ?case by (simp add: woken_Nil)
next
  case (Cons i "is")
  obtain w where w: "heap_get (f_waits st) i = Some w" "futex_wait_is_live i st" using queue_frame [OF Cons.prems(1,2), of i] Cons.prems(3) by auto
  consider "mx \<le> n" | "n < mx" "\<not> P (w_bitset w)" | "n < mx" "P (w_bitset w)" by linarith
  then show ?case
  proof cases
    case 1
    then show ?thesis by (simp add: woken_Nil)
  next
    case 2
    have "set is \<subseteq> set (fx_queue f)" "distinct is" using Cons.prems(3,4) by auto
    moreover have "filter (matches P st) (i # is) = filter (matches P st) is" using 2 w(1) by (simp add: matches_def)
    moreover have "futex_wake_loop P mx a (i # is) n st = futex_wake_loop P mx a is n st" using 2 w by simp
    ultimately show ?thesis using Cons.IH [OF Cons.prems(1,2)] by presburger
  next
    case 3
    let ?st = "queue_remove a i (wait_notify i st)"
    have inv: "futex_inv X ?st" using Cons.prems(1) by (intro futex_inv_queue_remove notify_inv)
    have m: "filter (matches P ?st) is = filter (matches P st) is"
      using Cons.prems(4) by (intro filter_cong) (auto simp: matches_def wait_notify_def)
    have h: "heap_get (f_heap ?st) a = Some (fx_queue_update (removeAll i) f)" using Cons.prems(2) by (simp add: wait_notify_def)
    have sub: "set is \<subseteq> set (fx_queue (fx_queue_update (removeAll i) f))" using Cons.prems(3,4) by auto
    have d: "distinct is" using Cons.prems(4) by simp
    let ?w = "take (mx - (n + 1)) (filter (matches P st) is)"
    have ih: "fst (futex_wake_loop P mx a is (n + 1) ?st) = n + 1 + length ?w" "woken a ?w ?st (snd (futex_wake_loop P mx a is (n + 1) ?st))"
      using Cons.IH [OF inv h sub d, of "n + 1"] unfolding m by blast+
    have t: "take (mx - n) (filter (matches P st) (i # is)) = i # ?w"
    proof -
      have "mx - n = Suc (mx - (n + 1))" using 3 by arith
      then show ?thesis using 3 w(1) by (simp add: matches_def)
    qed
    have l: "futex_wake_loop P mx a (i # is) n st = futex_wake_loop P mx a is (n + 1) ?st" using 3 w by simp
    show ?thesis unfolding t l using ih(1) woken_Cons [OF ih(2)] by simp
  qed
qed

lemma futex_find_cong:
  assumes "f_hash st' = f_hash st" "\<And>a. map_option fx_key (heap_get (f_heap st') a) = map_option fx_key (heap_get (f_heap st) a)"
  shows "futex_find k st' = futex_find k st"
proof -
  have "(case heap_get (f_heap st') a of None \<Rightarrow> False | Some f \<Rightarrow> futex_key_equal (fx_key f) k) =
    (case heap_get (f_heap st) a of None \<Rightarrow> False | Some f \<Rightarrow> futex_key_equal (fx_key f) k)" for a
    using assms(2) [of a] by (cases "heap_get (f_heap st') a"; cases "heap_get (f_heap st) a") auto
  then show ?thesis by (simp add: futex_find_def assms(1))
qed

lemma woken_queue:
  assumes "woken a is st st'" "table_ok st" "heap_get (f_heap st) a = Some f"
  shows "futex_queue k st' = (if k = fx_key f then filter (\<lambda>i. i \<notin> set is) (fx_queue f) else futex_queue k st)"
    and "heap_get (f_heap st') a = Some (f\<lparr>fx_queue := filter (\<lambda>i. i \<notin> set is) (fx_queue f)\<rparr>)"
proof -
  show "heap_get (f_heap st') a = Some (f\<lparr>fx_queue := filter (\<lambda>i. i \<notin> set is) (fx_queue f)\<rparr>)"
    using assms(1,3) by (simp add: woken_def)
  have "futex_find k st' = futex_find k st"
    by (rule futex_find_cong) (use assms(1) in \<open>auto simp: woken_def option.map_comp o_def\<close>)
  moreover have "futex_find k st = Some a \<longleftrightarrow> k = fx_key f" using futex_find_iff [OF assms(2), of k a] assms(3) by auto
  ultimately show "futex_queue k st' = (if k = fx_key f then filter (\<lambda>i. i \<notin> set is) (fx_queue f) else futex_queue k st)"
    using assms(1,3) by (auto simp: futex_queue_def futex_queue_of_def woken_def split: option.split)
qed

lemma filter_take_drop: "distinct xs \<Longrightarrow> filter (\<lambda>i. i \<notin> set (take n xs)) xs = drop n xs"
proof (induction xs arbitrary: n)
  case (Cons x xs)
  then show ?case by (cases n) (auto intro: trans [OF filter_cong])
qed simp

section \<open>Moving\<close>

text \<open>The frames \<open>is\<close> go from the queue of \<open>a\<close> to the end of the queue of \<open>b\<close>, with their references.\<close>

definition moved :: "nat \<Rightarrow> nat \<Rightarrow> nat list \<Rightarrow> fstate \<Rightarrow> fstate \<Rightarrow> bool" where
  "moved a b is st st' \<longleftrightarrow>
     (\<forall>c. map_option (\<lambda>f. (fx_key f, fx_queue f)) (heap_get (f_heap st') c) =
       map_option (\<lambda>f. (fx_key f, if c = a then filter (\<lambda>i. i \<notin> set is) (fx_queue f) else if c = b then fx_queue f @ is else fx_queue f))
         (heap_get (f_heap st) c)) \<and>
     (\<forall>i. heap_get (f_waits st') i = (if i \<in> set is then map_option (w_futex_update (\<lambda>_. b)) (heap_get (f_waits st) i)
       else heap_get (f_waits st) i)) \<and> f_hash st' = f_hash st"

lemma moved_Nil: "moved a b [] st st"
  by (auto simp: moved_def intro!: option.map_cong)

lemma requeue_loop_spec:
  assumes "futex_inv X st" "a \<in> set X" "b \<in> set X" "b \<noteq> a" "heap_get (f_heap st) a = Some f" "set is \<subseteq> set (fx_queue f)" "distinct is"
  shows "fst (futex_requeue_loop mx a b is n st) = n + length (take (mx - n) is) \<and>
    moved a b (take (mx - n) is) st (snd (futex_requeue_loop mx a b is n st))"
  using assms
proof (induction "is" arbitrary: n st f)
  case (Cons i "is")
  show ?case
  proof (cases "mx \<le> n")
    case False
    let ?st = "wait_upd i (w_futex_update (\<lambda>_. b)) (futex_upd b (fx_refcount_update Suc)
      (futex_upd a (\<lambda>f. f\<lparr>fx_refcount := fx_refcount f - 1\<rparr>)
        (futex_upd b (\<lambda>f. f\<lparr>fx_queue := fx_queue f @ [i]\<rparr>) (queue_remove a i st))))"
    have i: "i \<in> set (fx_queue f)" using Cons.prems(6) by simp
    obtain w where w: "heap_get (f_waits st) i = Some w" "futex_wait_is_live i st" using queue_frame [OF Cons.prems(1,5) i] by blast
    note one = requeue_one_inv [OF Cons.prems(1-5) i]
    have h: "heap_get (f_heap ?st) a = Some (f\<lparr>fx_queue := removeAll i (fx_queue f), fx_refcount := fx_refcount f - 1\<rparr>)"
      using Cons.prems(4,5) by simp
    have sub: "set is \<subseteq> set (fx_queue (f\<lparr>fx_queue := removeAll i (fx_queue f), fx_refcount := fx_refcount f - 1\<rparr>))"
      and d: "distinct is" using Cons.prems(6,7) by auto
    let ?m = "take (mx - (n + 1)) is"
    note ih = Cons.IH [OF one(2) Cons.prems(2-4) h sub d, of "n + 1"]
    have l: "futex_requeue_loop mx a b (i # is) n st = futex_requeue_loop mx a b is (n + 1) ?st"
      using False w one(1) Cons.prems(4,5) by (simp add: futex_assert_def Let_def)
    have t: "take (mx - n) (i # is) = i # ?m"
    proof -
      have "mx - n = Suc (mx - (n + 1))" using False by arith
      then show ?thesis by simp
    qed
    have "moved a b (i # ?m) st st'" if "moved a b ?m ?st st'" for st'
      using that Cons.prems(4) d Cons.prems(7) unfolding moved_def
      by (auto simp: option.map_comp o_def filter_removeAll intro!: option.map_cong dest: in_set_takeD)
    then show ?thesis unfolding l t using ih by simp
  qed (simp add: moved_Nil)
qed (simp add: moved_Nil)

lemma moved_queue:
  assumes "moved a b is st st'" "b \<noteq> a" "table_ok st" "heap_get (f_heap st) a = Some f" "heap_get (f_heap st) b = Some g"
  shows "futex_queue k st' = (if k = fx_key f then filter (\<lambda>i. i \<notin> set is) (fx_queue f)
    else if k = fx_key g then fx_queue g @ is else futex_queue k st)"
proof -
  have m: "map_option (\<lambda>f. (fx_key f, fx_queue f)) (heap_get (f_heap st') c) =
      map_option (\<lambda>f. (fx_key f, if c = a then filter (\<lambda>i. i \<notin> set is) (fx_queue f) else if c = b then fx_queue f @ is else fx_queue f))
        (heap_get (f_heap st) c)" for c
    using assms(1) by (simp add: moved_def)
  have "map_option fx_key (heap_get (f_heap st') c) = map_option fx_key (heap_get (f_heap st) c)" for c
    using arg_cong [OF m [of c], of "map_option fst"] by (simp add: option.map_comp o_def)
  then have e: "futex_find k st' = futex_find k st" using assms(1) by (intro futex_find_cong) (simp_all add: moved_def)
  have q: "futex_queue_of c st' = (case heap_get (f_heap st) c of None \<Rightarrow> []
      | Some f \<Rightarrow> if c = a then filter (\<lambda>i. i \<notin> set is) (fx_queue f) else if c = b then fx_queue f @ is else fx_queue f)" for c
    using m [of c] by (auto simp: futex_queue_of_def split: option.splits)
  have fa: "futex_find k st = Some a \<longleftrightarrow> k = fx_key f" and fb: "futex_find k st = Some b \<longleftrightarrow> k = fx_key g"
    using futex_find_iff [OF assms(3)] assms(4,5) by auto
  show ?thesis
  proof (cases "futex_find k st")
    case None
    then show ?thesis using fa fb by (simp add: futex_queue_def e)
  next
    case (Some c)
    then have k: "k = fx_key f \<longleftrightarrow> c = a" "k = fx_key g \<longleftrightarrow> c = b" using fa fb by auto
    show ?thesis
      unfolding futex_queue_def e Some option.case k q unfolding futex_queue_of_def
      using assms(2,4,5) by (cases "heap_get (f_heap st) c") auto
  qed
qed

lemma requeue_self:
  assumes "\<And>i. i \<in> set is \<Longrightarrow> futex_wait_is_live i st"
  shows "futex_requeue_loop mx a a is n st = (n + length (take (mx - n) is), st)"
  using assms
proof (induction "is" arbitrary: n)
  case (Cons i "is")
  then show ?case by (cases "mx - n") auto
qed simp

section \<open>The calls\<close>

lemma wake_queue_spec:
  assumes "futex_inv X st" "heap_get (f_heap st) a = Some f"
  shows "fst (futex_wake_loop P mx a (futex_queue_of a st) 0 st) = length (take mx (filter (matches P st) (fx_queue f)))"
    and "woken a (take mx (filter (matches P st) (fx_queue f))) st (snd (futex_wake_loop P mx a (futex_queue_of a st) 0 st))"
  using wake_loop_spec [OF assms, of "fx_queue f" P mx 0] futex_invD(4) [OF assms] assms(2)
  by (simp_all add: futex_queue_of_def queue_ok_def)

lemma wakelike_spec:
  fixes st :: fstate
  defines "cmd op \<equiv> op AND NOT (FUTEX_PRIVATE_FLAG OR FUTEX_CLOCK_REALTIME :: u32)"
  assumes "futex_inv [] st" "cmd op \<noteq> 3"
    and "r = futex_wakelike env op uaddr wake_max rm ra wmask st" "k = futex_key_of env uaddr op"
    and ws: "ws = take (unat wake_max) (filter (matches (\<lambda>b. b AND wmask \<noteq> 0) st) (futex_queue k st))"
  shows "fst r = Inr (length ws)"
    and "futex_queue k' (snd r) = (if k' = k then filter (\<lambda>i. i \<notin> set ws) (futex_queue k st) else futex_queue k' st)"
    and "heap_get (f_waits (snd r)) i = (if i \<in> set ws then map_option (w_notified_update (\<lambda>_. True)) (heap_get (f_waits st) i) else heap_get (f_waits st) i)"
proof -
  obtain o1 st1 where g: "futex_get_unlocked env k st = (o1, st1)" by fastforce
  have all: "fst r = Inr (length ws) \<and>
    (\<forall>k'. futex_queue k' (snd r) = (if k' = k then filter (\<lambda>i. i \<notin> set ws) (futex_queue k st) else futex_queue k' st)) \<and>
    (\<forall>i. heap_get (f_waits (snd r)) i = (if i \<in> set ws then map_option (w_notified_update (\<lambda>_. True)) (heap_get (f_waits st) i) else heap_get (f_waits st) i))"
  proof (cases o1)
    case None
    then have "futex_find k st = None" using g by (auto simp: futex_get_unlocked_def heap_alloc_def split: option.splits if_splits)
    then have e: "futex_queue k st = []" by (simp add: futex_queue_def)
    then have "r = (Inr 0, st)" using None g futex_get_none assms(3-5) by (auto simp: futex_wakelike_def Let_def)
    then show ?thesis using ws e by simp
  next
    case (Some a)
    note g = g [unfolded Some]
    note i1 = futex_get_inv [OF assms(2) g] and q1 = futex_queue_get [OF assms(2) g]
    obtain f where f: "heap_get (f_heap st1) a = Some f" "fx_key f = k" "fx_queue f = futex_queue k st" using q1(2) by blast
    let ?f = "f\<lparr>fx_wake_seq := fx_wake_seq f + 1\<rparr>"
    let ?st2 = "futex_upd a (\<lambda>f. f\<lparr>fx_wake_seq := fx_wake_seq f + 1\<rparr>) st1"
    have i2: "futex_inv [a] ?st2" using i1(1) by (rule futex_inv_upd) auto
    have f2: "heap_get (f_heap ?st2) a = Some ?f" using f by simp
    have m: "matches P ?st2 = matches P st" for P using i1(2) by (simp add: matches_def fun_eq_iff)
    let ?l = "futex_wake_loop (\<lambda>b. b AND wmask \<noteq> 0) (unat wake_max) a (futex_queue_of a ?st2) 0 ?st2"
    have l: "fst ?l = length ws" "woken a ws ?st2 (snd ?l)"
      using wake_queue_spec [OF i2 f2, where P = "\<lambda>b. b AND wmask \<noteq> 0" and mx = "unat wake_max"] ws f(3) by (simp_all add: m)
    have i3: "futex_inv [a] (snd ?l)" using wake_loop_inv [OF i2] .
    have r: "r = (Inr (fst ?l), futex_put_unlocked a (snd ?l))"
      using assms(1,3,4,5) g by (simp add: futex_wakelike_def Let_def case_prod_beta)
    have q2: "futex_queue k' ?st2 = futex_queue k' st1" for k'
      by (rule futex_queue_eq [OF futex_invD(3) [OF i1(1)] futex_invD(3) [OF i2]]) (auto split: if_splits)
    show ?thesis
      using l(1) l(2) i1(2) woken_queue(1) [OF l(2) futex_invD(3) [OF i2] f2] futex_queue_put [OF i3] q1(1) q2 f
      by (simp add: r) (simp add: woken_def)
  qed
  then show "fst r = Inr (length ws)"
    "futex_queue k' (snd r) = (if k' = k then filter (\<lambda>i. i \<notin> set ws) (futex_queue k st) else futex_queue k' st)"
    "heap_get (f_waits (snd r)) i = (if i \<in> set ws then map_option (w_notified_update (\<lambda>_. True)) (heap_get (f_waits st) i) else heap_get (f_waits st) i)"
    by blast+
qed

lemma get_two_spec:
  assumes "futex_inv X st" "futex_get_two env k1 k2 st = (Some (a, b), st')"
  shows "futex_inv (b # a # X) st'" "f_waits st' = f_waits st" "f_store st' = f_store st" "futex_queue k st' = futex_queue k st"
    "\<exists>f g. heap_get (f_heap st') a = Some f \<and> fx_key f = k1 \<and> heap_get (f_heap st') b = Some g \<and> fx_key g = k2"
proof -
  obtain st1 where g: "futex_get_unlocked env k1 st = (Some a, st1)" "futex_get_unlocked env k2 st1 = (Some b, st')"
    using assms(2) by (auto simp: futex_get_two_def split: prod.splits option.splits)
  note i1 = futex_get_inv [OF assms(1) g(1)]
  note i2 = futex_get_inv [OF i1(1) g(2)]
  show "futex_inv (b # a # X) st'" "f_waits st' = f_waits st" "f_store st' = f_store st" using i1 i2 by simp_all
  show "futex_queue k st' = futex_queue k st" using futex_queue_get(1) [OF assms(1) g(1)] futex_queue_get(1) [OF i1(1) g(2)] by simp
  show "\<exists>f g. heap_get (f_heap st') a = Some f \<and> fx_key f = k1 \<and> heap_get (f_heap st') b = Some g \<and> fx_key g = k2"
    using i1(5) i2(5) futex_get_heap(1) [OF g(2)] by metis
qed

lemma futex_get_some: "\<not> fe_nomem env k \<Longrightarrow> \<exists>a st'. futex_get_unlocked env k st = (Some a, st')"
  by (auto simp: futex_get_unlocked_def heap_alloc_def split: option.split)

lemma get_two_some:
  assumes "\<not> fe_nomem env k1" "\<not> fe_nomem env k2"
  obtains a b st' where "futex_get_two env k1 k2 st = (Some (a, b), st')"
proof -
  obtain a s1 where a: "futex_get_unlocked env k1 st = (Some a, s1)" using futex_get_some [OF assms(1)] by blast
  obtain b s2 where b: "futex_get_unlocked env k2 s1 = (Some b, s2)" using futex_get_some [OF assms(2)] by blast
  show ?thesis using that [of a b s2] a b by (simp add: futex_get_two_def)
qed

lemma put_two_queue:
  assumes "futex_inv (b # a # X) st"
  shows "futex_queue k (futex_put_unlocked a (futex_put_unlocked b st)) = futex_queue k st"
  using futex_queue_put [OF assms] futex_queue_put [OF futex_put_inv [OF assms]] by simp

lemma wake_all_spec:
  assumes "futex_inv X st" "heap_get (f_heap st) a = Some f"
  shows "fst (futex_wake_all mx a st) = length (take (unat mx) (fx_queue f))"
    and "woken a (take (unat mx) (fx_queue f)) st (snd (futex_wake_all mx a st))"
    and "heap_get (f_heap (snd (futex_wake_all mx a st))) a = Some (f\<lparr>fx_queue := drop (unat mx) (fx_queue f)\<rparr>)"
    and "futex_queue k (snd (futex_wake_all mx a st)) = (if k = fx_key f then drop (unat mx) (fx_queue f) else futex_queue k st)"
proof -
  have "matches (\<lambda>_. True) st i" if "i \<in> set (fx_queue f)" for i by (rule queue_frame [OF assms that]) (simp add: matches_def)
  then have "filter (matches (\<lambda>_. True) st) (fx_queue f) = fx_queue f" by (simp add: filter_id_conv)
  with wake_queue_spec [OF assms, where P = "\<lambda>_. True" and mx = "unat mx"]
  show n: "fst (futex_wake_all mx a st) = length (take (unat mx) (fx_queue f))"
    and w: "woken a (take (unat mx) (fx_queue f)) st (snd (futex_wake_all mx a st))" by (simp_all add: futex_wake_all_def)
  have d: "filter (\<lambda>i. i \<notin> set (take (unat mx) (fx_queue f))) (fx_queue f) = drop (unat mx) (fx_queue f)"
    using futex_invD(4) [OF assms] by (simp add: queue_ok_def filter_take_drop)
  show "heap_get (f_heap (snd (futex_wake_all mx a st))) a = Some (f\<lparr>fx_queue := drop (unat mx) (fx_queue f)\<rparr>)"
    "futex_queue k (snd (futex_wake_all mx a st)) = (if k = fx_key f then drop (unat mx) (fx_queue f) else futex_queue k st)"
    using woken_queue [OF w futex_invD(3) [OF assms(1)] assms(2)] unfolding d by auto
qed

lemma requeue_spec:
  assumes "futex_inv X st" "a \<in> set X" "b \<in> set X" "heap_get (f_heap st) a = Some f" "heap_get (f_heap st) b = Some g"
  shows "fst (futex_requeue_waiters a b mx st) = length (take (unat mx) (fx_queue f))"
    and "futex_queue k (snd (futex_requeue_waiters a b mx st)) =
      (if b = a then futex_queue k st else if k = fx_key f then drop (unat mx) (fx_queue f)
       else if k = fx_key g then fx_queue g @ take (unat mx) (fx_queue f) else futex_queue k st)"
proof -
  have d: "distinct (fx_queue f)" using futex_invD(4) [OF assms(1,4)] by (simp add: queue_ok_def)
  have "fst (futex_requeue_waiters a b mx st) = length (take (unat mx) (fx_queue f)) \<and>
    futex_queue k (snd (futex_requeue_waiters a b mx st)) =
      (if b = a then futex_queue k st else if k = fx_key f then drop (unat mx) (fx_queue f)
       else if k = fx_key g then fx_queue g @ take (unat mx) (fx_queue f) else futex_queue k st)"
  proof (cases "b = a")
    case True
    have "futex_wait_is_live i st" if "i \<in> set (fx_queue f)" for i using queue_frame [OF assms(1,4) that] by blast
    then show ?thesis using requeue_self [of "fx_queue f" st "unat mx" a 0] assms(4) True
      by (simp add: futex_requeue_waiters_def futex_queue_of_def)
  next
    case False
    note l = requeue_loop_spec [OF assms(1-3) False assms(4) subset_refl d, of "unat mx" 0]
    then have "moved a b (take (unat mx) (fx_queue f)) st (snd (futex_requeue_waiters a b mx st))"
      using assms(4) by (simp add: futex_requeue_waiters_def futex_queue_of_def)
    from moved_queue [OF this False futex_invD(3) [OF assms(1)] assms(4,5), of k] show ?thesis
      using l False assms(4) filter_take_drop [OF d] by (simp add: futex_requeue_waiters_def futex_queue_of_def)
  qed
  then show "fst (futex_requeue_waiters a b mx st) = length (take (unat mx) (fx_queue f))"
    "futex_queue k (snd (futex_requeue_waiters a b mx st)) =
      (if b = a then futex_queue k st else if k = fx_key f then drop (unat mx) (fx_queue f)
       else if k = fx_key g then fx_queue g @ take (unat mx) (fx_queue f) else futex_queue k st)" by auto
qed

lemma cmp_requeue_spec:
  assumes "futex_inv [] st" "\<not> fe_nomem env k1" "\<not> fe_nomem env k2"
    and "k1 = futex_key_of env uaddr op" "k2 = futex_key_of env uaddr2 op" "r = futex_cmp_requeue env uaddr op val uaddr2 val2 val3 st"
  shows "futex_load env uaddr st = Some val3 \<Longrightarrow> fst r = Inr (length (take (unat val) (futex_queue k1 st)) + length (take (unat val2) (drop (unat val) (futex_queue k1 st)))) \<and>
      futex_queue k (snd r) = (if k = k1 then drop (if k1 = k2 then unat val else unat val + unat val2) (futex_queue k1 st)
        else if k = k2 then futex_queue k2 st @ take (unat val2) (drop (unat val) (futex_queue k1 st)) else futex_queue k st)"
    and "futex_load env uaddr st \<noteq> Some val3 \<Longrightarrow>
      fst r = Inl (if futex_load env uaddr st = None then EFAULT else EAGAIN) \<and> futex_queue k (snd r) = futex_queue k st \<and> f_waits (snd r) = f_waits st"
proof -
  obtain a b st1 where g: "futex_get_two env k1 k2 st = (Some (a, b), st1)" using get_two_some [OF assms(2,3)] by blast
  note t = get_two_spec [OF assms(1) g]
  obtain f h where f: "heap_get (f_heap st1) a = Some f" "fx_key f = k1" and h: "heap_get (f_heap st1) b = Some h" "fx_key h = k2" using t(5) by blast
  have ab: "b = a \<longleftrightarrow> k1 = k2" using futex_invD(3) [OF t(1)] f h unfolding table_ok_def by (metis option.inject)
  have ld: "futex_load env uaddr st1 = futex_load env uaddr st" using t(3) by (simp add: futex_load_def)
  have qf: "fx_queue f = futex_queue k1 st" and qh: "fx_queue h = futex_queue k2 st"
    using futex_queue_iff [OF futex_invD(3) [OF t(1)] f(1)] futex_queue_iff [OF futex_invD(3) [OF t(1)] h(1)] f(2) h(2) t(4) by simp_all
  show "fst r = Inl (if futex_load env uaddr st = None then EFAULT else EAGAIN) \<and> futex_queue k (snd r) = futex_queue k st \<and> f_waits (snd r) = f_waits st"
    if "futex_load env uaddr st \<noteq> Some val3"
    using that g assms(4-6) ld put_two_queue [OF t(1)] t(2,4) by (auto simp: futex_cmp_requeue_def split: option.split)
  let ?w = "futex_wake_all val a st1"
  note w = wake_all_spec [OF t(1) f(1), where mx = val]
  have i: "futex_inv [b, a] (snd ?w)" using wake_all_inv [OF t(1)] .
  let ?h = "if b = a then f\<lparr>fx_queue := drop (unat val) (fx_queue f)\<rparr> else h"
  have hb: "heap_get (f_heap (snd ?w)) b = Some ?h" using w(2,3) h(1) by (simp add: woken_def)
  note q = requeue_spec [OF i _ _ w(3) hb, where mx = val2]
  have i2: "futex_inv [b, a] (snd (futex_requeue_waiters a b val2 (snd ?w)))" using i by (rule requeue_inv) auto
  show "fst r = Inr (length (take (unat val) (futex_queue k1 st)) + length (take (unat val2) (drop (unat val) (futex_queue k1 st)))) \<and>
      futex_queue k (snd r) = (if k = k1 then drop (if k1 = k2 then unat val else unat val + unat val2) (futex_queue k1 st)
        else if k = k2 then futex_queue k2 st @ take (unat val2) (drop (unat val) (futex_queue k1 st)) else futex_queue k st)"
    if "futex_load env uaddr st = Some val3"
    using that g assms(4-6) ld put_two_queue [OF i2] w(1,4) q t(4) ab f(2) h(2) qf qh
    by (auto simp: futex_cmp_requeue_def case_prod_beta add.commute)
qed

end
