(* ===== verification/Futex_Pi.thy ===== *)
theory Futex_Pi
  imports Futex_Queue
begin

text \<open>
  Mutual exclusion of a PI lock. The tasks that use the lock follow its protocol: they take a free word and
  drop an uncontended one themselves and otherwise call the kernel. A race of a guest thread with the
  compare-and-swap of the kernel makes the kernel start over, as if the thread had come first; so calls
  are without races here, and the threads' own moves are steps.
\<close>

section \<open>The lock word\<close>

lemma le_word_le_nat: "le_word bs = of_nat (le_nat bs)"
  by (induction bs) (simp_all add: le_nat_def)

lemma le_word_le_bytes: "le_word (le_bytes 4 v) = (v :: u32)" "le_word (le_bytes 8 u) = (u :: u64)"
  using unat_mod_self(2) [of v] unat_mod_self(3) [of u] by (simp_all add: le_word_le_nat le_nat_le_bytes)

lemma host_load_store [simp]: "host_load (host_store p v m) p = v"
proof -
  have "map (host_store p v m) [p ..< p + 4] = le_bytes 4 v"
    by (rule nth_equalityI) (simp_all add: host_store_def)
  then show ?thesis by (simp add: host_load_def le_word_le_bytes)
qed

abbreviation word_tid :: "nat \<Rightarrow> fstate \<Rightarrow> u32" where
  "word_tid p st \<equiv> host_load (f_store st) p AND FUTEX_TID_MASK"

lemma tid_bits:
  "(t OR (v AND FUTEX_OWNER_DIED) OR (if b then FUTEX_WAITERS else 0)) AND FUTEX_TID_MASK = t AND FUTEX_TID_MASK"
  "(t OR FUTEX_WAITERS) AND FUTEX_TID_MASK = t AND FUTEX_TID_MASK"
  by (simp_all add: bit.conj_disj_distrib2 and.assoc)

section \<open>The protocol\<close>

text \<open>
  \<open>tid\<close> gives the tasks \<open>t < N\<close> their thread ids; \<open>p\<close> is the host address of the word, which everyone reaches for reading and for
  writing. No task that uses the lock ends meanwhile.
\<close>

definition good_tids :: "nat \<Rightarrow> (nat \<Rightarrow> u32) \<Rightarrow> bool" where
  "good_tids N tid \<longleftrightarrow> inj_on tid {..<N} \<and> (\<forall>t < N. tid t \<noteq> 0 \<and> tid t AND FUTEX_TID_MASK = tid t)"

definition pi_env :: "nat \<Rightarrow> (nat \<Rightarrow> u32) \<Rightarrow> nat \<Rightarrow> fenv \<Rightarrow> u64 \<Rightarrow> bool" where
  "pi_env N tid p env uaddr \<longleftrightarrow> user_ptr env True uaddr = Some p \<and> user_ptr env False uaddr = Some p \<and>
     fe_tid env = tid (fe_task env) \<and> fe_races env = [] \<and> (\<forall>t < N. futex_pi_owner_alive env (tid t))"

text \<open>
  The first component is the task that holds the lock: one whose lock call returned 0, or that took the
  word itself, until it unlocks.
\<close>

inductive pi_step :: "nat \<Rightarrow> (nat \<Rightarrow> u32) \<Rightarrow> nat \<Rightarrow> nat option \<times> fstate \<Rightarrow> nat option \<times> fstate \<Rightarrow> bool"
  for N tid p where
  lock: "pi_env N tid p env uaddr \<Longrightarrow> idle (fe_task env) st \<Longrightarrow> futex_lock_pi env uaddr op timeout trylock st = (out, st') \<Longrightarrow>
    pi_step N tid p (h, st) (if out = Return (Inr 0) then Some (fe_task env) else h, st')"
| resume: "heap_get (f_waits st) i = Some w \<Longrightarrow> pi_env N tid p env (w_uaddr w) \<Longrightarrow> fe_task env = w_task w \<Longrightarrow>
    futex_resume env err i st = (out, st') \<Longrightarrow> pi_step N tid p (h, st) (if out = Return (Inr 0) then Some (fe_task env) else h, st')"
| unlock: "pi_env N tid p env uaddr \<Longrightarrow> idle (fe_task env) st \<Longrightarrow> futex_unlock_pi env uaddr op st = (r, st') \<Longrightarrow>
    pi_step N tid p (h, st) (if r = Inr 0 then None else h, st')"
| take: "idle t st \<Longrightarrow> host_load (f_store st) p = 0 \<Longrightarrow> pi_step N tid p (h, st) (Some t, st\<lparr>f_store := host_store p (tid t) (f_store st)\<rparr>)"
| drop: "idle t st \<Longrightarrow> host_load (f_store st) p = tid t \<Longrightarrow> pi_step N tid p (h, st) (None, st\<lparr>f_store := host_store p 0 (f_store st)\<rparr>)"
| interrupt: "pi_step N tid p (h, st) (h, futex_interrupt i st)"

definition pi_start :: "nat \<Rightarrow> nat \<Rightarrow> fstate \<Rightarrow> bool" where
  "pi_start N p st \<longleftrightarrow> freach st \<and> (\<forall>i. heap_get (f_waits st) i = None) \<and> length (f_tasks st) = N \<and> host_load (f_store st) p = 0"

inductive pi_reach :: "nat \<Rightarrow> (nat \<Rightarrow> u32) \<Rightarrow> nat \<Rightarrow> nat option \<times> fstate \<Rightarrow> bool" for N tid p where
  start: "pi_start N p st \<Longrightarrow> pi_reach N tid p (None, st)"
| step: "pi_reach N tid p s \<Longrightarrow> pi_step N tid p s s' \<Longrightarrow> pi_reach N tid p s'"

section \<open>The invariant\<close>

text \<open>
  Every frame is a PI wait of its task; a frame that was handed the lock is named by the word, and then
  nobody holds it yet. The word is free, names the holder, or names a task to which it was handed.
\<close>

definition pframe :: "nat \<Rightarrow> (nat \<Rightarrow> u32) \<Rightarrow> nat \<Rightarrow> nat option \<Rightarrow> fstate \<Rightarrow> futex_wait \<Rightarrow> bool" where
  "pframe N tid p h st w \<longleftrightarrow> w_pi w \<and> w_tid w = tid (w_task w) \<and> (\<forall>o1 v. w_pc w = Pi_look o1 v \<longrightarrow> (\<exists>t < N. o1 = tid t)) \<and>
     (w_pi_owned w \<longrightarrow> h = None \<and> word_tid p st = w_tid w)"

definition holder_ok :: "nat \<Rightarrow> (nat \<Rightarrow> u32) \<Rightarrow> nat \<Rightarrow> nat option \<Rightarrow> fstate \<Rightarrow> bool" where
  "holder_ok N tid p h st = (case h of Some t \<Rightarrow> t < N \<and> word_tid p st = tid t
     | None \<Rightarrow> word_tid p st = 0 \<or> (\<exists>i w. heap_get (f_waits st) i = Some w \<and> w_pi_owned w \<and> word_tid p st = w_tid w))"

definition pi_inv :: "nat \<Rightarrow> (nat \<Rightarrow> u32) \<Rightarrow> nat \<Rightarrow> nat option \<times> fstate \<Rightarrow> bool" where
  "pi_inv N tid p s \<longleftrightarrow> futex_inv [] (snd s) \<and> length (f_tasks (snd s)) = N \<and>
     (\<forall>i w. heap_get (f_waits (snd s)) i = Some w \<longrightarrow> pframe N tid p (fst s) (snd s) w) \<and> holder_ok N tid p (fst s) (snd s)"

lemma holder_okI: "heap_get (f_waits st) j = Some v \<Longrightarrow> w_pi_owned v \<Longrightarrow> word_tid p st = w_tid v \<Longrightarrow> holder_ok N tid p None st"
  by (auto simp: holder_ok_def)

lemma pi_invD:
  assumes "pi_inv N tid p (h, st)"
  shows "futex_inv [] st" "length (f_tasks st) = N" "heap_get (f_waits st) i = Some w \<Longrightarrow> pframe N tid p h st w" "holder_ok N tid p h st"
    "heap_get (f_waits st) i = Some w \<Longrightarrow> w_task w < N"
  using assms futex_invD(5) by (auto simp: pi_inv_def frame_ok_def)

lemma pi_finish_waits:
  assumes "heap_get (f_waits st) i = Some w"
  shows "f_waits (snd (futex_lock_pi_finish r i st)) = heap_free (f_waits st) i"
    "f_store (snd (futex_lock_pi_finish r i st)) = f_store st" "f_tasks (snd (futex_lock_pi_finish r i st)) = f_tasks st"
    "fst (futex_lock_pi_finish r i st) = Return r"
  using assms by (simp_all add: futex_lock_pi_finish_def Let_def)

text \<open>A frame leaves: with the lock, if it holds the word, and otherwise without.\<close>

lemma pi_finish_step:
  assumes "pi_inv N tid p (h, st)" "heap_get (f_waits st) i = Some w"
    and "\<not> w_pi_owned w"
  shows "pi_inv N tid p (h, snd (futex_lock_pi_finish r i st))"
proof -
  note d = pi_invD [OF assms(1)]
  have "w_pi w" using d(3) [OF assms(2)] by (simp add: pframe_def)
  then have "futex_inv [] (snd (futex_lock_pi_finish r i st))" using pi_finish_inv [OF d(1) assms(2)] by simp
  moreover have "holder_ok N tid p h (snd (futex_lock_pi_finish r i st))"
  proof (cases "h = None \<and> word_tid p st \<noteq> 0")
    case True
    then obtain j v where j: "heap_get (f_waits st) j = Some v" "w_pi_owned v" "word_tid p st = w_tid v"
      using d(4) by (auto simp: holder_ok_def)
    then have "heap_get (f_waits (snd (futex_lock_pi_finish r i st))) j = Some v" using assms(2,3) by (auto simp: pi_finish_waits [OF assms(2)])
    from holder_okI [OF this j(2)] True j(3) show ?thesis by (simp add: pi_finish_waits(2) [OF assms(2)])
  next
    case False
    then show ?thesis using d(4) by (auto simp: holder_ok_def pi_finish_waits [OF assms(2)] split: option.splits)
  qed
  moreover have "pframe N tid p h (snd (futex_lock_pi_finish r i st)) v" if "heap_get (f_waits st) j = Some v" for j v
    using d(3) [OF that] by (simp add: pframe_def pi_finish_waits [OF assms(2)])
  ultimately show ?thesis
    using d(2) by (auto simp: pi_inv_def pi_finish_waits [OF assms(2)] split: if_splits)
qed

lemma pi_finish_take:
  assumes "good_tids N tid" "futex_inv [] st" "length (f_tasks st) = N" "heap_get (f_waits st) i = Some w"
    and "\<And>j v. heap_get (f_waits st) j = Some v \<Longrightarrow> w_pi v \<and> w_tid v = tid (w_task v) \<and> (\<forall>o1 x. w_pc v = Pi_look o1 x \<longrightarrow> (\<exists>t < N. o1 = tid t))"
    and "\<And>j v. heap_get (f_waits st) j = Some v \<Longrightarrow> w_pi_owned v \<Longrightarrow> j = i" "word_tid p st = w_tid w"
  shows "pi_inv N tid p (Some (w_task w), snd (futex_lock_pi_finish r i st))"
proof -
  have "futex_inv [] (snd (futex_lock_pi_finish r i st))" using pi_finish_inv [OF assms(2,4)] assms(5) [OF assms(4)] by simp
  moreover have "w_task w < N" using futex_invD(5) [OF assms(2,4)] assms(3) by (simp add: frame_ok_def)
  ultimately show ?thesis
    using assms(3,5-7) assms(5) [OF assms(4)]
    by (auto simp: pi_inv_def pframe_def holder_ok_def pi_finish_waits [OF assms(4)] split: option.splits if_splits)
qed

lemma owned_unique:
  assumes "pi_inv N tid p (h, st)" "good_tids N tid" "heap_get (f_waits st) i = Some w" "w_pi_owned w" "heap_get (f_waits st) j = Some v" "w_pi_owned v"
  shows "j = i"
proof -
  note d = pi_invD [OF assms(1)]
  have "tid (w_task v) = tid (w_task w)" using d(3) [OF assms(3)] d(3) [OF assms(5)] assms(4,6) by (simp add: pframe_def)
  then have "w_task v = w_task w" using assms(2) d(5) [OF assms(3)] d(5) [OF assms(5)] by (auto simp: good_tids_def inj_on_def)
  then show ?thesis using futex_invD(7) [OF d(1)] assms(3,5) by (auto simp: one_frame_def)
qed

text \<open>A store that does not change the owner in the word.\<close>

lemma pi_inv_store:
  assumes "pi_inv N tid p (h, st)" "host_load m p AND FUTEX_TID_MASK = word_tid p st"
  shows "pi_inv N tid p (h, st\<lparr>f_store := m\<rparr>)"
  using assms by (cases h) (auto simp: pi_inv_def pframe_def holder_ok_def)

lemma pi_inv_wait_upd:
  assumes "pi_inv N tid p (h, st)" "futex_inv [] (wait_upd i g st)"
    and "\<And>w. heap_get (f_waits st) i = Some w \<Longrightarrow> w_pi (g w) = w_pi w \<and> w_tid (g w) = w_tid w \<and> w_task (g w) = w_task w \<and> w_pi_owned (g w) = w_pi_owned w
      \<and> (\<forall>o1 v. w_pc (g w) = Pi_look o1 v \<longrightarrow> (\<exists>t < N. o1 = tid t))"
  shows "pi_inv N tid p (h, wait_upd i g st)"
proof -
  note d = pi_invD [OF assms(1)]
  have f: "pframe N tid p h (wait_upd i g st) v" if "heap_get (f_waits (wait_upd i g st)) j = Some v" for j v
    using that d(3) [of j] assms(3) by (auto simp: pframe_def split: if_splits)
  have "holder_ok N tid p h (wait_upd i g st)"
  proof (cases "h = None \<and> word_tid p st \<noteq> 0")
    case True
    then obtain j v where j: "heap_get (f_waits st) j = Some v" "w_pi_owned v" "word_tid p st = w_tid v"
      using d(4) by (auto simp: holder_ok_def)
    then obtain v' where "heap_get (f_waits (wait_upd i g st)) j = Some v'" "w_pi_owned v'" "w_tid v' = w_tid v"
      using assms(3) by (cases "j = i") auto
    from holder_okI [OF this(1,2)] this(3) True j(3) show ?thesis by simp
  next
    case False
    then show ?thesis using d(4) by (auto simp: holder_ok_def split: option.splits)
  qed
  then show ?thesis using assms(2) d(2) f by (auto simp: pi_inv_def)
qed

text \<open>One pass of the loop, with what it returns.\<close>

definition result_ok :: "nat \<Rightarrow> (nat \<Rightarrow> u32) \<Rightarrow> nat \<Rightarrow> nat option \<Rightarrow> nat \<Rightarrow> outcome \<times> fstate \<Rightarrow> bool" where
  "result_ok N tid p h t r \<longleftrightarrow>
     pi_inv N tid p (if fst r = Return (Inr 0) then Some t else h, snd r) \<and> (fst r = Return (Inr 0) \<longrightarrow> h = None)"

lemma result_ok_finish:
  "pi_inv N tid p (h, st) \<Longrightarrow> heap_get (f_waits st) i = Some w \<Longrightarrow> \<not> w_pi_owned w \<Longrightarrow> result_ok N tid p h t (futex_lock_pi_finish (Inl e) i st)"
  using pi_finish_step pi_finish_waits(4) by (simp add: result_ok_def)

lemma pi_loop_ok:
  assumes g: "good_tids N tid" and "pi_inv N tid p (h, st)" "heap_get (f_waits st) i = Some w"
    and env: "user_ptr env True (w_uaddr w) = Some p" "user_ptr env False (w_uaddr w) = Some p"
  shows "result_ok N tid p h (w_task w) (futex_lock_pi_loop env [] i st)"
proof -
  note d = pi_invD [OF assms(2)] and fin = pi_finish_waits
  note w = d(3) [OF assms(3)] 
  let ?v = "host_load (f_store st) p"
  have ld: "futex_load env (w_uaddr w) st = Some ?v" using env(2) by (simp add: futex_load_def)
  have cas: "futex_cas env None (w_uaddr w) ?v x st = (None, st\<lparr>f_store := host_store p x (f_store st)\<rparr>)" for x
    using env(1) by (simp add: futex_cas_def)
  have t: "w_task w < N" "w_tid w = tid (w_task w)" "tid (w_task w) AND FUTEX_TID_MASK = tid (w_task w)" "tid (w_task w) \<noteq> 0"
    using d(5) [OF assms(3)] w g by (auto simp: pframe_def good_tids_def)
  have look: "result_ok N tid p h (w_task w) (Looking i (x AND FUTEX_TID_MASK), wait_upd i (w_pc_update (\<lambda>_. Pi_look (x AND FUTEX_TID_MASK) x)) s)"
    if s: "pi_inv N tid p (h, s)" "heap_get (f_waits s) i = Some w" "x AND FUTEX_TID_MASK = word_tid p st" "word_tid p st \<noteq> 0" for x s
  proof -
    have inv: "futex_inv [] (wait_upd i (w_pc_update (\<lambda>_. Pi_look (x AND FUTEX_TID_MASK) x)) s)"
      using pi_invD(1) [OF s(1)] by (rule futex_inv_wait_upd) (use s(2) w in \<open>auto simp: pframe_def\<close>)
    have "\<exists>u < N. word_tid p st = tid u"
    proof (cases h)
      case None
      then obtain j v where j: "heap_get (f_waits st) j = Some v" "word_tid p st = w_tid v" using d(4) s(4) by (auto simp: holder_ok_def)
      then show ?thesis using d(3) [OF j(1)] d(5) [OF j(1)] by (auto simp: pframe_def)
    next
      case (Some u)
      then show ?thesis using d(4) by (auto simp: holder_ok_def)
    qed
    then show ?thesis using pi_inv_wait_upd [OF s(1) inv] s(3) by (simp add: result_ok_def)
  qed
  show ?thesis
  proof (cases "w_pi_owned w")
    case True
    then have "h = None" "word_tid p st = w_tid w" using w by (simp_all add: pframe_def)
    moreover have "pi_inv N tid p (Some (w_task w), snd (futex_lock_pi_finish (Inr 0) i st))"
      using g d(1,2) assms(3) by (rule pi_finish_take)
        (use d(3) owned_unique [OF assms(2) g assms(3) True] \<open>word_tid p st = w_tid w\<close> in \<open>auto simp: pframe_def\<close>)
    ultimately show ?thesis using True assms(3) by (simp add: futex_lock_pi_pass_def futex_lock_pi_ret_def case_prod_beta result_ok_def fin)
  next
    case nown: False
    consider "word_tid p st = 0" | "word_tid p st = w_tid w" "w_tid w \<noteq> 0" | "word_tid p st \<noteq> 0" "word_tid p st \<noteq> w_tid w" by metis
    then show ?thesis
    proof cases
      case 1
      have h: "h = None" using d(4) 1 g by (auto simp: holder_ok_def good_tids_def split: option.splits)
      have none: "\<not> w_pi_owned v" if "heap_get (f_waits st) j = Some v" for j v
        using d(3) [OF that] d(5) [OF that] 1 g by (auto simp: pframe_def good_tids_def)
      obtain oth where oth: "(if w_pi_queued w then (Some i, st) else futex_pi_first_waiter (w_futex w) (Some i) st) = (oth, st)"
        by (cases "w_pi_queued w") (auto simp: pi_first_inv [OF d(1)])
      let ?want = "w_tid w OR (?v AND FUTEX_OWNER_DIED) OR (if oth \<noteq> None then FUTEX_WAITERS else 0)"
      let ?st = "st\<lparr>f_store := host_store p ?want (f_store st)\<rparr>"
      have l: "futex_lock_pi_loop env [] i st = futex_lock_pi_finish (Inr 0) i ?st"
        using assms(3) nown ld 1 oth cas [of ?want] by (simp add: futex_lock_pi_pass_def futex_lock_pi_free_def futex_lock_pi_ret_def case_prod_beta Let_def)
      have "pi_inv N tid p (Some (w_task w), snd (futex_lock_pi_finish (Inr 0) i ?st))"
        using g by (rule pi_finish_take) (use d(1-3) assms(3) none t tid_bits(1) in \<open>auto simp: pframe_def\<close>)
      then show ?thesis using l h fin [of ?st i w] assms(3) by (simp add: result_ok_def)
    next
      case 2
      then have "futex_lock_pi_loop env [] i st = futex_lock_pi_finish (Inl EDEADLK) i st"
        using assms(3) nown ld by (simp add: futex_lock_pi_pass_def futex_lock_pi_ret_def case_prod_beta Let_def)
      then show ?thesis using result_ok_finish [OF assms(2,3) nown] by simp
    next
      case 3
      let ?st = "if ?v AND FUTEX_WAITERS = 0 then st\<lparr>f_store := host_store p (?v OR FUTEX_WAITERS) (f_store st)\<rparr> else st"
      let ?x = "if ?v AND FUTEX_WAITERS = 0 then ?v OR FUTEX_WAITERS else ?v"
      have l: "futex_lock_pi_loop env [] i st = (case futex_lock_pi_contended i w ?x ?st of (Some out, st) \<Rightarrow> (out, st) | (None, st) \<Rightarrow> (Return (Inl EAGAIN), st))"
      proof -
        have "futex_lock_pi_pass env None i st = futex_lock_pi_contended i w ?x ?st"
          using assms(3) nown ld 3 cas by (simp add: futex_lock_pi_pass_def Let_def)
        then show ?thesis by (simp only: futex_lock_pi_loop.simps)
      qed
      have s: "pi_inv N tid p (h, ?st)" "heap_get (f_waits ?st) i = Some w" "?x AND FUTEX_TID_MASK = word_tid p st"
        using pi_inv_store [OF assms(2)] assms(2,3) by (simp_all add: tid_bits(2))
      show ?thesis using l look [OF s 3(1)] result_ok_finish [OF s(1,2) nown]
        by (simp add: futex_lock_pi_contended_def futex_lock_pi_ret_def case_prod_beta)
    qed
  qed
qed

section \<open>Every step keeps it\<close>

lemma pi_lock_ok:
  assumes g: "good_tids N tid" and inv: "pi_inv N tid p (h, st)" and env: "pi_env N tid p env uaddr" and id: "idle (fe_task env) st"
  shows "result_ok N tid p h (fe_task env) (futex_lock_pi env uaddr op timeout trylock st)"
proof -
  note d = pi_invD [OF inv]
  obtain r st1 where gt: "futex_get_unlocked env (futex_key_of env uaddr op) st = (r, st1)" by fastforce
  show ?thesis
  proof (cases r)
    case None
    then show ?thesis using gt futex_get_none inv by (auto simp: futex_lock_pi_def result_ok_def)
  next
    case (Some a)
    note i1 = futex_get_inv [OF d(1) gt [unfolded Some]]
    have id1: "idle (fe_task env) st1" using id i1 by (simp add: idle_def)
    have "result_ok N tid p h (fe_task env) (futex_lock_pi_loop env [] (length (f_waits st1)) (st1\<lparr>f_waits := f_waits st1 @ [Some w]\<rparr>))"
      if w: "w_futex w = a" "w_task w = fe_task env" "w_magic w = FUTEX_WAIT_MAGIC" "\<not> w_pi_queued w" "\<not> w_pi_owned w" "w_pi w"
        "w_pc w = Pi_sleep" "w_tid w = fe_tid env" "w_uaddr w = uaddr" for w
    proof -
      let ?st = "st1\<lparr>f_waits := f_waits st1 @ [Some w]\<rparr>"
      have W: "heap_get (f_waits ?st) j = (if j = length (f_waits st1) then Some w else heap_get (f_waits st) j)" for j
        using heap_get_alloc [of "f_waits st1" w j] i1(2) by (simp add: heap_alloc_def)
      have "futex_inv [] (st1\<lparr>f_waits := fst (heap_alloc (f_waits st1) w)\<rparr>)"
        by (rule futex_inv_new_frame [OF i1(1)]) (use w id1 in auto)
      then have f: "futex_inv [] ?st" by (simp add: heap_alloc_def)
      have "holder_ok N tid p h ?st"
      proof (cases "h = None \<and> word_tid p st \<noteq> 0")
        case True
        then obtain j v where j: "heap_get (f_waits st) j = Some v" "w_pi_owned v" "word_tid p st = w_tid v"
          using d(4) by (auto simp: holder_ok_def)
        then have "heap_get (f_waits ?st) j = Some v" using heap_get_less [OF j(1)] i1(2) unfolding W by auto
        from holder_okI [OF this j(2)] True j(3) i1(4) show ?thesis by simp
      next
        case False
        then show ?thesis using d(4) i1(4) by (auto simp: holder_ok_def split: option.splits)
      qed
      moreover have "pframe N tid p h ?st v" if "heap_get (f_waits ?st) j = Some v" for j v
        using that d(3) [of j v] w env i1(4) unfolding W by (auto simp: pframe_def pi_env_def split: if_splits)
      ultimately have "pi_inv N tid p (h, ?st)" using f d(2) i1(3) by (simp add: pi_inv_def del: heap_get_alloc)
      moreover have "heap_get (f_waits ?st) (length (f_waits st1)) = Some w" unfolding W by simp
      ultimately show ?thesis using pi_loop_ok [OF g, of p h ?st "length (f_waits st1)" w env] w env by (simp add: pi_env_def)
    qed
    moreover have "fe_races env = []" using env by (simp add: pi_env_def)
    ultimately show ?thesis unfolding futex_lock_pi_def gt Some prod.case option.case Let_def heap_alloc_def by simp
  qed
qed

lemma pi_resume_ok:
  assumes g: "good_tids N tid" and inv: "pi_inv N tid p (h, st)" and w: "heap_get (f_waits st) i = Some w"
    and env: "pi_env N tid p env (w_uaddr w)"
  shows "result_ok N tid p h (w_task w) (futex_resume env err i st)"
proof -
  note d = pi_invD [OF inv]
  have pf: "pframe N tid p h st w" using d(3) [OF w] .
  have ptr: "user_ptr env True (w_uaddr w) = Some p" "user_ptr env False (w_uaddr w) = Some p" "fe_races env = []" using env by (simp_all add: pi_env_def)
  note loop = pi_loop_ok [OF g inv w ptr(1,2)]
  show ?thesis
  proof (cases "w_pc w")
    case (Pi_look o1 v)
    then have "futex_pi_owner_alive env o1" using pf env by (auto simp: pframe_def pi_env_def)
    moreover have "result_ok N tid p h (w_task w) (futex_lock_pi_looked env o1 v i st)" if "\<not> w_pi_owned w" "futex_pi_owner_alive env o1"
    proof -
      let ?st1 = "futex_upd (w_futex w) (fx_pi_owner_update (\<lambda>_. o1)) st"
      let ?st2 = "if w_pi_queued w then ?st1
        else (wait_upd i (w_pi_queued_update (\<lambda>_. True)) (futex_upd (w_futex w) (\<lambda>f. f\<lparr>fx_pi_queue := fx_pi_queue f @ [i]\<rparr>) ?st1))
          \<lparr>f_pi_waiting := f_pi_waiting ?st1 + 1\<rparr>"
      have "futex_inv [] ?st1" using d(1) by (rule futex_inv_upd) auto
      then have f2: "futex_inv [] ?st2" using pi_enqueue_inv [of "[]" ?st1 i w "w_futex w"] w pf by (simp add: pframe_def)
      let ?w = "if w_pi_queued w then w else w\<lparr>w_pi_queued := True\<rparr>"
      have W: "heap_get (f_waits ?st2) j = (if j = i then Some ?w else heap_get (f_waits st) j)" for j using w by simp
      have sel: "f_store ?st2 = f_store st" "f_tasks ?st2 = f_tasks st" by simp_all
      have "holder_ok N tid p h ?st2"
      proof (cases "h = None \<and> word_tid p st \<noteq> 0")
        case True
        then obtain j x where j: "heap_get (f_waits st) j = Some x" "w_pi_owned x" "word_tid p st = w_tid x"
          using d(4) by (auto simp: holder_ok_def)
        then have "heap_get (f_waits ?st2) j = Some x" using w that(1) unfolding W by auto
        from holder_okI [OF this j(2)] True j(3) sel show ?thesis by simp
      next
        case False
        then show ?thesis using d(4) sel by (auto simp: holder_ok_def split: option.splits)
      qed
      moreover have "pframe N tid p h ?st2 x" if "heap_get (f_waits ?st2) j = Some x" for j x
        using that d(3) [of j x] pf sel unfolding W by (auto simp: pframe_def split: if_splits)
      ultimately have p2: "pi_inv N tid p (h, ?st2)" using f2 d(2) sel by (simp add: pi_inv_def)
      have w2: "heap_get (f_waits ?st2) i = Some ?w" "\<not> w_pi_owned ?w" using W [of i] that(1) by simp_all
      have "futex_inv [] (wait_upd i (\<lambda>w. w\<lparr>w_notified := False, w_pc := Pi_sleep\<rparr>) ?st2)"
        using f2 by (rule futex_inv_wait_upd) (use w2(1) pf in \<open>auto simp: pframe_def\<close>)
      from pi_inv_wait_upd [OF p2 this] have p3: "pi_inv N tid p (h, wait_upd i (\<lambda>w. w\<lparr>w_notified := False, w_pc := Pi_sleep\<rparr>) ?st2)" by simp
      have "futex_lock_pi_looked env o1 v i st = futex_lock_pi_finish (Inl ETIMEDOUT) i ?st2 \<or>
        (\<exists>x y. futex_lock_pi_looked env o1 v i st = (Blocked i x y, wait_upd i (\<lambda>w. w\<lparr>w_notified := False, w_pc := Pi_sleep\<rparr>) ?st2))"
        unfolding futex_lock_pi_looked_def Let_def w option.case using that by (simp only: case_prod_beta if_False simp_thms split: if_split) blast
      then show ?thesis
      proof (elim disjE exE)
        fix x y
        assume "futex_lock_pi_looked env o1 v i st = (Blocked i x y, wait_upd i (\<lambda>w. w\<lparr>w_notified := False, w_pc := Pi_sleep\<rparr>) ?st2)"
        then show ?thesis using p3 unfolding result_ok_def by (simp only: fst_conv snd_conv) simp
      qed (simp only: result_ok_finish [OF p2 w2])
    qed
    ultimately show ?thesis using loop w Pi_look ptr(3) by (cases "w_pi_owned w") (simp_all add: futex_resume_def futex_lock_pi_looked_def)
  next
    case Pi_sleep
    then show ?thesis using w loop ptr(3) result_ok_finish [OF inv w] by (simp add: futex_resume_def futex_lock_pi_woken_def)
  qed (use pf futex_invD(5) [OF d(1) w] in \<open>auto simp: pframe_def frame_ok_def\<close>)
qed

lemma pi_owner_is_caller:
  assumes "good_tids N tid" "pi_inv N tid p (h, st)" "idle t st" "word_tid p st = tid t"
  shows "h = Some t" "heap_get (f_waits st) i = Some w \<Longrightarrow> \<not> w_pi_owned w"
proof -
  note d = pi_invD [OF assms(2)]
  have t: "t < N" "tid t \<noteq> 0" using assms(1,3) d(2) by (auto simp: idle_def good_tids_def)
  show none: "\<not> w_pi_owned w" if "heap_get (f_waits st) i = Some w" for i w
  proof
    assume "w_pi_owned w"
    then have "tid (w_task w) = tid t" using d(3) [OF that] assms(4) by (simp add: pframe_def)
    then have "w_task w = t" using assms(1) d(5) [OF that] t by (auto simp: good_tids_def inj_on_def)
    then show False using assms(3) that by (auto simp: idle_def)
  qed
  show "h = Some t"
  proof (cases h)
    case None
    then show ?thesis using d(4) assms(4) t none by (auto simp: holder_ok_def)
  next
    case (Some u)
    then show ?thesis using d(4) assms(1,4) t by (auto simp: holder_ok_def good_tids_def inj_on_def)
  qed
qed

text \<open>The holder gives the lock up: the word is free, or names a waiter that is handed it.\<close>

lemma pi_release_ok:
  assumes g: "good_tids N tid" and inv: "pi_inv N tid p (h, st)" and id: "idle t st" "word_tid p st = tid t"
  shows "pi_inv N tid p (None, st\<lparr>f_store := host_store p 0 (f_store st)\<rparr>)"
proof -
  note d = pi_invD [OF inv] and none = pi_owner_is_caller(2) [OF g inv id]
  show ?thesis using d(1,2,3) none by (auto simp: pi_inv_def pframe_def holder_ok_def)
qed

lemma pi_inv_same:
  assumes "pi_inv N tid p (h, st)" "futex_inv [] st'" "f_waits st' = f_waits st" "f_store st' = f_store st" "length (f_tasks st') = length (f_tasks st)"
  shows "pi_inv N tid p (h, st')"
  using assms by (cases h) (auto simp: pi_inv_def pframe_def holder_ok_def)

lemma pi_grant_ok:
  assumes g: "good_tids N tid" and inv: "pi_inv N tid p (h, st)" and id: "idle t st" "word_tid p st = tid t"
    and w: "heap_get (f_waits st) i = Some w"
    and st': "futex_inv [] st'" "length (f_tasks st') = length (f_tasks st)" "f_store st' = host_store p (w_tid w OR FUTEX_WAITERS) (f_store st)"
      "\<And>j. heap_get (f_waits st') j = (if j = i then Some (w\<lparr>w_pi_owned := True, w_notified := True\<rparr>) else heap_get (f_waits st) j)"
  shows "pi_inv N tid p (None, st')"
proof -
  note d = pi_invD [OF inv] and none = pi_owner_is_caller(2) [OF g inv id]
  have T: "word_tid p st' = w_tid w"
    using st'(3) d(3) [OF w] d(5) [OF w] g by (simp add: tid_bits(2) pframe_def good_tids_def)
  have "holder_ok N tid p None st'" by (rule holder_okI [of _ i "w\<lparr>w_pi_owned := True, w_notified := True\<rparr>"]) (use st'(4) T in auto)
  moreover have "pframe N tid p None st' v" if "heap_get (f_waits st') j = Some v" for j v
    using that d(3) [of j v] d(3) [OF w] none [of j v] T unfolding st'(4) by (auto simp: pframe_def split: if_splits)
  ultimately show ?thesis using st'(1,2) d(2) by (simp add: pi_inv_def)
qed

lemma pi_unlock_ok:
  assumes g: "good_tids N tid" and inv: "pi_inv N tid p (h, st)" and env: "pi_env N tid p env uaddr" and id: "idle (fe_task env) st"
  shows "pi_inv N tid p (if fst (futex_unlock_pi env uaddr op st) = Inr 0 then None else h, snd (futex_unlock_pi env uaddr op st))"
    and "fst (futex_unlock_pi env uaddr op st) = Inr 0 \<Longrightarrow> h = Some (fe_task env)"
proof -
  note d = pi_invD [OF inv]
  have e: "user_ptr env True uaddr = Some p" "user_ptr env False uaddr = Some p" "fe_tid env = tid (fe_task env)" "fe_races env = []"
    using env by (simp_all add: pi_env_def)
  obtain r st1 where gt: "futex_get_unlocked env (futex_key_of env uaddr op) st = (r, st1)" by fastforce
  have "pi_inv N tid p (if fst (futex_unlock_pi env uaddr op st) = Inr 0 then None else h, snd (futex_unlock_pi env uaddr op st)) \<and>
    (fst (futex_unlock_pi env uaddr op st) = Inr 0 \<longrightarrow> h = Some (fe_task env))"
  proof (cases r)
    case None
    then show ?thesis using gt futex_get_none inv by (auto simp: futex_unlock_pi_def)
  next
    case (Some a)
    note i1 = futex_get_inv [OF d(1) gt [unfolded Some]]
    let ?v = "host_load (f_store st) p"
    have ld: "futex_load env uaddr st1 = Some ?v" using e(2) i1(4) by (simp add: futex_load_def)
    have cas: "futex_cas env None uaddr ?v x st1 = (None, st1\<lparr>f_store := host_store p x (f_store st)\<rparr>)" for x
      using e(1) i1(4) by (simp add: futex_cas_def)
    have u: "futex_unlock_pi env uaddr op st = (case futex_unlock_pi_pass env None uaddr a st1 of
      (Some r, s) \<Rightarrow> (r, futex_put_unlocked a s) | (None, s) \<Rightarrow> (Inl EAGAIN, futex_put_unlocked a s))"
      using gt Some e(4) by (simp add: futex_unlock_pi_def case_prod_beta split: option.split)
    show ?thesis
    proof (cases "word_tid p st = tid (fe_task env)")
      case False
      then have "futex_unlock_pi env uaddr op st = (Inl EPERM, futex_put_unlocked a st1)" using u ld e(3) by (simp add: futex_unlock_pi_pass_def)
      moreover have "pi_inv N tid p (h, futex_put_unlocked a st1)" using inv futex_put_inv [OF i1(1)] by (rule pi_inv_same) (use i1 in simp_all)
      ultimately show ?thesis by simp
    next
      case True
      have h: "h = Some (fe_task env)" using pi_owner_is_caller(1) [OF g inv id True] .
      have "\<exists>s. futex_unlock_pi env uaddr op st = (Inr 0, s) \<and> pi_inv N tid p (None, s)" using i1(1)
      proof (cases rule: pi_first_none [where a = a])
        case 1
        have "futex_unlock_pi env uaddr op st = (Inr 0, futex_put_unlocked a (st1\<lparr>f_store := host_store p 0 (f_store st)\<rparr>))"
          using u ld e(3) True 1 cas by (simp add: futex_unlock_pi_pass_def)
        moreover have "pi_inv N tid p (None, futex_put_unlocked a (st1\<lparr>f_store := host_store p 0 (f_store st)\<rparr>))"
          using pi_release_ok [OF g inv id True] by (rule pi_inv_same) (use i1 futex_put_inv in simp_all)
        ultimately show ?thesis by blast
      next
        case (2 f i)
        obtain w where w: "heap_get (f_waits st1) i = Some w" "w_futex w = a" "w_pi_queued w" using pi_queue_frame [OF i1(1) 2(2,3)] by blast
        let ?s = "wait_notify i (futex_upd a (fx_pi_owner_update (\<lambda>_. w_tid w))
          (wait_upd i (w_pi_owned_update (\<lambda>_. True)) (pi_queue_remove a i (st1\<lparr>f_store := host_store p (w_tid w OR FUTEX_WAITERS) (f_store st)\<rparr>))))"
        have "futex_inv [a] ?s" by (intro notify_inv futex_inv_upd pi_grant_inv [of "[a]" _ i w]) (use i1(1) w in auto)
        then have "futex_inv [] (futex_put_unlocked a ?s)" by (rule futex_put_inv)
        moreover have "heap_get (f_waits st) i = Some w" using w(1) i1(2) by simp
        ultimately have "pi_inv N tid p (None, futex_put_unlocked a ?s)"
          using pi_grant_ok [OF g inv id True, of i w "futex_put_unlocked a ?s"] i1 w(1) by (simp add: wait_notify_def)
        moreover have "futex_unlock_pi env uaddr op st = (Inr 0, futex_put_unlocked a ?s)"
          using u ld e(3) True 2(1) w(1) cas by (simp add: futex_unlock_pi_pass_def)
        ultimately show ?thesis by blast
      qed
      then show ?thesis using h by auto
    qed
  qed
  then show "pi_inv N tid p (if fst (futex_unlock_pi env uaddr op st) = Inr 0 then None else h, snd (futex_unlock_pi env uaddr op st))"
    "fst (futex_unlock_pi env uaddr op st) = Inr 0 \<Longrightarrow> h = Some (fe_task env)" by auto
qed

lemma pi_step_inv:
  assumes "pi_step N tid p s s'" "good_tids N tid" "pi_inv N tid p s"
  shows "pi_inv N tid p s' \<and> (fst s \<noteq> None \<longrightarrow> fst s' = fst s \<or> fst s' = None)"
  using assms(1)
proof cases
  case (lock env uaddr st op timeout trylock out st' h)
  then show ?thesis using pi_lock_ok [OF assms(2), of p h st env uaddr op timeout trylock] assms(3) by (auto simp: result_ok_def split: if_splits)
next
  case (resume st i w env err out st' h)
  then show ?thesis using pi_resume_ok [OF assms(2), of p h st i w env err] assms(3) by (auto simp: result_ok_def split: if_splits)
next
  case (unlock env uaddr st op r st' h)
  then show ?thesis using pi_unlock_ok [OF assms(2), of p h st env uaddr op] assms(3) by (auto split: if_splits)
next
  case (take t st h)
  note d = pi_invD [OF assms(3) [unfolded take(1)]]
  have t: "t < N" "tid t AND FUTEX_TID_MASK = tid t" using take(3) d(2) assms(2) by (auto simp: idle_def good_tids_def)
  have h: "h = None" using d(4) take(4) assms(2) by (auto simp: holder_ok_def good_tids_def split: option.splits)
  have none: "\<not> w_pi_owned w" if "heap_get (f_waits st) i = Some w" for i w
    using d(3) [OF that] d(5) [OF that] take(4) assms(2) by (auto simp: pframe_def good_tids_def)
  have "pi_inv N tid p (Some t, st\<lparr>f_store := host_store p (tid t) (f_store st)\<rparr>)"
    using d(1,2) d(3) none t by (auto simp: pi_inv_def pframe_def holder_ok_def)
  then show ?thesis using take h by simp
next
  case (drop t st h)
  have t: "tid t AND FUTEX_TID_MASK = tid t" using drop(3) pi_invD(2) [OF assms(3) [unfolded drop(1)]] assms(2) by (auto simp: idle_def good_tids_def)
  show ?thesis using pi_release_ok [OF assms(2) assms(3) [unfolded drop(1)] drop(3)] drop t by simp
next
  case (interrupt h st i)
  have "futex_inv [] (futex_interrupt i st)" using fstep_inv [OF fstep.interrupt] pi_invD(1) [OF assms(3) [unfolded interrupt(1)]] by simp
  from pi_inv_wait_upd [OF assms(3) [unfolded interrupt(1)] this [unfolded futex_interrupt_def]] pi_invD(3) [OF assms(3) [unfolded interrupt(1)]]
  show ?thesis using interrupt by (auto simp: futex_interrupt_def pframe_def)
qed

lemma pi_reach_inv: "pi_reach N tid p s \<Longrightarrow> good_tids N tid \<Longrightarrow> pi_inv N tid p s"
proof (induction rule: pi_reach.induct)
  case (start st)
  then show ?case using freach_inv by (auto simp: pi_start_def pi_inv_def holder_ok_def)
qed (use pi_step_inv in blast)

section \<open>The loops end\<close>

text \<open>
  Without a store in between, a pass of the loops of PI locks does not start over, as long as a word that can be written is
  written where it is read. So the list of stores is all the loops need.
\<close>

lemma cas_matches:
  assumes "user_ptr env True u = None \<or> user_ptr env True u = user_ptr env False u" "futex_load env u st = Some v" "f_store st' = f_store st"
  shows "fst (futex_cas env None u v x st') \<noteq> Some EAGAIN"
  using assms by (auto simp: futex_cas_def futex_load_def Let_def split: option.split)

lemma pi_first_store: "f_store (snd (futex_pi_first_waiter a self st)) = f_store st"
proof -
  have "f_store (snd (futex_pi_first_loop self a is st)) = f_store st" for "is"
    by (induction self a "is" st rule: futex_pi_first_loop.induct) (simp_all add: pi_queue_remove_def)
  then show ?thesis by (simp add: futex_pi_first_waiter_def split: option.split)
qed

lemma lock_pi_pass_ends:
  assumes "\<And>u. user_ptr env True u = None \<or> user_ptr env True u = user_ptr env False u"
  shows "fst (futex_lock_pi_pass env None i st) \<noteq> None"
proof (cases "heap_get (f_waits st) i")
  case (Some w)
  have ret: "fst (futex_lock_pi_ret r i s) \<noteq> None" for r s by (simp add: futex_lock_pi_ret_def split: prod.split)
  have cont: "fst (futex_lock_pi_contended i w v s) \<noteq> None" for v s using ret by (auto simp: futex_lock_pi_contended_def)
  have free: "fst (futex_lock_pi_free env None i w v st) \<noteq> None" if "futex_load env (w_uaddr w) st = Some v" for v
    using cas_matches [OF assms that] pi_first_store [of "w_futex w" "Some i" st] ret
    by (auto simp: futex_lock_pi_free_def Let_def split: prod.split option.split) (metis fst_conv snd_conv)+
  show ?thesis
    using Some ret cont free cas_matches [OF assms _ refl]
    by (auto simp: futex_lock_pi_pass_def Let_def split: prod.split option.split) (metis fst_conv)+
qed (simp add: futex_lock_pi_pass_def)

lemma unlock_pi_pass_ends:
  assumes "user_ptr env True u = None \<or> user_ptr env True u = user_ptr env False u"
  shows "fst (futex_unlock_pi_pass env None u a st) \<noteq> None"
  using cas_matches [OF assms] pi_first_store [of a None st]
  by (auto simp: futex_unlock_pi_pass_def Let_def split: prod.split option.split) (metis fst_conv snd_conv)+

end
