(* ===== verification/Futex_Props.thy ===== *)
theory Futex_Props
  imports Futex_Pi
begin

text \<open>
  What futexes promise: exact reference counts, waking in the order of waiting, moving waiters between
  words, mutual exclusion of PI locks; and two wake-ups that the handling of signals loses.
\<close>

text \<open>A call that ends in the queue of its futex, about to sleep.\<close>

definition goes_to_sleep :: "outcome \<times> fstate \<Rightarrow> bool" where
  "goes_to_sleep r = (case fst r of Spinning j \<Rightarrow> wait_queued j (snd r) | Blocked j t capped \<Rightarrow> wait_queued j (snd r) | _ \<Rightarrow> False)"

section \<open>An example\<close>

text \<open>Two tasks of one process; task 0 waits on the word at address 64.\<close>

definition ex_fenv :: "nat \<Rightarrow> fenv" where
  "ex_fenv t = \<lparr>fe_task = t, fe_tid = of_nat t + 100, fe_abi = GUEST_ABI_AMD64, fe_mem = 1, fe_shared = (\<lambda>_. None),
     fe_ptr = (\<lambda>_ a. if a < 4096 then Some (unat a, False) else None), fe_host_ok = (\<lambda>_. True), fe_range = (\<lambda>_ _. True), fe_nomem = (\<lambda>_. False),
     fe_now = ts_zero, fe_guest_now = (\<lambda>_. ts_zero), fe_freeze = False, fe_trap_stop = False, fe_pending = 0, fe_group_pending = 0,
     fe_wake_blocked = 0, fe_restart = True, fe_spin = False, fe_pids = (\<lambda>tid. Some (0, False, False)), fe_races = []\<rparr>"

definition ex_task :: ftask where
  "ex_task = \<lparr>ft_park = None, ft_park_uaddr = 0, ft_wake_seq = 0, ft_timed = False, ft_deadline = ts_zero, ft_timeout = ts_zero, ft_robust = 0\<rparr>"

definition ex_tasks :: fstate where
  "ex_tasks = futex_task_create ex_task (futex_task_create ex_task (init_futex_hash (\<lambda>_. 0)))"

definition ex_key :: futex_key where
  "ex_key = \<lparr>fk_kind = 0, fk_object0 = 1, fk_object1 = 0, fk_offset = 64\<rparr>"

definition ex_wait :: futex_wait where
  "ex_wait = \<lparr>w_magic = FUTEX_WAIT_MAGIC, w_notified = False, w_futex = 0, w_task = 0, w_bitset = NOT 0, w_interrupted = False,
     w_tid = 0, w_pi_owned = False, w_uaddr = 64, w_timeout = None, w_deadline = ts_zero, w_pi = False, w_trylock = False,
     w_pi_queued = False, w_pc = Wait_sleep\<rparr>"

definition ex_futex :: "nat list \<Rightarrow> u64 \<Rightarrow> futex" where
  "ex_futex q s = \<lparr>fx_refcount = 1, fx_key = ex_key, fx_queue = q, fx_pi_queue = [], fx_pi_owner = 0, fx_wake_seq = s\<rparr>"

definition ex_waiting :: fstate where
  "ex_waiting = \<lparr>f_heap = [Some (ex_futex [0] 0)], f_hash = (\<lambda>_. [])(futex_key_hash ex_key := [0]), f_waits = [Some ex_wait],
     f_tasks = [ex_task, ex_task], f_pi_waiting = 0, f_store = (\<lambda>_. 0), f_abort = False\<rparr>"

text \<open>Task 0 with a signal pending.\<close>

definition ex_signal :: fenv where
  "ex_signal = (ex_fenv 0)\<lparr>fe_pending := 1\<rparr>"

text \<open>Task 0 owns the PI lock at 64 and task 1 waits for it.\<close>

definition ex_contended :: fstate where
  "ex_contended = snd (futex_resume (ex_fenv 1) (Inr ()) 0 (snd (sys_futex_common (ex_fenv 1) 64 134 0 0 0 0 True
     (ex_tasks\<lparr>f_store := host_store 64 100 (\<lambda>_. 0)\<rparr>))))"

lemma ex_fenv_simps [simp]:
  "fe_task (ex_fenv t) = t" "fe_tid (ex_fenv t) = of_nat t + 100" "fe_abi (ex_fenv t) = GUEST_ABI_AMD64" "fe_nomem (ex_fenv t) k = False"
  "fe_now (ex_fenv t) = ts_zero" "fe_spin (ex_fenv t) = False" "fe_restart (ex_fenv t) = True" "fe_races (ex_fenv t) = []"
  "user_ptr (ex_fenv t) wr 64 = Some 64" "futex_wait_has_pending_signal (ex_fenv t) = False"
  by (simp_all add: ex_fenv_def user_ptr_def futex_wait_has_pending_signal_def)

lemma ex_tasks_simps:
  "f_heap ex_tasks = []" "f_waits ex_tasks = []" "f_tasks ex_tasks = [ex_task, ex_task]" "f_store ex_tasks = (\<lambda>_. 0)" "f_hash ex_tasks = (\<lambda>_. [])"
  "f_pi_waiting ex_tasks = 0" "f_abort ex_tasks = False"
  by (simp_all add: ex_tasks_def futex_task_create_def init_futex_hash_def ex_task_def)

lemma ex_tasks_eq: "ex_tasks = \<lparr>f_heap = [], f_hash = (\<lambda>_. []), f_waits = [], f_tasks = [ex_task, ex_task], f_pi_waiting = 0, f_store = (\<lambda>_. 0), f_abort = False\<rparr>"
  using ex_tasks_simps by (cases ex_tasks) simp

lemma ex_tasks_reach: "freach ex_tasks"
  unfolding ex_tasks_def by (intro freach.step [OF _ fstep.create] freach.init)

lemma ex_key_of: "op AND FUTEX_PRIVATE_FLAG \<noteq> 0 \<Longrightarrow> futex_key_of (ex_fenv t) 64 op = ex_key"
  by (simp add: futex_key_of_def ex_fenv_def ex_key_def)

lemma ex_load: "host_load (\<lambda>_. 0) 64 = 0"
  by (simp add: host_load_def upt_rec)

lemma ex_wait_call: "sys_futex_common (ex_fenv 0) 64 128 0 0 0 0 True ex_tasks = (Blocked 0 wait_slice True, ex_waiting)"
proof -
  have k: "futex_key_of (ex_fenv 0) 64 128 = ex_key" by (rule ex_key_of) simp
  have "futex_wait_masked (ex_fenv 0) 64 128 0 None (NOT 0) ex_tasks = (Blocked 0 wait_slice True, ex_waiting)"
    unfolding futex_wait_masked_def k
    by (simp add: futex_get_unlocked_def futex_find_def ex_tasks_eq heap_alloc_def ex_task_def futex_wait_block_def
      futex_load_def ex_load futex_upd_def heap_get_def heap_put_def futex_wait_loop_def futex_slice_def wait_queued_def wait_upd_def
      ex_waiting_def ex_futex_def ex_wait_def Let_def)
  then show ?thesis by (simp add: sys_futex_common_def futex_timeout_def)
qed

lemma ex_waiting_reach: "freach ex_waiting"
proof -
  have "idle (fe_task (ex_fenv 0)) ex_tasks" by (simp add: idle_def ex_tasks_eq heap_get_def)
  from freach.step [OF ex_tasks_reach fstep.call [OF this]] show ?thesis using ex_wait_call by (metis snd_conv)
qed

lemma ex_waiting_simps [simp]:
  "heap_get (f_heap ex_waiting) 0 = Some (ex_futex [0] 0)" "heap_get (f_waits ex_waiting) 0 = Some ex_wait" "f_tasks ex_waiting = [ex_task, ex_task]"
  "f_store ex_waiting = (\<lambda>_. 0)" "fx_queue (ex_futex q s) = q" "fx_key (ex_futex q s) = ex_key" "fx_wake_seq (ex_futex q s) = s" "w_bitset ex_wait = NOT 0"
  by (simp_all add: ex_waiting_def heap_get_def ex_futex_def ex_wait_def)

lemma ex_waiting_queue: "futex_queue ex_key ex_waiting = [0]"
  by (simp add: futex_queue_def futex_find_def ex_waiting_def heap_get_def futex_key_equal_def futex_queue_of_def ex_futex_def)

section \<open>Counts and queues\<close>

text \<open>
  C19 (invariant). In every reachable state no assertion has failed, a live futex has as many references as there are
  waits and parked restarts on it, and at least one; every wait and every parked restart has a live futex; two live
  futexes have different keys; and a queue holds each wait once, only waits on this futex, and only live frames.
\<close>

theorem futex_counts_exact:
  assumes "freach st"
  shows "\<not> f_abort st \<and>
    (\<forall>a f. heap_get (f_heap st) a = Some f \<longrightarrow> fx_refcount f =
       wcount (\<lambda>w. w_futex w = a) (f_waits st) + count_where (\<lambda>t. ft_park t = Some a) (f_tasks st) \<and> 0 < fx_refcount f) \<and>
    (\<forall>i w. heap_get (f_waits st) i = Some w \<longrightarrow> heap_get (f_heap st) (w_futex w) \<noteq> None) \<and>
    (\<forall>t a. t < length (f_tasks st) \<longrightarrow> ft_park (f_tasks st ! t) = Some a \<longrightarrow> heap_get (f_heap st) a \<noteq> None) \<and>
    (\<forall>a b f g. heap_get (f_heap st) a = Some f \<longrightarrow> heap_get (f_heap st) b = Some g \<longrightarrow> fx_key f = fx_key g \<longrightarrow> a = b) \<and>
    (\<forall>a f. heap_get (f_heap st) a = Some f \<longrightarrow> distinct (fx_queue f) \<and>
       (\<forall>i \<in> set (fx_queue f). futex_wait_is_live i st \<and> map_option w_futex (heap_get (f_waits st) i) = Some a))"
proof (intro conjI)
  note d = futex_invD [OF freach_inv [OF assms]]
  show "\<not> f_abort st" by (rule d(1))
  show "\<forall>a f. heap_get (f_heap st) a = Some f \<longrightarrow> fx_refcount f =
       wcount (\<lambda>w. w_futex w = a) (f_waits st) + count_where (\<lambda>t. ft_park t = Some a) (f_tasks st) \<and> 0 < fx_refcount f"
    using d(2) by (simp add: counted_def futex_refs_def)
  show "\<forall>i w. heap_get (f_waits st) i = Some w \<longrightarrow> heap_get (f_heap st) (w_futex w) \<noteq> None"
  proof (intro allI impI)
    fix i w assume "heap_get (f_waits st) i = Some w"
    then show "heap_get (f_heap st) (w_futex w) \<noteq> None"
      using d(2) wcount_pos [of "f_waits st" i w "\<lambda>v. w_futex v = w_futex w"] by (simp add: counted_def futex_refs_def)
  qed
  show "\<forall>t a. t < length (f_tasks st) \<longrightarrow> ft_park (f_tasks st ! t) = Some a \<longrightarrow> heap_get (f_heap st) a \<noteq> None"
    using d(2) count_where_pos [of _ "f_tasks st" "\<lambda>t. ft_park t = Some _"] by (simp add: counted_def futex_refs_def)
  show "\<forall>a b f g. heap_get (f_heap st) a = Some f \<longrightarrow> heap_get (f_heap st) b = Some g \<longrightarrow> fx_key f = fx_key g \<longrightarrow> a = b"
    using d(3) unfolding table_ok_def by blast
  show "\<forall>a f. heap_get (f_heap st) a = Some f \<longrightarrow> distinct (fx_queue f) \<and>
       (\<forall>i \<in> set (fx_queue f). futex_wait_is_live i st \<and> map_option w_futex (heap_get (f_waits st) i) = Some a)"
    using d(4,5) by (fastforce simp: queue_ok_def frame_ok_def futex_wait_is_live_def)
qed

theorem futex_counts_exact_witness:
  "freach ex_waiting \<and> fx_refcount (ex_futex [0] 0) =
     wcount (\<lambda>w. w_futex w = 0) (f_waits ex_waiting) + count_where (\<lambda>t. ft_park t = Some 0) (f_tasks ex_waiting)"
  using futex_counts_exact [OF ex_waiting_reach] ex_waiting_reach ex_waiting_simps(1) by blast

text \<open>
  C20 (refinement). \<^verbatim>\<open>FUTEX_WAKE\<close> and \<^verbatim>\<open>FUTEX_WAKE_BITSET\<close> act on the queues of the keys as a wake of a first-in first-out
  queue: of the waits on the word's key whose bit set meets the mask they take the first \<open>wake_max\<close>, in the order of
  waiting, off the queue and notify them; they return how many, and no other queue and no other wait changes.
\<close>

theorem futex_wake_refines:
  assumes "freach st" "op AND NOT (FUTEX_PRIVATE_FLAG OR FUTEX_CLOCK_REALTIME) \<noteq> 3"
    and "futex_wakelike env op uaddr wake_max rm ra wmask st = (r, st')"
    and "k = futex_key_of env uaddr op" "ws = take (unat wake_max) (filter (matches (\<lambda>b. b AND wmask \<noteq> 0) st) (futex_queue k st))"
  shows "r = Inr (length ws) \<and>
    futex_queue k st' = filter (\<lambda>i. i \<notin> set ws) (futex_queue k st) \<and> (\<forall>k'. k' \<noteq> k \<longrightarrow> futex_queue k' st' = futex_queue k' st) \<and>
    (\<forall>i. heap_get (f_waits st') i = (if i \<in> set ws then map_option (w_notified_update (\<lambda>_. True)) (heap_get (f_waits st) i)
       else heap_get (f_waits st) i))"
  using wakelike_spec [OF freach_inv [OF assms(1)] assms(2) assms(3) [symmetric] assms(4,5)] by simp

theorem futex_wake_refines_witness:
  "fst (futex_wakelike (ex_fenv 1) 129 64 5 0 0 (NOT 0) ex_waiting) = Inr 1 \<and>
   futex_queue ex_key (snd (futex_wakelike (ex_fenv 1) 129 64 5 0 0 (NOT 0) ex_waiting)) = []"
proof -
  have k: "ex_key = futex_key_of (ex_fenv 1) 64 129" by (subst ex_key_of) simp_all
  have "take (unat (5 :: u32)) (filter (matches (\<lambda>b. b AND NOT 0 \<noteq> 0) ex_waiting) (futex_queue ex_key ex_waiting)) = [0]"
    by (simp add: ex_waiting_queue matches_def)
  from futex_wake_refines [OF ex_waiting_reach _ surjective_pairing k this [symmetric]] show ?thesis by (simp add: ex_waiting_queue)
qed

text \<open>
  C21 (refinement). \<^verbatim>\<open>FUTEX_CMP_REQUEUE\<close> with the expected value wakes the first \<open>val\<close> waits of the first word and moves
  the next \<open>val2\<close>, in order, to the end of the queue of the second; the sum is returned and no other queue
  changes. With another value, or an unreadable word, it returns \<^verbatim>\<open>EAGAIN\<close> or \<^verbatim>\<open>EFAULT\<close> and no queue and no wait changes.
\<close>

theorem futex_cmp_requeue_refines:
  assumes "freach st" "\<not> fe_nomem env k1" "\<not> fe_nomem env k2"
    and "k1 = futex_key_of env uaddr op" "k2 = futex_key_of env uaddr2 op" "futex_cmp_requeue env uaddr op val uaddr2 val2 val3 st = (r, st')"
  shows "if futex_load env uaddr st = Some val3
    then r = Inr (min (unat val + unat val2) (length (futex_queue k1 st))) \<and>
      (k1 = k2 \<longrightarrow> futex_queue k1 st' = drop (unat val) (futex_queue k1 st)) \<and>
      (k1 \<noteq> k2 \<longrightarrow> futex_queue k1 st' = drop (unat val + unat val2) (futex_queue k1 st) \<and>
         futex_queue k2 st' = futex_queue k2 st @ take (unat val2) (drop (unat val) (futex_queue k1 st))) \<and>
      (\<forall>k. k \<noteq> k1 \<and> k \<noteq> k2 \<longrightarrow> futex_queue k st' = futex_queue k st)
    else r = Inl (if futex_load env uaddr st = None then EFAULT else EAGAIN) \<and>
      (\<forall>k. futex_queue k st' = futex_queue k st) \<and> f_waits st' = f_waits st"
  using cmp_requeue_spec [OF freach_inv [OF assms(1)] assms(2-5) assms(6) [symmetric]] by auto

theorem futex_cmp_requeue_refines_witness:
  "fst (futex_cmp_requeue (ex_fenv 1) 64 132 0 128 7 0 ex_waiting) = Inr 1 \<and>
   futex_queue (futex_key_of (ex_fenv 1) 128 132) (snd (futex_cmp_requeue (ex_fenv 1) 64 132 0 128 7 0 ex_waiting)) = [0]"
proof -
  have k: "ex_key = futex_key_of (ex_fenv 1) 64 132" by (subst ex_key_of) simp_all
  have ne: "ex_key \<noteq> futex_key_of (ex_fenv 1) 128 132" by (simp add: futex_key_of_def ex_key_def)
  have q: "futex_queue (futex_key_of (ex_fenv 1) 128 132) ex_waiting = []"
    by (auto simp: futex_queue_def futex_find_def ex_waiting_def heap_get_def futex_key_equal_def ex_futex_def ex_key_def futex_key_of_def)
  show ?thesis
    using futex_cmp_requeue_refines [OF ex_waiting_reach _ _ k refl surjective_pairing, of 128 0 0 7] ne q
    by (simp add: ex_waiting_queue futex_load_def ex_load)
qed

section \<open>PI locks\<close>

lemma unlock_other:
  assumes "pi_env N tid p env uaddr" "word_tid p st \<noteq> fe_tid env" "\<not> fe_nomem env (futex_key_of env uaddr op)"
  shows "fst (futex_unlock_pi env uaddr op st) = Inl EPERM"
proof -
  obtain a st1 where g: "futex_get_unlocked env (futex_key_of env uaddr op) st = (Some a, st1)"
    using futex_get_some [OF assms(3)] by blast
  moreover have "f_store st1 = f_store st" using futex_get_sel [OF g] by simp
  ultimately show ?thesis
    using assms(1,2) by (simp add: futex_unlock_pi_def pi_env_def futex_unlock_pi_pass_def futex_load_def split: prod.split)
qed



section \<open>Wake-ups and signals\<close>

lemma heap_get_snoc [simp]: "heap_get (h @ [Some x]) (length h) = Some x"
  by (simp add: heap_get_def)

lemma wait_block_sleeps:
  assumes "heap_get (f_heap st) a = Some f" "futex_load env uaddr st = Some val"
  shows "goes_to_sleep (futex_wait_block env uaddr val None bitset resumed a st)"
  using assms by (simp add: futex_wait_block_def goes_to_sleep_def heap_alloc_def futex_wait_loop_def futex_slice_def wait_queued_def Let_def)

lemma get_put_same:
  assumes "futex_inv [] st" "heap_get (f_heap st) a = Some f"
  shows "futex_get_unlocked env (fx_key f) st = (Some a, futex_upd a (fx_refcount_update Suc) st)"
    "futex_put_unlocked a (futex_upd a (fx_refcount_update Suc) st) = st"
proof -
  note d = futex_invD [OF assms(1)]
  have "futex_find (fx_key f) st = Some a" using futex_find_iff [OF d(3)] assms(2) by blast
  then show "futex_get_unlocked env (fx_key f) st = (Some a, futex_upd a (fx_refcount_update Suc) st)" by (simp add: futex_get_unlocked_def)
  have "0 < fx_refcount f" using d(2) assms(2) by (simp add: counted_def)
  then show "futex_put_unlocked a (futex_upd a (fx_refcount_update Suc) st) = st"
    using assms(2) by (cases st) (auto simp: futex_put_unlocked_def futex_upd_def heap_put_def heap_get_def list_update_same_conv split: if_splits)
qed

text \<open>A restarted wait finds its parked futex: it was woken meanwhile, or it waits again.\<close>

lemma restart_masked:
  assumes "futex_inv [] st" "fe_task env < length (f_tasks st)" "ft_park (f_tasks st ! fe_task env) = Some a"
    and "heap_get (f_heap st) a = Some f" "futex_key_of env uaddr op = fx_key f"
  shows "fx_wake_seq f \<noteq> ft_wake_seq (f_tasks st ! fe_task env) \<Longrightarrow> fst (futex_wait_masked env uaddr op val timeout bitset st) = Return (Inr 0)"
    and "fx_wake_seq f = ft_wake_seq (f_tasks st ! fe_task env) \<Longrightarrow> futex_load env uaddr st = Some val \<Longrightarrow>
      goes_to_sleep (futex_wait_masked env uaddr op val None bitset st)"
  using get_put_same [OF assms(1,4)] assms(2-5)
  by (simp_all add: futex_wait_masked_def Let_def wait_block_sleeps futex_load_def)

lemma wakelike_seq:
  fixes op :: u32
  assumes "futex_inv [] st" "heap_get (f_heap st) a = Some f" "futex_key_of env uaddr op = fx_key f"
    and "op AND NOT (FUTEX_PRIVATE_FLAG OR FUTEX_CLOCK_REALTIME) \<noteq> 3" "futex_wakelike env op uaddr n rm ra wmask st = (r, st')"
  obtains f' where "heap_get (f_heap st') a = Some f'" "fx_key f' = fx_key f" "fx_wake_seq f' = fx_wake_seq f + 1" "f_tasks st' = f_tasks st" "f_store st' = f_store st"
proof -
  let ?st = "futex_upd a (\<lambda>f. f\<lparr>fx_wake_seq := fx_wake_seq f + 1\<rparr>) (futex_upd a (fx_refcount_update Suc) st)"
  obtain m s where l: "futex_wake_loop (\<lambda>b. b AND wmask \<noteq> 0) (unat n) a (futex_queue_of a ?st) 0 ?st = (m, s)" by fastforce
  have s: "st' = futex_put_unlocked a s"
    using assms(3-5) get_put_same(1) [OF assms(1,2)] l by (simp add: futex_wakelike_def Let_def)
  have inv: "futex_inv [a] ?st"
  proof (rule futex_inv_upd)
    show "futex_inv [a] (futex_upd a (fx_refcount_update Suc) st)" using futex_get_inv(1) [OF assms(1) get_put_same(1) [OF assms(1,2)]] .
  qed (auto simp: queue_ok_def)
  have "heap_get (f_heap ?st) a = Some (f\<lparr>fx_refcount := Suc (fx_refcount f), fx_wake_seq := fx_wake_seq f + 1\<rparr>)" using assms(2) by simp
  from wake_queue_spec [OF inv this, where P = "\<lambda>b. b AND wmask \<noteq> 0" and mx = "unat n"] l obtain ws where "woken a ws ?st s" by simp
  moreover have "0 < fx_refcount f" using futex_invD(2) [OF assms(1)] assms(2) by (simp add: counted_def)
  ultimately show thesis using that assms(2) by (simp add: s woken_def)
qed

text \<open>
  C38 (liveness). A wait that a signal interrupted is parked until its call is restarted, with the number of wakes its futex had seen.
  If a \<^verbatim>\<open>FUTEX_WAKE\<close> on the same key comes before the restart, the restarted call returns 0 at once, whatever the word
  holds; if none comes and the word still has the expected value, it queues itself and sleeps again.
\<close>

theorem futex_restart_keeps_wake:
  assumes "freach st" "fe_task env < length (f_tasks st)" "ft_park (f_tasks st ! fe_task env) = Some a"
    and "heap_get (f_heap st) a = Some f" "futex_key_of env uaddr op = fx_key f" "ft_wake_seq (f_tasks st ! fe_task env) = fx_wake_seq f"
  shows "(\<forall>env2 uaddr2 op2 n rm ra wmask r st'. futex_key_of env2 uaddr2 op2 = fx_key f \<longrightarrow>
       op2 AND NOT (FUTEX_PRIVATE_FLAG OR FUTEX_CLOCK_REALTIME) \<noteq> 3 \<longrightarrow> futex_wakelike env2 op2 uaddr2 n rm ra wmask st = (r, st') \<longrightarrow>
       fst (futex_wait_masked env uaddr op val timeout bitset st') = Return (Inr 0)) \<and>
     (futex_load env uaddr st = Some val \<longrightarrow> goes_to_sleep (futex_wait_masked env uaddr op val None bitset st))"
proof (intro conjI allI impI)
  fix env2 uaddr2 op2 n rm ra wmask r st'
  assume k: "futex_key_of env2 uaddr2 op2 = fx_key f" and c: "op2 AND NOT (FUTEX_PRIVATE_FLAG OR FUTEX_CLOCK_REALTIME) \<noteq> (3 :: u32)"
    and w: "futex_wakelike env2 op2 uaddr2 n rm ra wmask st = (r, st')"
  obtain f' where f': "heap_get (f_heap st') a = Some f'" "fx_key f' = fx_key f" "fx_wake_seq f' = fx_wake_seq f + 1" "f_tasks st' = f_tasks st"
    using wakelike_seq [OF freach_inv [OF assms(1)] assms(4) k c w] by metis
  have "futex_inv [] st'" using wakelike_inv [OF freach_inv [OF assms(1)], where env = env2] w by (metis snd_conv)
  from restart_masked(1) [OF this _ _ f'(1)] show "fst (futex_wait_masked env uaddr op val timeout bitset st') = Return (Inr 0)"
    using assms(2,3,5,6) f'(2-4) by simp
qed (use restart_masked(2) [OF freach_inv [OF assms(1)] assms(2-5)] assms(6) in simp)

lemma ex_signal_simps [simp]: "fe_task ex_signal = 0" "fe_restart ex_signal" "futex_wait_has_pending_signal ex_signal"
  by (simp_all add: ex_signal_def futex_wait_has_pending_signal_def ex_fenv_def)

theorem futex_restart_keeps_wake_witness:
  "let st = snd (futex_resume ex_signal (Inl EINTR) 0 ex_waiting)
   in ft_park (f_tasks st ! 0) = Some 0 \<and>
     fst (futex_wait_masked (ex_fenv 0) 64 128 0 None (NOT 0) (snd (futex_wakelike (ex_fenv 1) 129 64 1 0 0 (NOT 0) st))) = Return (Inr 0) \<and>
     goes_to_sleep (futex_wait_masked (ex_fenv 0) 64 128 0 None (NOT 0) st)"
proof -
  let ?st = "snd (futex_resume ex_signal (Inl EINTR) 0 ex_waiting)"
  have reach: "freach ?st"
    by (rule freach.step [OF ex_waiting_reach]) (rule fstep.resume [where w = ex_wait], simp_all add: ex_wait_def)
  have k: "futex_key_of (ex_fenv 0) 64 128 = ex_key" "futex_key_of (ex_fenv 1) 64 129 = ex_key" by (rule ex_key_of, simp)+
  have st: "heap_get (f_heap ?st) 0 = Some (ex_futex [] 0)" "ft_park (f_tasks ?st ! 0) = Some 0" "ft_wake_seq (f_tasks ?st ! 0) = 0"
    "length (f_tasks ?st) = 2" "f_store ?st = (\<lambda>_. 0)"
    by (simp_all add: futex_resume_def futex_wait_woken_def futex_wait_finish_def ex_wait_def task_upd_def Let_def)
      (simp add: ex_futex_def)
  show ?thesis
    unfolding Let_def using futex_restart_keeps_wake [OF reach _ _ st(1), of "ex_fenv 0" 64 128 0 None "NOT 0"] st k
    by (simp add: futex_load_def ex_load prod_eq_iff)
qed

lemma interrupted_sleeps_again:
  assumes "futex_inv [] st" "heap_get (f_waits st) i = Some w" "w_pc w = Wait_sleep" "fe_task env = w_task w"
    and "futex_wait_has_pending_signal env" "fe_restart env" "futex_resume env err i st = (out, st')"
    and "heap_get (f_heap st) (w_futex w) = Some f" "futex_key_of env' uaddr op = fx_key f" "fe_task env' = w_task w" "futex_load env' uaddr st = Some val"
  shows "out = Return (Inl ERESTART)" "goes_to_sleep (futex_wait_masked env' uaddr op val None bitset st')"
proof -
  have t: "w_task w < length (f_tasks st)" using futex_invD(5) [OF assms(1,2)] by (simp add: frame_ok_def)
  have r: "futex_resume env err i st = futex_wait_ret env (futex_wait_finish (Inl EINTR) i st)"
    using assms(2,3,5) by (simp add: futex_resume_def futex_wait_woken_def)
  have p: "out = Return (Inl ERESTART)" "ft_park (f_tasks st' ! w_task w) = Some (w_futex w)" "ft_wake_seq (f_tasks st' ! w_task w) = fx_wake_seq f"
    "length (f_tasks st') = length (f_tasks st)" "f_store st' = f_store st"
    "heap_get (f_heap st') (w_futex w) = Some (f\<lparr>fx_queue := removeAll i (fx_queue f)\<rparr>)"
    using assms(2,6-8) t unfolding r by (auto simp: futex_wait_finish_def Let_def task_upd_def)
  have "futex_inv [] st'" using resume_inv [OF assms(1,2), of env err] assms(4,7) by (metis snd_conv)
  from restart_masked(2) [OF this _ _ p(6)] show "goes_to_sleep (futex_wait_masked env' uaddr op val None bitset st')"
    using assms(9-11) p t by (simp add: futex_load_def)
  show "out = Return (Inl ERESTART)" by (rule p(1))
qed

text \<open>
  C39 (error). The order of the checks after a sleep loses a wake-up. A \<^verbatim>\<open>FUTEX_WAKE\<close> of one takes the first wait off the queue and
  returns 1; if the task that waits has a signal pending when it runs, its call is told to restart, and the
  restarted call queues itself and sleeps again while the word has the expected value. Nobody is awake for this wake.
\<close>

theorem futex_signal_eats_wake:
  fixes op1 :: u32
  assumes "freach st" "heap_get (f_heap st) a = Some f" "fx_queue f = i # is" "heap_get (f_waits st) i = Some w" "w_pc w = Wait_sleep" "w_bitset w \<noteq> 0"
    and "futex_key_of env1 uaddr1 op1 = fx_key f" "op1 AND NOT (FUTEX_PRIVATE_FLAG OR FUTEX_CLOCK_REALTIME) \<noteq> 3"
    and "futex_wakelike env1 op1 uaddr1 1 0 0 (NOT 0) st = (r, st1)"
    and "fe_task env = w_task w" "futex_wait_has_pending_signal env" "fe_restart env" "futex_resume env err i st1 = (out, st2)"
    and "futex_key_of env2 uaddr op = fx_key f" "fe_task env2 = w_task w" "futex_load env2 uaddr st = Some val"
  shows "r = Inr 1 \<and> out = Return (Inl ERESTART) \<and> goes_to_sleep (futex_wait_masked env2 uaddr op val None bitset st2)"
proof -
  note inv = freach_inv [OF assms(1)]
  obtain f' where f': "heap_get (f_heap st1) a = Some f'" "fx_key f' = fx_key f" "f_store st1 = f_store st"
    using wakelike_seq [OF inv assms(2,7-9)] by metis
  have "matches (\<lambda>b. b AND NOT 0 \<noteq> 0) st i" using assms(4,6) by (simp add: matches_def)
  then have ws: "take (unat (1 :: u32)) (filter (matches (\<lambda>b. b AND NOT 0 \<noteq> 0) st) (futex_queue (fx_key f) st)) = [i]"
    using futex_queue_iff [OF futex_invD(3) [OF inv] assms(2)] assms(3) by simp
  note s = wakelike_spec [OF inv assms(8) assms(9) [symmetric] assms(7) [symmetric] ws [symmetric]]
  have w: "heap_get (f_waits st1) i = Some (w\<lparr>w_notified := True\<rparr>)" using s(3) [of i] assms(4) by simp
  have a: "w_futex w = a" using futex_invD(4) [OF inv assms(2)] assms(3,4) by (simp add: queue_ok_def)
  have "futex_inv [] st1" using wakelike_inv [OF inv, where env = env1] assms(9) by (metis snd_conv)
  note l = interrupted_sleeps_again [OF this w _ _ assms(11-13), of f' env2 uaddr op val]
  show ?thesis using s(1) l assms(5,10,14-16) f' a by (simp add: futex_load_def)
qed

theorem futex_signal_eats_wake_witness:
  "let r = futex_wakelike (ex_fenv 1) 129 64 1 0 0 (NOT 0) ex_waiting; r' = futex_resume ex_signal (Inl EINTR) 0 (snd r)
   in fst r = Inr 1 \<and> fst r' = Return (Inl ERESTART) \<and> goes_to_sleep (futex_wait_masked (ex_fenv 0) 64 128 0 None (NOT 0) (snd r'))"
proof -
  have k: "futex_key_of (ex_fenv 0) 64 128 = ex_key" "futex_key_of (ex_fenv 1) 64 129 = ex_key" by (rule ex_key_of, simp)+
  have "w_pc ex_wait = Wait_sleep" "w_task ex_wait = 0" "w_bitset ex_wait \<noteq> 0" by (simp_all add: ex_wait_def)
  with k show ?thesis
    using futex_signal_eats_wake [OF ex_waiting_reach ex_waiting_simps(1) _ ex_waiting_simps(2) _ _ _ _ surjective_pairing _ _ _ surjective_pairing,
      where ?env1.0 = "ex_fenv 1" and ?uaddr1.0 = 64 and ?op1.0 = 129 and env = ex_signal and err = "Inl EINTR" and ?env2.0 = "ex_fenv 0"
        and uaddr = 64 and op = 128 and val = 0 and bitset = "NOT 0"]
    by (simp add: Let_def futex_load_def ex_load)
qed

section \<open>Handing a PI lock over\<close>

lemma pi_owned_returns:
  assumes "heap_get (f_waits st) i = Some w" "w_pi_owned w" "w_pi w" "frame_ok st i w"
  shows "fst (futex_resume env err i st) = Return (Inr 0)"
proof -
  have l: "fst (futex_lock_pi_loop env rs i st) = Return (Inr 0)" for rs
    using assms(1,2) by (cases rs) (simp_all add: futex_lock_pi_pass_def futex_lock_pi_ret_def futex_lock_pi_finish_def Let_def)
  show ?thesis
    using assms l by (cases "w_pc w") (simp_all add: futex_resume_def futex_lock_pi_looked_def futex_lock_pi_woken_def frame_ok_def)
qed

text \<open>
  C37 (liveness). \<^verbatim>\<open>FUTEX_UNLOCK_PI\<close> by the owner of a contended lock hands it to the task that has waited longest: the word
  names that task, with the \<^verbatim>\<open>FUTEX_WAITERS\<close> bit, the other waits stay in their order, and the wait of that task returns 0 as soon as it runs,
  even when a signal is pending.
\<close>

theorem pi_unlock_hands_over:
  assumes "freach st" "heap_get (f_heap st) a = Some f" "fx_pi_queue f = i # is" "heap_get (f_waits st) i = Some w"
    and "futex_key_of env uaddr op = fx_key f" "user_ptr env True uaddr = Some p" "user_ptr env False uaddr = Some p" "fe_races env = []"
    and "word_tid p st = fe_tid env" "futex_unlock_pi env uaddr op st = (r, st')"
  shows "r = Inr 0 \<and> host_load (f_store st') p = w_tid w OR FUTEX_WAITERS \<and> map_option fx_pi_queue (heap_get (f_heap st') a) = Some is \<and>
    fst (futex_resume env2 err i st') = Return (Inr 0)"
proof -
  note inv = freach_inv [OF assms(1)]
  note d = futex_invD [OF inv]
  have q: "distinct (i # is)" "w_futex w = a" "w_pi_queued w" "\<not> w_pi_owned w" using d(4) [OF assms(2)] assms(3,4) by (simp_all add: queue_ok_def)
  have live: "futex_wait_is_live i st" "w_pi w" using d(5) [OF assms(4)] q(3) assms(4) by (simp_all add: frame_ok_def futex_wait_is_live_def)
  have rc: "0 < fx_refcount f" using d(2) assms(2) by (simp add: counted_def)
  let ?v = "host_load (f_store st) p" and ?n = "w_tid w OR FUTEX_WAITERS"
  let ?st1 = "futex_upd a (fx_refcount_update Suc) st"
  have first: "futex_pi_first_waiter a None ?st1 = (Some i, ?st1)"
    using assms(2,3) live(1) by (simp add: futex_pi_first_waiter_def futex_wait_is_live_def)
  have eq: "r = Inr 0" "st' = futex_put_unlocked a (wait_notify i (futex_upd a (fx_pi_owner_update (\<lambda>_. w_tid w))
      (wait_upd i (w_pi_owned_update (\<lambda>_. True)) (pi_queue_remove a i (?st1\<lparr>f_store := host_store p ?n (f_store st)\<rparr>)))))"
    using assms(4,6-10) get_put_same(1) [OF inv assms(2)] first
    by (simp_all add: futex_unlock_pi_def assms(5) futex_unlock_pi_pass_def futex_load_def futex_cas_def)
  have w': "heap_get (f_waits st') i = Some (w\<lparr>w_pi_owned := True, w_notified := True\<rparr>)" using assms(4) by (simp add: eq(2) wait_notify_def)
  have "futex_inv [] st'" using unlock_pi_inv [OF inv, of env uaddr op] assms(10) by simp
  from pi_owned_returns [OF w' _ _ futex_invD(5) [OF this w']] have "fst (futex_resume env2 err i st') = Return (Inr 0)" using live(2) by simp
  moreover have "map_option fx_pi_queue (heap_get (f_heap st') a) = Some is"
    using assms(2,3) rc q(1) by (simp add: eq(2) wait_notify_def pi_queue_remove_def removeAll_id)
  moreover have "host_load (f_store st') p = ?n" by (simp add: eq(2) wait_notify_def pi_queue_remove_def)
  ultimately show ?thesis using eq(1) by simp
qed

lemma ex_contended_values:
  "map_option fx_key (heap_get (f_heap ex_contended) 0) = Some ex_key"
  "map_option fx_pi_queue (heap_get (f_heap ex_contended) 0) = Some [0]"
  "map_option w_tid (heap_get (f_waits ex_contended) 0) = Some 101"
  "word_tid 64 ex_contended = 100"
  by code_simp+

lemma ex_contended_reach: "freach ex_contended"
proof -
  let ?s = "ex_tasks\<lparr>f_store := host_store 64 100 (\<lambda>_. 0)\<rparr>"
  let ?t = "snd (sys_futex_common (ex_fenv 1) 64 134 0 0 0 0 True ?s)"
  have "freach ?s" by (rule freach.step [OF ex_tasks_reach fstep.guest])
  then have t: "freach ?t" by (rule freach.step) (rule fstep.call, simp add: idle_def ex_tasks_eq heap_get_def)
  have "map_option w_task (heap_get (f_waits ?t) 0) = Some 1" by code_simp
  then obtain w where "heap_get (f_waits ?t) 0 = Some w" "w_task w = 1" by auto
  with freach.step [OF t fstep.resume [of _ 0 w "ex_fenv 1"]] show ?thesis by (simp add: ex_contended_def)
qed

theorem pi_unlock_hands_over_witness:
  "let r = futex_unlock_pi (ex_fenv 0) 64 135 ex_contended
   in fst r = Inr 0 \<and> host_load (f_store (snd r)) 64 = 101 OR FUTEX_WAITERS \<and> fst (futex_resume (ex_fenv 1) (Inr ()) 0 (snd r)) = Return (Inr 0)"
proof -
  obtain f where f: "heap_get (f_heap ex_contended) 0 = Some f" "fx_key f = ex_key" "fx_pi_queue f = [0]"
    using ex_contended_values(1,2) by auto
  obtain w where w: "heap_get (f_waits ex_contended) 0 = Some w" "w_tid w = 101" using ex_contended_values(3) by auto
  have "futex_key_of (ex_fenv 0) 64 135 = ex_key" by (rule ex_key_of) simp
  with pi_unlock_hands_over [OF ex_contended_reach f(1,3) w(1) _ _ _ _ _ surjective_pairing, of "ex_fenv 0" 64 135 64 "ex_fenv 1" "Inr ()"]
  show ?thesis using f(2) w(2) ex_contended_values(4) by (simp add: Let_def)
qed

end
