(* ===== verification/Futex_Robust.thy ===== *)
theory Futex_Robust
  imports Futex_Props
begin

text \<open>
  The robust list of a thread that ends: every word the thread still owns is marked, nothing else in memory
  changes, and the first wait on a contended word is woken.
\<close>

section \<open>Reading and writing\<close>

text \<open>An address space whose pages are mapped for reading and writing alike, and no two addresses to one byte.\<close>

definition plain :: "fenv \<Rightarrow> bool" where
  "plain env \<longleftrightarrow> (\<forall>a. user_ptr env True a = user_ptr env False a) \<and>
     (\<forall>a b p. user_ptr env False a = Some p \<longrightarrow> user_ptr env False b = Some p \<longrightarrow> a = b)"

definition span :: "u64 \<Rightarrow> nat \<Rightarrow> u64 set" where
  "span a n = (\<lambda>i. a + of_nat i) ` {..<n}"

lemma span_Suc: "span a (Suc n) = insert a (span (a + 1) n)"
  by (simp add: span_def lessThan_Suc_eq_insert_0 image_image add.assoc)

text \<open>Memory seen through the page table.\<close>

definition at :: "fenv \<Rightarrow> (nat \<Rightarrow> u8) \<Rightarrow> u64 \<Rightarrow> u8 option" where
  "at env m a = map_option m (user_ptr env False a)"

lemma read_bytes_cong: "(\<And>b. b \<in> span a n \<Longrightarrow> at env m' b = at env m b) \<Longrightarrow> user_read_bytes env m' a n = user_read_bytes env m a n"
proof (induction n arbitrary: a)
  case (Suc n)
  have "user_read_bytes env m' (a + 1) n = user_read_bytes env m (a + 1) n" using Suc.prems by (intro Suc.IH) (simp add: span_Suc)
  moreover have "at env m' a = at env m a" using Suc.prems by (simp add: span_Suc)
  ultimately show ?case by (auto simp: at_def split: option.splits)
qed simp

lemma user_read_cong: "(\<And>b. b \<in> span a n \<Longrightarrow> at env m' b = at env m b) \<Longrightarrow> user_read env m' a n = user_read env m a n"
  using read_bytes_cong [of a n env m' m] by (simp add: user_read_def)

lemma read_bytes_mapped: "user_read_bytes env m a n = None \<longleftrightarrow> (\<exists>b \<in> span a n. user_ptr env False b = None)"
proof (induction n arbitrary: a)
  case 0
  then show ?case by (simp add: span_def)
next
  case (Suc n)
  show ?case
  proof (cases "user_read_bytes env m (a + 1) n")
    case None
    then show ?thesis using Suc [of "a + 1"] by (auto simp: span_Suc split: option.split)
  next
    case (Some bs)
    then have "\<forall>b \<in> span (a + 1) n. user_ptr env False b \<noteq> None" using Suc [of "a + 1"] by auto
    then show ?thesis using Some by (auto simp: span_Suc split: option.split)
  qed
qed

lemma user_read_mapped: "user_read env m a n = Some bs \<Longrightarrow> fe_range env a n \<and> (\<forall>b \<in> span a n. user_ptr env False b \<noteq> None)"
  using read_bytes_mapped [of env m a n] by (auto simp: user_read_def split: if_splits)

lemma span_apart: "n < 2 ^ 64 \<Longrightarrow> a \<notin> span (a + 1) n"
proof
  assume n: "n < 2 ^ 64" and "a \<in> span (a + 1) n"
  then obtain i where i: "i < n" "(of_nat (Suc i) :: u64) = 0" by (auto simp: span_def add.assoc)
  then have "2 ^ 64 dvd Suc i" by (simp only: word_of_nat_eq_0_iff) simp
  then show False using i(1) n by (auto dest: dvd_imp_le)
qed

text \<open>A write changes the bytes of its range, to the bytes written, and no others.\<close>

lemma write_bytes_spec:
  assumes "plain env" "\<forall>b \<in> span a (length bs). user_ptr env False b \<noteq> None" "length bs < 2 ^ 64"
  shows "fst (user_write_bytes env a bs m) \<and> user_read_bytes env (snd (user_write_bytes env a bs m)) a (length bs) = Some bs \<and>
    (\<forall>b. b \<notin> span a (length bs) \<longrightarrow> at env (snd (user_write_bytes env a bs m)) b = at env m b)"
  using assms(2,3)
proof (induction bs arbitrary: a m)
  case (Cons x bs)
  obtain p where p: "user_ptr env False a = Some p" using Cons.prems(1) by (auto simp: span_Suc)
  have w: "user_ptr env True a = Some p" using assms(1) p by (simp add: plain_def)
  have other: "at env (m(p := x)) b = at env m b" if "b \<noteq> a" for b
    using assms(1) p that by (auto simp: plain_def at_def map_option_case split: option.split)
  let ?m = "snd (user_write_bytes env (a + 1) bs (m(p := x)))"
  have IH: "fst (user_write_bytes env (a + 1) bs (m(p := x)))" "user_read_bytes env ?m (a + 1) (length bs) = Some bs"
    "\<And>b. b \<notin> span (a + 1) (length bs) \<Longrightarrow> at env ?m b = at env (m(p := x)) b"
    using Cons.IH [of "a + 1" "m(p := x)"] Cons.prems by (simp_all add: span_Suc del: fun_upd_apply)
  have "at env ?m a = Some x" using IH(3) [OF span_apart] Cons.prems(2) p by (simp add: at_def)
  then have "?m p = x" using p by (simp add: at_def)
  then show ?case using IH w p other by (simp add: span_Suc)
qed simp

lemma user_write_spec:
  assumes "plain env" "user_read env m a (length bs) = Some cs" "length bs < 2 ^ 64"
  shows "fst (user_write env a bs m) \<and> user_read env (snd (user_write env a bs m)) a (length bs) = Some bs \<and>
    (\<forall>b. b \<notin> span a (length bs) \<longrightarrow> at env (snd (user_write env a bs m)) b = at env m b)"
  using write_bytes_spec [OF assms(1) _ assms(3), of a m] user_read_mapped [OF assms(2)] by (simp add: user_write_def user_read_def)

section \<open>One entry\<close>

lemma wake_loop_store: "f_store (snd (futex_wake_loop P mx a is n st)) = f_store st"
  by (induction P mx a "is" n st rule: futex_wake_loop.induct) (auto simp: wait_notify_def split: option.split)

lemma futex_wake_store: "f_store (snd (futex_wake env uaddr n st)) = f_store st"
  by (auto simp: futex_wake_def futex_wakelike_def Let_def case_prod_beta wake_loop_store dest: futex_get_sel split: option.split)
    (metis futex_get_sel prod.collapse)+

definition robust_mark :: "u32 \<Rightarrow> u32 \<Rightarrow> u32" where
  "robust_mark tid v = (if v AND FUTEX_TID_MASK = tid then (v AND FUTEX_WAITERS) OR FUTEX_OWNER_DIED else v)"

lemma handle_death_store:
  assumes "plain env" "st' = robust_handle_death env w tid pi st"
  shows "map_option le_word (user_read env (f_store st') w 4) = map_option (\<lambda>bs. robust_mark tid (le_word bs)) (user_read env (f_store st) w 4) \<and>
    (\<forall>b. b \<notin> span w 4 \<longrightarrow> at env (f_store st') b = at env (f_store st) b)"
proof (cases "user_read env (f_store st) w 4")
  case None
  then show ?thesis using assms(2) by (simp add: robust_handle_death_def)
next
  case (Some bs)
  let ?v = "le_word bs :: u32"
  show ?thesis
  proof (cases "?v AND FUTEX_TID_MASK = tid")
    case True
    let ?w = "user_write env w (le_bytes 4 ((?v AND FUTEX_WAITERS) OR FUTEX_OWNER_DIED)) (f_store st)"
    have "f_store st' = snd ?w"
      using assms(2) Some True by (simp add: robust_handle_death_def Let_def futex_wake_store split: prod.split)
    then show ?thesis
      using user_write_spec [OF assms(1), of "f_store st" w "le_bytes 4 ((?v AND FUTEX_WAITERS) OR FUTEX_OWNER_DIED)"] Some True
      by (simp add: robust_mark_def le_word_le_bytes)
  next
    case False
    then show ?thesis using assms(2) Some by (simp add: robust_handle_death_def robust_mark_def)
  qed
qed

text \<open>The wait that is woken for an entry, if any: the first on a contended word that the thread owns.\<close>

definition robust_wakes :: "fenv \<Rightarrow> u32 \<Rightarrow> u64 \<Rightarrow> bool \<Rightarrow> fstate \<Rightarrow> nat list" where
  "robust_wakes env tid w pi st = (case user_read env (f_store st) w 4 of None \<Rightarrow> []
     | Some bs \<Rightarrow> (let v = le_word bs :: u32 in if \<not> pi \<and> v AND FUTEX_TID_MASK = tid \<and> v AND FUTEX_WAITERS \<noteq> 0
         then take 1 (filter (matches (\<lambda>b. b AND NOT 0 \<noteq> 0) st) (futex_queue (futex_key_of env w 1) st)) else []))"

lemma waiters_kept: "((v AND FUTEX_WAITERS) OR FUTEX_OWNER_DIED) AND FUTEX_WAITERS = v AND (FUTEX_WAITERS :: u32)"
  by (simp add: bit.conj_disj_distrib2 and.assoc)

lemma queue_store [simp]: "futex_queue k (st\<lparr>f_store := m\<rparr>) = futex_queue k st" "matches P (st\<lparr>f_store := m\<rparr>) = matches P st"
  by (simp_all add: futex_queue_def futex_find_def futex_queue_of_def matches_def fun_eq_iff split: option.split)

lemma handle_death_queue:
  assumes "futex_inv [] st" "plain env" "st' = robust_handle_death env w tid pi st" "ws = robust_wakes env tid w pi st"
  shows "(\<forall>k. futex_queue k st' = (if k = futex_key_of env w 1 then filter (\<lambda>i. i \<notin> set ws) (futex_queue k st) else futex_queue k st)) \<and>
    (\<forall>i. heap_get (f_waits st') i = (if i \<in> set ws then map_option (w_notified_update (\<lambda>_. True)) (heap_get (f_waits st) i) else heap_get (f_waits st) i))"
proof (cases "user_read env (f_store st) w 4")
  case None
  then show ?thesis using assms(3,4) by (simp add: robust_handle_death_def robust_wakes_def)
next
  case (Some bs)
  let ?v = "le_word bs :: u32" and ?n = "(le_word bs AND FUTEX_WAITERS) OR FUTEX_OWNER_DIED :: u32"
  obtain m where m: "user_write env w (le_bytes 4 ?n) (f_store st) = (True, m)"
    using user_write_spec [OF assms(2), of "f_store st" w "le_bytes 4 ?n"] Some
    by (cases "user_write env w (le_bytes 4 ?n) (f_store st)") auto
  show ?thesis
  proof (cases "\<not> pi \<and> ?v AND FUTEX_TID_MASK = tid \<and> ?v AND FUTEX_WAITERS \<noteq> 0")
    case True
    have s: "st' = snd (futex_wakelike env 1 w 1 0 0 (NOT 0) (st\<lparr>f_store := m\<rparr>))"
      using assms(3) Some True m waiters_kept [of ?v] by (simp add: robust_handle_death_def futex_wake_def)
    have ws: "ws = take (unat (1 :: u32)) (filter (matches (\<lambda>b. b AND NOT 0 \<noteq> 0) (st\<lparr>f_store := m\<rparr>)) (futex_queue (futex_key_of env w 1) (st\<lparr>f_store := m\<rparr>)))"
      using assms(4) Some True by (simp add: robust_wakes_def)
    show ?thesis using wakelike_spec(2,3) [OF _ _ refl refl ws] assms(1) by (simp add: s)
  next
    case False
    then show ?thesis
      using assms(3,4) Some m waiters_kept [of ?v] by (auto simp: robust_handle_death_def robust_wakes_def Let_def)
  qed
qed

section \<open>All entries\<close>

text \<open>The words of the entries do not overlap and have futexes of their own.\<close>

definition words_apart :: "fenv \<Rightarrow> (u64 \<times> bool) list \<Rightarrow> bool" where
  "words_apart env = sorted_wrt (\<lambda>(w, _) (v, _). span w 4 \<inter> span v 4 = {} \<and> futex_key_of env w 1 \<noteq> futex_key_of env v 1)"

definition robust_marks :: "fenv \<Rightarrow> u32 \<Rightarrow> (u64 \<times> bool) list \<Rightarrow> fstate \<Rightarrow> fstate" where
  "robust_marks env tid = fold (\<lambda>(w, pi). robust_handle_death env w tid pi)"

lemma matches_notified:
  "(\<And>i. heap_get (f_waits st') i = (if i \<in> X then map_option (w_notified_update (\<lambda>_. True)) (heap_get (f_waits st) i) else heap_get (f_waits st) i))
   \<Longrightarrow> matches P st' = matches P st"
  by (auto simp: matches_def fun_eq_iff split: option.split)

lemma robust_marks_spec:
  assumes "futex_inv [] st" "plain env" "words_apart env ws" "st' = robust_marks env tid ws st"
  shows "(\<forall>(w, pi) \<in> set ws. map_option le_word (user_read env (f_store st') w 4) = map_option (\<lambda>bs. robust_mark tid (le_word bs)) (user_read env (f_store st) w 4)) \<and>
    (\<forall>b. (\<forall>(w, pi) \<in> set ws. b \<notin> span w 4) \<longrightarrow> at env (f_store st') b = at env (f_store st) b) \<and>
    (\<forall>(w, pi) \<in> set ws. futex_queue (futex_key_of env w 1) st' =
       filter (\<lambda>i. i \<notin> set (robust_wakes env tid w pi st)) (futex_queue (futex_key_of env w 1) st)) \<and>
    (\<forall>k. (\<forall>(w, pi) \<in> set ws. k \<noteq> futex_key_of env w 1) \<longrightarrow> futex_queue k st' = futex_queue k st)"
  using assms(1,3,4)
proof (induction ws arbitrary: st)
  case Nil
  then show ?case by (simp add: robust_marks_def)
next
  case (Cons x ws)
  obtain w pi where x: "x = (w, pi)" by fastforce
  let ?st = "robust_handle_death env w tid pi st"
  note ds = handle_death_store [OF assms(2) refl, of w tid pi st] and dq = handle_death_queue [OF Cons.prems(1) assms(2) refl refl, of w tid pi]
  have apart: "span w 4 \<inter> span v 4 = {}" "futex_key_of env w 1 \<noteq> futex_key_of env v 1" if "(v, q) \<in> set ws" for v q
    using Cons.prems(2) that by (auto simp: words_apart_def x)
  have rd: "user_read env (f_store ?st) v 4 = user_read env (f_store st) v 4" if "(v, q) \<in> set ws" for v q
    using ds apart(1) [OF that] by (intro user_read_cong) blast
  have mt: "matches P ?st = matches P st" for P by (rule matches_notified) (use dq in blast)
  have qu: "futex_queue (futex_key_of env v 1) ?st = futex_queue (futex_key_of env v 1) st" if "(v, q) \<in> set ws" for v q
    using dq apart(2) [OF that] by auto
  have wk: "robust_wakes env tid v q ?st = robust_wakes env tid v q st" if "(v, q) \<in> set ws" for v q
    unfolding robust_wakes_def rd [OF that] qu [OF that] mt ..
  have "futex_inv [] ?st" using handle_death_inv [OF Cons.prems(1)] .
  from Cons.IH [OF this] Cons.prems(2,3) have IH:
    "\<And>v q. (v, q) \<in> set ws \<Longrightarrow> map_option le_word (user_read env (f_store st') v 4) = map_option (\<lambda>bs. robust_mark tid (le_word bs)) (user_read env (f_store ?st) v 4)"
    "\<And>b. (\<forall>(v, q) \<in> set ws. b \<notin> span v 4) \<Longrightarrow> at env (f_store st') b = at env (f_store ?st) b"
    "\<And>v q. (v, q) \<in> set ws \<Longrightarrow> futex_queue (futex_key_of env v 1) st' =
       filter (\<lambda>i. i \<notin> set (robust_wakes env tid v q ?st)) (futex_queue (futex_key_of env v 1) ?st)"
    "\<And>k. (\<forall>(v, q) \<in> set ws. k \<noteq> futex_key_of env v 1) \<Longrightarrow> futex_queue k st' = futex_queue k ?st"
    by (auto simp: words_apart_def x robust_marks_def)
  have here: "user_read env (f_store st') w 4 = user_read env (f_store ?st) w 4"
    using apart(1) by (intro user_read_cong IH(2)) blast
  have "futex_queue (futex_key_of env w 1) st' = filter (\<lambda>i. i \<notin> set (robust_wakes env tid w pi st)) (futex_queue (futex_key_of env w 1) st)"
    using IH(4) [of "futex_key_of env w 1"] apart(2) dq by fastforce
  moreover have "futex_queue k st' = futex_queue k st" if "\<forall>(v, q) \<in> set (x # ws). k \<noteq> futex_key_of env v 1" for k
    using IH(4) [of k] that dq by (simp add: x)
  moreover have "at env (f_store st') b = at env (f_store st) b" if "\<forall>(v, q) \<in> set (x # ws). b \<notin> span v 4" for b
    using IH(2) [of b] that ds by (simp add: x)
  ultimately show ?case using IH(1,3) ds here rd qu wk by (auto simp: x)
qed

section \<open>The list\<close>

definition link_size :: "bool \<Rightarrow> nat" where
  "link_size is64 = (if is64 then 8 else 4)"

text \<open>The entries of the list in memory, from the link \<open>link\<close> on to the head.\<close>

fun rlist :: "fenv \<Rightarrow> bool \<Rightarrow> (nat \<Rightarrow> u8) \<Rightarrow> u64 \<Rightarrow> u64 \<Rightarrow> (u64 \<times> bool) list \<Rightarrow> bool" where
  "rlist env is64 m head link [] \<longleftrightarrow> link AND NOT 1 = head"
| "rlist env is64 m head link ((e, pi) # es) \<longleftrightarrow> e = link AND NOT 1 \<and> pi = (link AND 1 \<noteq> 0) \<and> e \<noteq> head \<and>
     (case user_read env m e (link_size is64) of None \<Rightarrow> False | Some bs \<Rightarrow> rlist env is64 m head (le_word bs) es)"

definition robust_words :: "bool \<Rightarrow> u64 \<Rightarrow> (u64 \<times> bool) list \<Rightarrow> (u64 \<times> bool) list" where
  "robust_words is64 offset = map (\<lambda>(e, pi). (robust_futex_addr e offset is64, pi))"

text \<open>No link of the list \<open>es\<close> lies in one of the words \<open>ws\<close>.\<close>

definition links_apart :: "bool \<Rightarrow> (u64 \<times> bool) list \<Rightarrow> (u64 \<times> bool) list \<Rightarrow> bool" where
  "links_apart is64 es ws \<longleftrightarrow> (\<forall>(e, _) \<in> set es. \<forall>(w, _) \<in> set ws. span e (link_size is64) \<inter> span w 4 = {})"

lemma links_apart_mono: "links_apart is64 es ws \<Longrightarrow> set es' \<subseteq> set es \<Longrightarrow> set ws' \<subseteq> set ws \<Longrightarrow> links_apart is64 es' ws'"
  unfolding links_apart_def by blast

lemma rlist_cong:
  assumes "\<And>e pi b. (e, pi) \<in> set es \<Longrightarrow> b \<in> span e (link_size is64) \<Longrightarrow> at env m' b = at env m b"
  shows "rlist env is64 m' head link es = rlist env is64 m head link es"
  using assms
proof (induction es arbitrary: link)
  case (Cons x es)
  obtain e pi where x: "x = (e, pi)" by fastforce
  have "user_read env m' e (link_size is64) = user_read env m e (link_size is64)"
    using Cons.prems [of e pi] by (intro user_read_cong) (simp add: x)
  moreover have "rlist env is64 m' head l es = rlist env is64 m head l es" for l by (rule Cons.IH) (use Cons.prems in auto)
  ultimately show ?case unfolding x by (auto split: option.split)
qed simp

lemma robust_walk_marks:
  assumes "plain env" "rlist env is64 (f_store st) head link es" "length es \<le> limit"
    and "links_apart is64 es (robust_words is64 offset (filter (\<lambda>(e, _). e \<noteq> pending) es))"
  shows "robust_walk env is64 offset head pending limit (link AND NOT 1) (link AND 1 \<noteq> 0) st =
    (True, robust_marks env (fe_tid env) (robust_words is64 offset (filter (\<lambda>(e, _). e \<noteq> pending) es)) st)"
  using assms(2-4)
proof (induction es arbitrary: link limit st)
  case Nil
  then show ?case by (cases limit) (simp_all add: robust_marks_def robust_words_def)
next
  case (Cons x es)
  obtain e pi where x: "x = (e, pi)" by fastforce
  obtain n where n: "limit = Suc n" using Cons.prems(2) by (cases limit) auto
  obtain bs where bs: "user_read env (f_store st) e (link_size is64) = Some bs" "rlist env is64 (f_store st) head (le_word bs) es"
    and e: "e = link AND NOT 1" "pi = (link AND 1 \<noteq> 0)" "e \<noteq> head" using Cons.prems(1) by (auto simp: x split: option.splits)
  let ?st = "if e \<noteq> pending then robust_handle_death env (robust_futex_addr e offset is64) (fe_tid env) pi st else st"
  have "at env (f_store ?st) b = at env (f_store st) b" if d: "(d, q) \<in> set es" "b \<in> span d (link_size is64)" for d q b
  proof (cases "e = pending")
    case False
    then have "span d (link_size is64) \<inter> span (robust_futex_addr e offset is64) 4 = {}"
      using Cons.prems(3) d(1) by (auto simp: x links_apart_def robust_words_def)
    then show ?thesis using False d(2) handle_death_store [OF assms(1) refl, of "robust_futex_addr e offset is64" "fe_tid env" pi st] by auto
  qed simp
  then have r: "rlist env is64 (f_store ?st) head (le_word bs) es" using bs(2) rlist_cong [of es is64 env "f_store ?st" "f_store st"] by blast
  have la: "links_apart is64 es (robust_words is64 offset (filter (\<lambda>(e, _). e \<noteq> pending) es))"
    by (rule links_apart_mono [OF Cons.prems(3)]) (auto simp: x robust_words_def)
  have IH: "robust_walk env is64 offset head pending n (le_word bs AND NOT 1) ((le_word bs :: u64) AND 1 \<noteq> 0) ?st =
    (True, robust_marks env (fe_tid env) (robust_words is64 offset (filter (\<lambda>(e, _). e \<noteq> pending) es)) ?st)"
    by (rule Cons.IH [OF r _ la]) (use Cons.prems(2) in \<open>simp add: n\<close>)
  have "robust_walk env is64 offset head pending limit (link AND NOT 1) (link AND 1 \<noteq> 0) st =
      robust_walk env is64 offset head pending n (le_word bs AND NOT 1) ((le_word bs :: u64) AND 1 \<noteq> 0) ?st"
    unfolding n using e bs(1) by (simp add: robust_read_def link_size_def Let_def)
  then show ?case unfolding IH by (simp add: x robust_marks_def robust_words_def)
qed


text \<open>A thread with one lock: the head of its list at 64, the entry at 128, the word of the lock at 96.\<close>

definition ex_memory :: "nat \<Rightarrow> u8" where
  "ex_memory p = (if p = 64 then 128 else if p = 72 then 0xe0 else if 72 < p \<and> p < 80 then 0xff else if p = 128 then 64
     else if p = 96 then 100 else 0)"

definition ex_robust :: fstate where
  "ex_robust = snd (sys_set_robust_list_common (ex_fenv 0) 64 24 GUEST_ABI_AMD64 (futex_task_create ex_task (init_futex_hash ex_memory)))"

lemma ex_robust_simps [simp]: "f_store ex_robust = ex_memory" "f_tasks ex_robust = [ex_task\<lparr>ft_robust := 64\<rparr>]"
  by (simp_all add: ex_robust_def sys_set_robust_list_common_def robust_list_head_size_def task_upd_def futex_task_create_def init_futex_hash_def ex_task_def)


end
