(* ===== verification/Spec2Isabelle.thy ===== *)
theory Spec2Isabelle
  imports Seccomp_Ckpt Fd_Locks SysvSem_Props SysvMsg_Props Futex_Robust
begin

text \<open>
  A verification of kernel components of iSH-AOK, which runs Linux programs of five guest
  architectures in user mode. Guest code is translated by the JIT (\<^verbatim>\<open>jit/\<close>, \<^verbatim>\<open>emu/\<close>); a system call leaves
  the JIT and is carried out by C functions of \<^verbatim>\<open>kernel/\<close> and \<^verbatim>\<open>fs/\<close> on objects that all tasks share.
  The development models such components with their whole interface, and proves what they promise
  to guests over every order in which tasks call them.

  \<^bold>\<open>The parts and the theories.\<close>

  \<^item> \<^verbatim>\<open>Ish_Prelude\<close>: machine integers, error numbers, little-endian structures, heaps of counted
    objects (\<open>counted\<close>, and the locale \<open>refcounted\<close> of objects with a retain and a release).

  \<^item> Seccomp (\<^verbatim>\<open>kernel/seccomp.c\<close>). \<^verbatim>\<open>Bpf\<close> has \<^verbatim>\<open>bpf_check\<close> and \<^verbatim>\<open>bpf_run\<close>: a program that passes the check
    returns within its length and reads no scratch word before writing it. \<^verbatim>\<open>Seccomp\<close> has the
    counted filter chains, \<^verbatim>\<open>seccomp(2)\<close> and \<^verbatim>\<open>prctl\<close> with TSYNC, the check at system call entry and the modes.
    \<^verbatim>\<open>Seccomp_Refs\<close> interprets \<open>refcounted\<close> on filters; \<^verbatim>\<open>Seccomp_Inv\<close> shows the invariant; \<^verbatim>\<open>Seccomp_Props\<close>
    has the step relation and the properties: exact counts, no call makes a task's answers weaker, the
    answer of a chain. \<^verbatim>\<open>Seccomp_Ckpt\<close> has the export and import of chains for a checkpoint.

  \<^item> File locks (\<^verbatim>\<open>fs/lock.c\<close>). \<^verbatim>\<open>FileLock\<close> has the lock list of an inode, the waiting list, the deadlock
    check and \<^verbatim>\<open>flock\<close>. \<^verbatim>\<open>FileLock_Range\<close> refines lists of ranges to what each owner holds at each
    byte. \<^verbatim>\<open>FileLock_Props\<close> has the step relation, mutual exclusion, wake-ups, ranges, deadlocks.

  \<^item> Descriptors (\<^verbatim>\<open>fs/fd.c\<close>). \<^verbatim>\<open>FdTable\<close> has open files, tables, \<^verbatim>\<open>dup\<close>, \<^verbatim>\<open>close\<close>, \<^verbatim>\<open>close_range\<close>, the
    part of \<^verbatim>\<open>fork\<close>, \<^verbatim>\<open>exec\<close> and exit that concerns tables; \<^verbatim>\<open>Fcntl\<close> has \<^verbatim>\<open>fcntl\<close> with the layouts of
    \<^verbatim>\<open>struct flock\<close>. \<^verbatim>\<open>FdTable_Inv\<close>, \<^verbatim>\<open>FdTable_Ops\<close> and \<^verbatim>\<open>Fcntl_Inv\<close> carry the counts through every call;
    \<^verbatim>\<open>FdTable_Props\<close> and \<^verbatim>\<open>Fd_Locks\<close> state the properties, the latter those of descriptors and locks together:
    closing a descriptor calls into the file locks.

  \<^item> System V IPC (\<^verbatim>\<open>kernel/ipc.c\<close>, \<^verbatim>\<open>kernel/sysvsem.c\<close>, \<^verbatim>\<open>kernel/sysvmsg.c\<close>). \<^verbatim>\<open>SysvIpc\<close> has the permission
    checks and the interface \<open>ipc_objects\<close> of a namespace's objects by id and by key, extended by \<open>ipc_waited\<close>
    for objects tasks sleep on. \<^verbatim>\<open>SysvSem\<close> and \<^verbatim>\<open>SysvMsg\<close> have every function of the two files; \<^verbatim>\<open>SysvSem_Inv\<close>,
    \<^verbatim>\<open>SysvSem_Reach\<close> and \<^verbatim>\<open>SysvMsg_Inv\<close> interpret the interfaces and carry the invariants; \<^verbatim>\<open>SysvSem_Props\<close> and
    \<^verbatim>\<open>SysvMsg_Props\<close> state atomicity of \<^verbatim>\<open>semop\<close>, \<^verbatim>\<open>SEM_UNDO\<close>, the order of messages, exact counters
    and that no task stays asleep on what it could do.

  \<^item> Futexes (\<^verbatim>\<open>kernel/futex.c\<close>). \<^verbatim>\<open>Futex\<close> has keys, the table of counted futexes, waiting, waking and requeueing;
    \<^verbatim>\<open>Futex_Calls\<close> has PI locks, the system call, robust lists and the part of \<^verbatim>\<open>do_exit\<close> (\<^verbatim>\<open>kernel/exit.c\<close>) and of signal
    delivery (\<^verbatim>\<open>kernel/signal.c\<close>) that concerns futexes. \<^verbatim>\<open>Futex_Inv\<close> interprets \<open>refcounted\<close> on futexes and has the
    invariant, \<^verbatim>\<open>Futex_Ops\<close> and \<^verbatim>\<open>Futex_Reach\<close> carry it through every operation and every step. \<^verbatim>\<open>Futex_Queue\<close> refines
    futexes to one queue per key; \<^verbatim>\<open>Futex_Pi\<close> follows a PI lock through the protocol of its users. \<^verbatim>\<open>Futex_Props\<close> states
    exact counts, the order of wake-ups, mutual exclusion and the hand-over of PI locks, and what signals do to
    wake-ups; \<^verbatim>\<open>Futex_Robust\<close> what becomes of the locks of a thread that ends.

  \<^bold>\<open>How the models follow the code.\<close> A struct is a record with the fields of the source, a pointer to an
  allocated object is its index in a heap (\<open>None\<close> once freed), a list of the kernel is a list. A region
  the code runs under one lock is one function from state to state; a call that waits ends such a region
  asleep, with its frame in a list of sleepers, and goes on in another region when it is woken, timed out or
  interrupted. The step relations of the \<^verbatim>\<open>Props\<close> and \<^verbatim>\<open>Reach\<close> theories let the regions of all tasks follow each
  other in any order, and the invariants are proved over all of them. Fallible functions return \<open>Inl\<close> of the
  error number or \<open>Inr\<close> of the value. Integers have the width of the source where it can matter
  (limits, ranges, adjustments, words of BPF); counts of sleeping tasks, object ids and reference counts are
  natural numbers, which assumes that fewer than $2^{31}$ of them exist.

  What belongs to parts outside the models is an argument: the caller's ids and capabilities, readable guest
  memory, the time, whether a signal is pending and whether it restarts the call, and whether an
  allocation fails where the code looks at that. Futexes act on words that guest threads change at the same time:
  their memory is bytes of the host that a call reaches through the page table of its task, which is an argument, and a
  guest may store anything between two steps.

  \<^bold>\<open>Loops and bounds.\<close> \<^verbatim>\<open>bpf_run\<close> takes fuel; a program that passed \<^verbatim>\<open>bpf_check\<close> needs no more than its length,
  which is what the code relies on, since jumps go forward. Chains of filters are walked with the number of live
  filters as fuel, enough because each filter was made before the one that points to it. The deadlock search of
  \<^verbatim>\<open>fs/lock.c\<close> is bounded by the number of waiting requests, as in the code. The loops of PI locks around a
  compare-and-swap start over as often as another thread stored to the word in between; the list of these stores
  is an argument, and it is enough: without such a store a pass ends the loop, as long as a word that can be
  written is written where it is read (\<open>lock_pi_pass_ends\<close>, \<open>unlock_pi_pass_ends\<close>). The walk over a robust list stops at
  2048 entries, as in the code, and the property about it is for lists of at most that length. All other loops
  are recursion over lists.

  \<^bold>\<open>Not modelled.\<close> The JIT, CPU emulation and guest page tables (hand-written host assembly and host
  memory); file systems, sockets, terminals, devices and polling (host input and output); signals, exec, ptrace and
  the life cycle of processes, except for what they do with the objects above; shared memory segments and mappings;
  clocks; checkpoints other than seccomp's; native programs, accelerators, the iOS application, build tools
  and bundled libraries. Of futexes the host priorities that \<^verbatim>\<open>futex_cmp_requeue_pi\<close> sets meanwhile are
  left out. Diagnostics (traces, logs, lock statistics) have no effect on results and are left out.
\<close>

end
